(* ===== verification/Prelude.thy ===== *)
theory Prelude
  imports Main "HOL-Library.Word"
begin

text \<open>
  The prelude of the development: the fact collections the component theories extend, the
  integer and byte types of \<^verbatim>\<open>src/common/types.h\<close>, and the generic lemmas on lists, maps,
  cardinalities and loops that several components share.

  Conventions. Terms and log indices are \<^verbatim>\<open>int64\<close> counters that the program only compares,
  increments and decrements; they are modelled as \<^typ>\<open>int\<close>. Hashes, checksums and raw bytes are
  words of their width, because there the wrap-around is the point. A \<^verbatim>\<open>std::string\<close> is a
  \<^typ>\<open>string\<close>, one character per byte.
\<close>

named_theorems core_simps \<open>projections of RaftCore state updates\<close>
named_theorems codec_simps \<open>round-trip equations of the binary codecs\<close>
named_theorems frame_simps \<open>fields an operation leaves unchanged\<close>

type_synonym byte = "8 word"
type_synonym Key = string
type_synonym Value = string
type_synonym KV = "Key \<times> Value"
type_synonym NodeID = string
type_synonym Term = int
type_synonym LogIndex = int

section \<open>Lists\<close>

text \<open>Appending at the end keeps a prefix; a list is split at the index of an element.\<close>

lemma take_Suc_nth: "n < length xs \<Longrightarrow> take (Suc n) xs = take n xs @ [xs ! n]"
  by (rule take_Suc_conv_app_nth)

lemma nth_append_last [simp]: "(xs @ [x]) ! length xs = x"
  by simp

lemma last_conv_nth': "xs \<noteq> [] \<Longrightarrow> last xs = xs ! (length xs - 1)"
  by (rule last_conv_nth)

lemma find_SomeD: "find P xs = Some x \<Longrightarrow> P x \<and> x \<in> set xs"
  by (induction xs) (auto split: if_splits)

lemma find_None_conv: "find P xs = None \<longleftrightarrow> (\<forall>x \<in> set xs. \<not> P x)"
  by (induction xs) auto

lemma find_append: "find P (xs @ ys) = (case find P xs of None \<Rightarrow> find P ys | Some x \<Rightarrow> Some x)"
  by (induction xs) auto

text \<open>Dropping the prefix of a list whose elements a monotone test rejects.\<close>

lemma filter_drop_prefix:
  assumes "\<And>i. i < length xs \<Longrightarrow> P (xs ! i) \<longleftrightarrow> n \<le> i"
  shows "filter P xs = drop n xs"
proof (cases "n \<le> length xs")
  case True
  have "filter P (take n xs) = []"
    using assms by (auto simp: filter_empty_conv in_set_conv_nth)
  moreover have "filter P (drop n xs) = drop n xs"
    using assms True by (auto simp: filter_id_conv in_set_conv_nth)
  ultimately show ?thesis
    by (metis append_Nil append_take_drop_id filter_append)
next
  case False
  then have "filter P xs = []"
    using assms by (auto simp: filter_empty_conv in_set_conv_nth)
  with False show ?thesis by simp
qed

section \<open>Majorities\<close>

text \<open>
  Two sets that each hold more than half of a finite set meet. This is the fact that the
  election and the commit rule rest on.
\<close>

lemma majorities_meet:
  assumes fin: "finite V" and sub: "A \<subseteq> V" "B \<subseteq> V"
    and maj: "card V div 2 + 1 \<le> card A" "card V div 2 + 1 \<le> card B"
  shows "A \<inter> B \<noteq> {}"
proof
  assume disj: "A \<inter> B = {}"
  have "card (A \<union> B) = card A + card B"
    using fin sub disj by (intro card_Un_disjoint) (auto intro: finite_subset)
  moreover have "card (A \<union> B) \<le> card V"
    using fin sub by (intro card_mono) auto
  ultimately show False using maj by linarith
qed

section \<open>Loops over an index range\<close>

text \<open>
  \<^verbatim>\<open>for (LogIndex i = lo; i <= hi; ++i)\<close> visits the indices \<^verbatim>\<open>lo .. hi\<close> in order: the list
  \<^term>\<open>[lo..hi]\<close> of the library.
\<close>

lemma upto_snoc: "lo \<le> hi \<Longrightarrow> [lo..hi] = [lo..hi - 1] @ [hi::int]"
  by (simp add: upto_rec2)

lemma find_upto_Some:
  "find P [lo..hi] = Some i \<Longrightarrow> lo \<le> i \<and> i \<le> hi \<and> P i \<and> (\<forall>j. lo \<le> j \<and> j < i \<longrightarrow> \<not> P (j::int))"
proof (induction lo hi rule: upto.induct)
  case (1 lo hi)
  show ?case
  proof (cases "lo \<le> hi \<and> \<not> P lo")
    case True
    then have "find P [lo + 1..hi] = Some i"
      using 1(2) by (simp add: upto_rec1)
    then have "lo + 1 \<le> i \<and> i \<le> hi \<and> P i \<and> (\<forall>j. lo + 1 \<le> j \<and> j < i \<longrightarrow> \<not> P j)"
      using 1(1) True by blast
    moreover have "\<not> P j" if "lo \<le> j" "j < i" for j
      using that True calculation by (cases "j = lo") auto
    ultimately show ?thesis by auto
  next
    case False
    then show ?thesis
      using 1(2) by (cases "lo \<le> hi") (auto simp: upto_rec1)
  qed
qed

lemma take_upto: "int n \<le> hi - lo + 1 \<Longrightarrow> take n [lo..hi] = [lo..lo + int n - 1]"
  by (rule nth_equalityI) auto

end
