(* ===== verification/Model.thy ===== *)
theory Model
  imports Prelude
begin

text \<open>
  The data model shared by every component: \<^verbatim>\<open>src/common/status.h\<close>,
  \<^verbatim>\<open>src/common/model/model.h\<close>, \<^verbatim>\<open>src/storage/model/model.h\<close> and
  \<^verbatim>\<open>src/storage/model/param.h\<close>. A struct is a record whose field names carry the struct's
  initials (record fields of one theory share a name space), an enum is a datatype with the source's
  enumerators, a \<^verbatim>\<open>std::variant\<close> or a struct with a type tag is a datatype.

  A \<^verbatim>\<open>Status\<close> is represented by its code. The message of a status is diagnostic text: no branch
  of the program reads it and \<^verbatim>\<open>Status::operator==\<close> compares codes only. The one message that
  is data is the one a request record persists, which is a field of its own.
\<close>

section \<open>Status codes\<close>

datatype StatusCode =
    OK | ERROR | KEY_NOT_FOUND | INVALID_ARGUMENT | DB_NOT_FOUND | TABLE_NOT_FOUND
  | REPLICA_NOT_FOUND | REPLICA_MANAGER_NOT_FOUND | NOT_SUPPORTED | ALREADY_EXIST | NO_STUB
  | RPC_ERROR | RETRY_ERROR | RESOURCE_EXHAUSTED | NOT_INIT | CONDITION_NOT_MET
  | ROUTE_NOT_FOUND | TABLE_META_CACHE_NOT_FOUND | DB_META_CACHE_NOT_FOUND | REPLICA_ERROR
  | NOT_LEADER | NOT_YET_COMMIT | IS_RECOVERING | NOT_VOTER | READ_INDEX_NOT_READY | IS_FAULTED
  | UNKNOWN | SDK_TRY_AGAIN | GET_EOF | PARTIAL_READ
  | StatusCodeValue int \<comment> \<open>a value cast from an integer that no enumerator has\<close>

type_synonym Status = StatusCode

definition ok :: "Status \<Rightarrow> bool" where
  "ok s \<longleftrightarrow> s = OK"

definition fail :: "Status \<Rightarrow> bool" where
  "fail s \<longleftrightarrow> \<not> ok s"

definition status_code_table :: "(StatusCode \<times> int) list" where
  "status_code_table =
    [(OK, 0), (ERROR, 1), (KEY_NOT_FOUND, 2), (INVALID_ARGUMENT, 3), (DB_NOT_FOUND, 4),
     (TABLE_NOT_FOUND, 5), (REPLICA_NOT_FOUND, 6), (REPLICA_MANAGER_NOT_FOUND, 7),
     (NOT_SUPPORTED, 8), (ALREADY_EXIST, 9), (NO_STUB, 10), (RPC_ERROR, 11), (RETRY_ERROR, 12),
     (RESOURCE_EXHAUSTED, 13), (NOT_INIT, 14), (CONDITION_NOT_MET, 15), (ROUTE_NOT_FOUND, 1000),
     (TABLE_META_CACHE_NOT_FOUND, 1001), (DB_META_CACHE_NOT_FOUND, 1002), (REPLICA_ERROR, 1003),
     (NOT_LEADER, 2000), (NOT_YET_COMMIT, 2001), (IS_RECOVERING, 2002), (NOT_VOTER, 2003),
     (READ_INDEX_NOT_READY, 2004), (IS_FAULTED, 2005), (UNKNOWN, 4000), (SDK_TRY_AGAIN, 4001),
     (GET_EOF, 5000), (PARTIAL_READ, 5001)]"

text \<open>\<^verbatim>\<open>static_cast<int32_t>(StatusCode)\<close> and back.\<close>

definition to_rpc_code :: "StatusCode \<Rightarrow> int" where
  "to_rpc_code c = (case c of StatusCodeValue n \<Rightarrow> n
     | _ \<Rightarrow> (case map_of status_code_table c of Some n \<Rightarrow> n | None \<Rightarrow> 0))"

definition status_of_int :: "int \<Rightarrow> StatusCode" where
  "status_of_int n =
     (case find (\<lambda>p. snd p = n) status_code_table of Some p \<Rightarrow> fst p | None \<Rightarrow> StatusCodeValue n)"

section \<open>Identifiers and members\<close>

record Endpoint =
  ep_ip :: string
  ep_port :: int

record ShardID =
  sid_table_id :: int
  sid_shard_index :: int

record ReplicaID =
  rid_table_id :: int
  rid_shard_index :: int
  rid_replica_seq :: int

definition default_ReplicaID :: ReplicaID where
  "default_ReplicaID = \<lparr>rid_table_id = -1, rid_shard_index = -1, rid_replica_seq = -1\<rparr>"

definition get_shard_id :: "ReplicaID \<Rightarrow> ShardID" where
  "get_shard_id r = \<lparr>sid_table_id = rid_table_id r, sid_shard_index = rid_shard_index r\<rparr>"

datatype RaftMemberType = NON_MEMBER | VOTER | LEARNER

definition is_raft_voter :: "RaftMemberType \<Rightarrow> bool" where
  "is_raft_voter t \<longleftrightarrow> t = VOTER"

datatype ReplicaRole = FOLLOWER | LEADER | CANDIDATE | PRE_CANDIDATE

datatype StorageReplicaStatus = INITIALIZING | RECOVERING | READY | FAULTED

datatype EngineType = MAP

record PeerMember =
  pm_node_id :: NodeID
  pm_replica_id :: ReplicaID
  pm_endpoint :: Endpoint

definition default_PeerMember :: PeerMember where
  "default_PeerMember = \<lparr>pm_node_id = [], pm_replica_id = default_ReplicaID,
     pm_endpoint = \<lparr>ep_ip = [], ep_port = 0\<rparr>\<rparr>"

record RaftMember =
  rm_peer :: PeerMember
  rm_member_type :: RaftMemberType

section \<open>Log entries and proposals\<close>

datatype WriteOpType = NONE | PUT | DEL | ADD_LEARNER | PROMOTE_VOTER | REMOVE_MEMBER | CAS

definition is_config_change_op :: "WriteOpType \<Rightarrow> bool" where
  "is_config_change_op op \<longleftrightarrow> op = ADD_LEARNER \<or> op = PROMOTE_VOTER \<or> op = REMOVE_MEMBER"

definition is_kv_write_op :: "WriteOpType \<Rightarrow> bool" where
  "is_kv_write_op op \<longleftrightarrow> op = PUT \<or> op = DEL \<or> op = CAS"

record LogEntry =
  le_term :: Term
  le_index :: LogIndex
  le_op_type :: WriteOpType
  le_key :: Key
  le_value :: Value
  le_expected :: Value
  le_config_member :: PeerMember
  le_config_replica_id :: ReplicaID
  le_request_id :: string

definition default_LogEntry :: LogEntry where
  "default_LogEntry = \<lparr>le_term = 0, le_index = 0, le_op_type = NONE, le_key = [], le_value = [],
     le_expected = [], le_config_member = default_PeerMember,
     le_config_replica_id = default_ReplicaID, le_request_id = []\<rparr>"

datatype ProposeParam =
    WriteProposal (wp_op: WriteOpType) (wp_key: Key) (wp_value: Value) (wp_request_id: string)
      (wp_expected: Value)
  | NoopProposal
  | ConfigChangeProposal (cp_op: WriteOpType) (cp_member: PeerMember) (cp_target: ReplicaID)

definition propose_add_learner :: "PeerMember \<Rightarrow> ProposeParam" where
  "propose_add_learner m = ConfigChangeProposal ADD_LEARNER m default_ReplicaID"

definition propose_promote_voter :: "ReplicaID \<Rightarrow> ProposeParam" where
  "propose_promote_voter r = ConfigChangeProposal PROMOTE_VOTER default_PeerMember r"

definition propose_remove_member :: "ReplicaID \<Rightarrow> ProposeParam" where
  "propose_remove_member r = ConfigChangeProposal REMOVE_MEMBER default_PeerMember r"

section \<open>Persistent raft state and snapshots\<close>

record RaftMeta =
  rmeta_current_term :: Term
  rmeta_voted_for :: "ReplicaID option"

definition default_RaftMeta :: RaftMeta where
  "default_RaftMeta = \<lparr>rmeta_current_term = 0, rmeta_voted_for = None\<rparr>"

record SnapshotHeader =
  sh_apply_index :: LogIndex
  sh_apply_term :: Term
  sh_members :: "RaftMember list"

record RequestRecord =
  rr_request_id :: string
  rr_op :: WriteOpType
  rr_payload_hash :: "64 word"
  rr_apply_status :: Status
  rr_apply_msg :: string

record SnapshotData =
  sd_header :: SnapshotHeader
  sd_kvs :: "KV list"
  sd_request_records :: "RequestRecord list"

record ReplicaRuntimeOptions =
  ro_data_dir :: string
  ro_raft_rpc_timeout_ms :: int
  ro_raft_do_snapshot_limit :: int

definition default_ReplicaRuntimeOptions :: ReplicaRuntimeOptions where
  "default_ReplicaRuntimeOptions = \<lparr>ro_data_dir = [], ro_raft_rpc_timeout_ms = 1000, ro_raft_do_snapshot_limit = 1000\<rparr>"

record ReplicaInitParam =
  ip_replica_id :: ReplicaID
  ip_engine_type :: EngineType
  ip_local_endpoint :: Endpoint
  ip_members :: "PeerMember list"
  ip_runtime :: ReplicaRuntimeOptions

record ReplicaMetaPayload =
  mp_init_param :: ReplicaInitParam

section \<open>Raft messages and effects\<close>

record RequestVoteParam =
  rv_from :: ReplicaID
  rv_to :: ReplicaID
  rv_term :: Term
  rv_last_log_index :: LogIndex
  rv_last_log_term :: Term

record RequestVoteResult =
  rvr_term :: Term
  rvr_vote_granted :: bool

record AppendEntriesParam =
  ae_from :: ReplicaID
  ae_to :: ReplicaID
  ae_term :: Term
  ae_entries :: "LogEntry list"
  ae_prev_log_index :: LogIndex
  ae_prev_log_term :: Term
  ae_leader_commit :: LogIndex
  ae_read_quorum_seq :: nat

record AppendEntriesResult =
  aer_term :: Term
  aer_success :: bool
  aer_last_log_index :: LogIndex

record InstallSnapshotParam =
  is_from :: ReplicaID
  is_to :: ReplicaID
  is_term :: Term
  is_snapshot_index :: LogIndex
  is_snapshot_term :: Term
  is_offset :: nat
  is_data :: "byte list"
  is_done :: bool

record InstallSnapshotResult =
  isr_term :: Term
  isr_status :: Status
  isr_snapshot_watermark :: LogIndex

datatype RaftMessage =
    RequestVoteMsg (msg_target: PeerMember) RequestVoteParam
  | PreVoteMsg (msg_target: PeerMember) RequestVoteParam
  | AppendEntriesMsg (msg_target: PeerMember) AppendEntriesParam
  | InstallSnapshotMsg (msg_target: PeerMember) InstallSnapshotParam

record RaftEffects =
  ef_hard_state :: "RaftMeta option"
  ef_entries_to_append :: "LogEntry list"
  ef_entries_to_rewrite :: "LogEntry list option"
  ef_messages :: "RaftMessage list"

definition no_effects :: RaftEffects where
  "no_effects = \<lparr>ef_hard_state = None, ef_entries_to_append = [], ef_entries_to_rewrite = None,
     ef_messages = []\<rparr>"

definition push_message :: "RaftMessage \<Rightarrow> RaftEffects \<Rightarrow> RaftEffects" where
  "push_message m ef = ef\<lparr>ef_messages := ef_messages ef @ [m]\<rparr>"

section \<open>Facts about the data model\<close>

lemma ok_OK [simp]: "ok OK" and fail_OK [simp]: "\<not> fail OK"
  by (simp_all add: ok_def fail_def)

lemma fail_iff: "fail s \<longleftrightarrow> s \<noteq> OK"
  by (simp add: ok_def fail_def)

lemma op_kinds_disjoint: "\<not> (is_config_change_op op \<and> is_kv_write_op op)"
  by (cases op) (simp_all add: is_config_change_op_def is_kv_write_op_def)

lemma is_kv_write_op_simps [simp]:
  "is_kv_write_op PUT" "is_kv_write_op DEL" "is_kv_write_op CAS" "\<not> is_kv_write_op NONE"
  "\<not> is_kv_write_op ADD_LEARNER" "\<not> is_kv_write_op PROMOTE_VOTER" "\<not> is_kv_write_op REMOVE_MEMBER"
  by (simp_all add: is_kv_write_op_def)

lemma is_config_change_op_simps [simp]:
  "is_config_change_op ADD_LEARNER" "is_config_change_op PROMOTE_VOTER"
  "is_config_change_op REMOVE_MEMBER" "\<not> is_config_change_op PUT" "\<not> is_config_change_op DEL"
  "\<not> is_config_change_op CAS" "\<not> is_config_change_op NONE"
  by (simp_all add: is_config_change_op_def)

lemma status_code_table_distinct:
  "distinct (map fst status_code_table)" "distinct (map snd status_code_table)"
  by (simp_all add: status_code_table_def)

text \<open>
  The integer of a status names one status: casting a status to an integer and back gives the
  status, for every enumerator and for every foreign integer value.
\<close>

lemma status_of_int_to_rpc_code:
  assumes "\<forall>n. c = StatusCodeValue n \<longrightarrow> n \<notin> snd ` set status_code_table"
  shows "status_of_int (to_rpc_code c) = c"
proof (cases c)
  case (StatusCodeValue n)
  then show ?thesis
    using assms
    by (auto simp: to_rpc_code_def status_of_int_def find_None_iff split: option.splits
        dest: find_SomeD)
qed (simp_all add: to_rpc_code_def status_of_int_def status_code_table_def)

section \<open>Visitors\<close>

text \<open>A loop that hands each element of a list to a visitor and returns the first failure, as the \<^verbatim>\<open>for_each\<close>
  functions of the engine, the state machine and the snapshot reader do.\<close>

fun visit_all :: "('s \<Rightarrow> 'a \<Rightarrow> 's \<times> Status) \<Rightarrow> 'a list \<Rightarrow> 's \<Rightarrow> 's \<times> Status" where
  "visit_all fn [] st = (st, OK)"
| "visit_all fn (x # xs) st = (let (st1, s1) = fn st x in if fail s1 then (st1, s1) else visit_all fn xs st1)"

lemma visit_all_append:
  "visit_all fn (xs @ ys) st = (let (st1, s1) = visit_all fn xs st in if fail s1 then (st1, s1) else visit_all fn ys st1)"
  by (induction xs arbitrary: st) (auto simp: Let_def fail_def ok_def split: prod.splits)

end
