(* ===== verification/Crc.thy ===== *)
theory Crc
  imports Prelude
begin

text \<open>
  The checksum of framed records and snapshot files (\<^verbatim>\<open>common/crc.h\<close>): the table, the table-driven
  update, and the shift register it implements.  The update can be fed piecewise, agrees with the shift
  register bit by bit, and tells apart two inputs that differ in one byte.
\<close>

unbundle bit_operations_syntax

section \<open>Operations\<close>

definition K_CRC32_POLYNOMIAL :: "32 word" where
  "K_CRC32_POLYNOMIAL = 0xEDB88320"

definition crc32_shift :: "32 word \<Rightarrow> 32 word" where
  "crc32_shift crc = (if crc AND 1 \<noteq> 0 then drop_bit 1 crc XOR K_CRC32_POLYNOMIAL else drop_bit 1 crc)"

definition crc32_table :: "32 word list" where
  "crc32_table = map (\<lambda>i. (crc32_shift ^^ 8) (word_of_nat i)) [0..<256]"

definition crc32_step :: "32 word \<Rightarrow> byte \<Rightarrow> 32 word" where
  "crc32_step state b = drop_bit 8 state XOR crc32_table ! unat ((state XOR ucast b) AND 0xFF)"

definition update_crc32 :: "32 word \<Rightarrow> byte list \<Rightarrow> 32 word" where
  "update_crc32 crc data = NOT (foldl crc32_step (NOT crc) data)"

definition compute_crc32 :: "byte list \<Rightarrow> 32 word" where
  "compute_crc32 data = update_crc32 0 data"

text \<open>The reference: the shift register takes the bits of a byte one at a time.\<close>

definition crc32_register :: "32 word \<Rightarrow> byte list \<Rightarrow> 32 word" where
  "crc32_register state data = foldl (\<lambda>s b. (crc32_shift ^^ 8) (s XOR ucast b)) state data"

section \<open>The table step is eight shifts\<close>

lemma xor_left_cancel: "(a :: 32 word) XOR b = a XOR c \<Longrightarrow> b = c"
proof -
  assume "a XOR b = a XOR c"
  then have "a XOR (a XOR b) = a XOR (a XOR c)"
    by simp
  then show "b = c"
    by (simp flip: xor.assoc)
qed

lemma xor_right_cancel: "(b :: 32 word) XOR a = c XOR a \<Longrightarrow> b = c"
  using xor_left_cancel [of a b c] by (simp add: xor.commute)

lemma crc32_shift_xor: "crc32_shift (x XOR y) = crc32_shift x XOR crc32_shift y"
proof -
  have low: "(z AND 1 \<noteq> 0) = bit z 0" for z :: "32 word"
    by (simp add: and_one_eq even_iff_mod_2_eq_zero bit_0)
  show ?thesis
    by (rule bit_word_eqI) (auto simp: crc32_shift_def low bit_simps)
qed

lemma crc32_shifts_xor: "(crc32_shift ^^ n) (x XOR y) = (crc32_shift ^^ n) x XOR (crc32_shift ^^ n) y"
  by (induction n arbitrary: x y) (simp_all add: crc32_shift_xor funpow_swap1)

text \<open>A register whose low bits are clear is only shifted.\<close>

lemma crc32_shifts_clear:
  "(\<And>k. k < n \<Longrightarrow> \<not> bit x k) \<Longrightarrow> (crc32_shift ^^ n) x = drop_bit n x"
proof (induction n arbitrary: x)
  case (Suc n)
  have "crc32_shift x = drop_bit 1 x"
    using Suc.prems [of 0] by (simp add: crc32_shift_def and_one_eq bit_0 even_iff_mod_2_eq_zero)
  moreover have "(crc32_shift ^^ n) (drop_bit 1 x) = drop_bit n (drop_bit 1 x)"
    using Suc.prems by (intro Suc.IH) (simp add: bit_simps)
  ultimately show ?case
    by (simp add: funpow_swap1 drop_bit_drop_bit)
qed simp

lemma crc32_table_nth: "unat i < 256 \<Longrightarrow> crc32_table ! unat i = (crc32_shift ^^ 8) i"
  by (simp add: crc32_table_def)

lemma crc32_step_register: "crc32_step s b = (crc32_shift ^^ 8) (s XOR ucast b)"
proof -
  let ?z = "s XOR ucast b" and ?h = "(s XOR ucast b) AND NOT 0xFF"
  have z: "?z = ?h XOR (?z AND 0xFF)"
    by (rule bit_word_eqI) (auto simp: bit_simps)
  have mask: "(0xFF :: 32 word) = mask 8"
    by (simp add: mask_eq_exp_minus_1)
  have "(crc32_shift ^^ 8) ?h = drop_bit 8 ?h"
    by (rule crc32_shifts_clear) (auto simp: mask bit_simps)
  also have "\<dots> = drop_bit 8 s"
    by (rule bit_word_eqI) (auto simp: mask bit_simps dest: bit_imp_le_length)
  finally have "(crc32_shift ^^ 8) ?z = drop_bit 8 s XOR (crc32_shift ^^ 8) (?z AND 0xFF)"
    by (subst z) (simp only: crc32_shifts_xor)
  moreover have "unat (?z AND 0xFF) < 256"
    using and_mask_less_size [of 8 ?z] by (simp add: mask word_less_nat_alt word_size)
  ultimately show ?thesis
    by (simp add: crc32_step_def crc32_table_nth)
qed

lemma foldl_crc32_step: "foldl crc32_step s data = crc32_register s data"
  by (induction data arbitrary: s) (simp_all add: crc32_register_def crc32_step_register)

section \<open>Feeding the checksum piecewise\<close>

lemma update_crc32_Nil [simp]: "update_crc32 crc [] = crc"
  by (simp add: update_crc32_def)

lemma update_crc32_append: "update_crc32 crc (xs @ ys) = update_crc32 (update_crc32 crc xs) ys"
  by (simp add: update_crc32_def)

section \<open>Different registers stay different\<close>

lemma crc32_shift_inj: "inj crc32_shift"
proof (rule injI)
  fix x y assume eq: "crc32_shift x = crc32_shift y"
  have low: "(z AND 1 \<noteq> 0) = bit z 0" for z :: "32 word"
    by (simp add: and_one_eq even_iff_mod_2_eq_zero bit_0)
  have top: "bit (crc32_shift z) 31 = bit z 0" for z
    using bit_imp_le_length [of z 32] by (auto simp: crc32_shift_def low K_CRC32_POLYNOMIAL_def bit_simps)
  have "bit x 0 = bit y 0"
    using top [of x] top [of y] eq by simp
  then have "drop_bit 1 x = drop_bit 1 y"
    using eq by (auto simp: crc32_shift_def low dest: xor_right_cancel)
  then have "bit x (Suc k) = bit y (Suc k)" for k
    by (metis bit_drop_bit_eq comp_apply plus_1_eq_Suc)
  with \<open>bit x 0 = bit y 0\<close> show "x = y"
    by (intro bit_word_eqI) (metis not0_implies_Suc)
qed

lemma crc32_shifts_inj: "inj (crc32_shift ^^ n)"
  by (induction n) (auto intro: injI dest: injD [OF crc32_shift_inj] injD)

lemma crc32_register_inj: "crc32_register s data = crc32_register t data \<Longrightarrow> s = t"
proof (induction data arbitrary: s t)
  case (Cons b data)
  then have "(crc32_shift ^^ 8) (s XOR ucast b) = (crc32_shift ^^ 8) (t XOR ucast b)"
    by (simp add: crc32_register_def)
  then have "s XOR ucast b = t XOR ucast b"
    by (rule injD [OF crc32_shifts_inj])
  then show ?case
    by (rule xor_right_cancel)
qed (simp add: crc32_register_def)

text \<open>Up to four bytes enter the register as one word.\<close>

fun packed :: "byte list \<Rightarrow> 32 word" where
  "packed [] = 0"
| "packed (b # bs) = ucast b XOR push_bit 8 (packed bs)"

lemma packed_bits: "bit (packed bs) k \<Longrightarrow> k < 8 * length bs"
proof (induction bs arbitrary: k)
  case (Cons b bs)
  then show ?case
    by (cases "k < 8") (auto simp: bit_simps dest: bit_imp_le_length Cons.IH)
qed simp

lemma packed_drop: "length bs \<le> 3 \<Longrightarrow> drop_bit 8 (push_bit 8 (packed bs)) = packed bs"
proof (rule bit_word_eqI)
  fix k assume "length bs \<le> 3" and "k < LENGTH(32)"
  then have "bit (packed bs) k \<Longrightarrow> k < 24"
    using packed_bits [of bs k] by linarith
  then show "bit (drop_bit 8 (push_bit 8 (packed bs))) k = bit (packed bs) k"
    by (auto simp: bit_simps)
qed

lemma crc32_register_packed:
  "length bs \<le> 4 \<Longrightarrow> crc32_register s bs = (crc32_shift ^^ (8 * length bs)) (s XOR packed bs)"
proof (induction bs arbitrary: s)
  case Nil
  then show ?case
    by (simp add: crc32_register_def)
next
  case (Cons b bs)
  have shift: "(crc32_shift ^^ 8) (push_bit 8 (packed bs)) = packed bs"
  proof -
    have "length bs \<le> 3"
      using Cons.prems by simp
    moreover have "\<not> bit (push_bit 8 (packed bs)) k" if "k < 8" for k
      using that by (simp add: bit_simps)
    ultimately show ?thesis
      using crc32_shifts_clear packed_drop by metis
  qed
  let ?s = "(crc32_shift ^^ 8) (s XOR ucast b)"
  have in8: "(crc32_shift ^^ 8) (s XOR packed (b # bs)) = ?s XOR packed bs"
    unfolding packed.simps xor.assoc [symmetric] crc32_shifts_xor [of 8 "s XOR ucast b"] shift ..
  have "crc32_register s (b # bs) = crc32_register ?s bs"
    by (simp add: crc32_register_def)
  also have "\<dots> = (crc32_shift ^^ (8 * length bs)) (?s XOR packed bs)"
    by (rule Cons.IH) (use Cons.prems in simp)
  also have "\<dots> = (crc32_shift ^^ (8 * length bs + 8)) (s XOR packed (b # bs))"
    unfolding funpow_add comp_apply in8 ..
  finally show ?case
    by (simp only: length_Cons mult_Suc_right add.commute)
qed

lemma packed_inj: "packed us = packed vs \<Longrightarrow> length us = length vs \<Longrightarrow> length us \<le> 4 \<Longrightarrow> us = vs"
proof (induction us arbitrary: vs)
  case (Cons u us)
  obtain v vs' where vs: "vs = v # vs'"
    using Cons.prems(2) by (cases vs) auto
  have len: "length us = length vs'" "length us \<le> 3" "length vs' \<le> 3"
    using Cons.prems(2,3) vs by simp_all
  have eq: "ucast u XOR push_bit 8 (packed us) = ucast v XOR push_bit 8 (packed vs')"
    using Cons.prems(1) unfolding vs packed.simps .
  have "bit u k = bit v k" if "k < LENGTH(8)" for k
    using arg_cong [OF eq, of "\<lambda>w. bit w k"] that by (simp add: bit_simps)
  then have "u = v"
    by (rule bit_word_eqI)
  then have "push_bit 8 (packed us) = push_bit 8 (packed vs')"
    using eq xor_left_cancel by blast
  then have "drop_bit 8 (push_bit 8 (packed us)) = drop_bit 8 (push_bit 8 (packed vs'))"
    by (rule arg_cong)
  then have "packed us = packed vs'"
    unfolding packed_drop [OF len(2)] packed_drop [OF len(3)] .
  then have "us = vs'"
    by (rule Cons.IH) (use len in simp_all)
  then show ?case
    using \<open>u = v\<close> vs by simp
qed simp

lemma crc32_burst_differs:
  assumes "us \<noteq> vs" and "length us = length vs" and "length us \<le> 4"
  shows "update_crc32 crc (xs @ us @ ys) \<noteq> update_crc32 crc (xs @ vs @ ys)"
proof
  assume eq: "update_crc32 crc (xs @ us @ ys) = update_crc32 crc (xs @ vs @ ys)"
  define s where "s = crc32_register (NOT crc) xs"
  have app: "crc32_register t (as @ bs) = crc32_register (crc32_register t as) bs" for t as bs
    by (simp add: crc32_register_def)
  have "crc32_register (crc32_register s us) ys = crc32_register (crc32_register s vs) ys"
    using eq by (simp add: update_crc32_def foldl_crc32_step app s_def)
  then have "crc32_register s us = crc32_register s vs"
    by (rule crc32_register_inj)
  then have "(crc32_shift ^^ (8 * length us)) (s XOR packed us) = (crc32_shift ^^ (8 * length us)) (s XOR packed vs)"
    using assms(2,3) by (simp add: crc32_register_packed)
  then have "s XOR packed us = s XOR packed vs"
    by (rule injD [OF crc32_shifts_inj])
  then have "packed us = packed vs"
    by (rule xor_left_cancel)
  then show False
    using packed_inj assms by blast
qed

section \<open>Properties\<close>

text \<open>C14. The table-driven checksum is the CRC-32 shift register: for every start value and every input it
  gives what shifting the input in bit by bit with the polynomial gives, and feeding the input in two
  pieces gives what feeding it at once gives.\<close>

theorem update_crc32_is_register:
  "update_crc32 crc (xs @ ys) = NOT (crc32_register (NOT crc) (xs @ ys))
    \<and> update_crc32 (update_crc32 crc xs) ys = update_crc32 crc (xs @ ys)"
  by (simp only: update_crc32_append) (simp add: update_crc32_def foldl_crc32_step crc32_register_def)

text \<open>C15. Corruption of up to four neighbouring bytes is always detected: two inputs of the same length that
  differ, and differ only within four neighbouring bytes, have different checksums.\<close>

theorem crc32_detects_burst:
  assumes "us \<noteq> vs" and "length us = length vs" and "length us \<le> 4"
  shows "update_crc32 crc (xs @ us @ ys) \<noteq> update_crc32 crc (xs @ vs @ ys)"
  using assms by (rule crc32_burst_differs)

theorem crc32_detects_burst_witness:
  "compute_crc32 [1, 2, 3, 4, 5, 6] \<noteq> compute_crc32 [1, 2, 255, 0, 5, 6]"
  using crc32_detects_burst [of "[3, 4]" "[255, 0]" 0 "[1, 2]" "[5, 6]"] by (simp add: compute_crc32_def)

end
