(* ===== verification/Binary_Codec.thy ===== *)
theory Binary_Codec
  imports Model Crc
begin

text \<open>
  The binary format of everything a replica stores (\<^verbatim>\<open>common/binary/base.h\<close>, \<^verbatim>\<open>common/binary/codec.h\<close>,
  \<^verbatim>\<open>storage/persist/persist_codecs.h\<close>).  A writer is the list of bytes it has received.  A reader is the
  list of bytes still to be read, and a decoder gives a failure status or a value with the bytes behind
  it.  \<^verbatim>\<open>write_raw(&value, sizeof(value))\<close> of an integer writes its memory image; the machine is
  little-endian.

  The locale \<^verbatim>\<open>binary_codec\<close> is the contract of \<^verbatim>\<open>BinaryCodec<T>\<close>: what \<^verbatim>\<open>encode\<close> writes, \<^verbatim>\<open>decode\<close> reads
  back, leaving the bytes behind it alone.  It is interpreted for every type that has a codec; framing,
  counted lists and the record stream are proved once inside it.
\<close>

section \<open>Readers\<close>

type_synonym 'a decoder = "byte list \<Rightarrow> Status + ('a \<times> byte list)"

definition read_raw :: "nat \<Rightarrow> byte list decoder" where
  "read_raw n data =
    (if n = 0 then Inr ([], data)
     else if data = [] then Inl GET_EOF
     else if length data < n then Inl PARTIAL_READ
     else Inr (take n data, drop n data))"

text \<open>\<^verbatim>\<open>RETURN_IF_INVALID_STATUS\<close> between two reads.\<close>

definition and_then :: "'a decoder \<Rightarrow> ('a \<Rightarrow> 'b decoder) \<Rightarrow> 'b decoder" where
  "and_then d f data = (case d data of Inl s \<Rightarrow> Inl s | Inr (x, rest) \<Rightarrow> f x rest)"

definition dec_return :: "'a \<Rightarrow> 'a decoder" where
  "dec_return x data = Inr (x, data)"

definition dec_fail :: "Status \<Rightarrow> 'a decoder" where
  "dec_fail s data = Inl s"

section \<open>Integers, booleans and strings\<close>

primrec le_bytes :: "nat \<Rightarrow> int \<Rightarrow> byte list" where
  "le_bytes 0 v = []"
| "le_bytes (Suc n) v = word_of_int v # le_bytes n (v div 256)"

primrec le_int :: "byte list \<Rightarrow> int" where
  "le_int [] = 0"
| "le_int (b # bs) = uint b + 256 * le_int bs"

definition as_signed :: "nat \<Rightarrow> int \<Rightarrow> int" where
  "as_signed bits u = (if u < 2 ^ (bits - 1) then u else u - 2 ^ bits)"

definition fits_signed :: "nat \<Rightarrow> int \<Rightarrow> bool" where
  "fits_signed bits v \<longleftrightarrow> - (2 ^ (bits - 1)) \<le> v \<and> v < 2 ^ (bits - 1)"

definition encode_int32 :: "int \<Rightarrow> byte list" where
  "encode_int32 v = le_bytes 4 v"

definition decode_int32 :: "int decoder" where
  "decode_int32 = and_then (read_raw 4) (\<lambda>bs. dec_return (as_signed 32 (le_int bs)))"

definition encode_int64 :: "int \<Rightarrow> byte list" where
  "encode_int64 v = le_bytes 8 v"

definition decode_int64 :: "int decoder" where
  "decode_int64 = and_then (read_raw 8) (\<lambda>bs. dec_return (as_signed 64 (le_int bs)))"

definition encode_uint32 :: "32 word \<Rightarrow> byte list" where
  "encode_uint32 v = le_bytes 4 (uint v)"

definition decode_uint32 :: "32 word decoder" where
  "decode_uint32 = and_then (read_raw 4) (\<lambda>bs. dec_return (word_of_int (le_int bs)))"

definition encode_uint64 :: "64 word \<Rightarrow> byte list" where
  "encode_uint64 v = le_bytes 8 (uint v)"

definition decode_uint64 :: "64 word decoder" where
  "decode_uint64 = and_then (read_raw 8) (\<lambda>bs. dec_return (word_of_int (le_int bs)))"

definition encode_bool :: "bool \<Rightarrow> byte list" where
  "encode_bool b = [if b then 1 else 0]"

definition decode_bool :: "bool decoder" where
  "decode_bool = and_then (read_raw 1) (\<lambda>bs. dec_return (bs \<noteq> [0]))"

definition byte_of_char :: "char \<Rightarrow> byte" where
  "byte_of_char c = word_of_nat (of_char c)"

definition char_of_byte :: "byte \<Rightarrow> char" where
  "char_of_byte b = char_of (unat b)"

definition encode_string :: "string \<Rightarrow> byte list" where
  "encode_string s = encode_int32 (int (length s)) @ (if s = [] then [] else map byte_of_char s)"

definition decode_string :: "string decoder" where
  "decode_string = and_then decode_int32 (\<lambda>len.
    if len < 0 then dec_fail INVALID_ARGUMENT
    else if len = 0 then dec_return []
    else and_then (read_raw (nat len)) (\<lambda>bs. dec_return (map char_of_byte bs)))"

section \<open>Enumerations\<close>

text \<open>\<^verbatim>\<open>is_valid_enum_value\<close> with the largest value of the enumeration.\<close>

definition is_valid_enum_value :: "int \<Rightarrow> int \<Rightarrow> bool" where
  "is_valid_enum_value max_value value \<longleftrightarrow> 0 \<le> value \<and> value \<le> max_value"

text \<open>An enumeration is the list of its enumerators from 0 to \<^verbatim>\<open>MAX_VALUE\<close>.\<close>

definition raft_member_types :: "RaftMemberType list" where
  "raft_member_types = [NON_MEMBER, VOTER, LEARNER]"

definition engine_types :: "EngineType list" where
  "engine_types = [MAP]"

definition write_op_types :: "WriteOpType list" where
  "write_op_types = [NONE, PUT, DEL, ADD_LEARNER, PROMOTE_VOTER, REMOVE_MEMBER, CAS]"

fun enum_index :: "'e list \<Rightarrow> 'e \<Rightarrow> nat" where
  "enum_index [] x = 0"
| "enum_index (y # ys) x = (if x = y then 0 else Suc (enum_index ys x))"

definition encode_enum :: "'e list \<Rightarrow> 'e \<Rightarrow> byte list" where
  "encode_enum es x = encode_int32 (int (enum_index es x))"

definition decode_enum :: "'e list \<Rightarrow> 'e decoder" where
  "decode_enum es = and_then decode_int32 (\<lambda>raw.
    if \<not> is_valid_enum_value (int (length es) - 1) raw then dec_fail INVALID_ARGUMENT
    else dec_return (es ! nat raw))"

definition encode_RaftMemberType :: "RaftMemberType \<Rightarrow> byte list" where
  "encode_RaftMemberType = encode_enum raft_member_types"

definition decode_RaftMemberType :: "RaftMemberType decoder" where
  "decode_RaftMemberType = decode_enum raft_member_types"

definition encode_EngineType :: "EngineType \<Rightarrow> byte list" where
  "encode_EngineType = encode_enum engine_types"

definition decode_EngineType :: "EngineType decoder" where
  "decode_EngineType = decode_enum engine_types"

definition encode_WriteOpType :: "WriteOpType \<Rightarrow> byte list" where
  "encode_WriteOpType = encode_enum write_op_types"

definition decode_WriteOpType :: "WriteOpType decoder" where
  "decode_WriteOpType = decode_enum write_op_types"

section \<open>Structures\<close>

definition encode_Endpoint :: "Endpoint \<Rightarrow> byte list" where
  "encode_Endpoint e = encode_string (ep_ip e) @ encode_int32 (ep_port e)"

definition decode_Endpoint :: "Endpoint decoder" where
  "decode_Endpoint = and_then decode_string (\<lambda>ip. and_then decode_int32 (\<lambda>port.
    dec_return \<lparr>ep_ip = ip, ep_port = port\<rparr>))"

definition encode_ReplicaID :: "ReplicaID \<Rightarrow> byte list" where
  "encode_ReplicaID r = encode_int32 (rid_table_id r) @ encode_int32 (rid_shard_index r) @ encode_int32 (rid_replica_seq r)"

definition decode_ReplicaID :: "ReplicaID decoder" where
  "decode_ReplicaID = and_then decode_int32 (\<lambda>t. and_then decode_int32 (\<lambda>i. and_then decode_int32 (\<lambda>q.
    dec_return \<lparr>rid_table_id = t, rid_shard_index = i, rid_replica_seq = q\<rparr>)))"

definition encode_PeerMember :: "PeerMember \<Rightarrow> byte list" where
  "encode_PeerMember p = encode_string (pm_node_id p) @ encode_ReplicaID (pm_replica_id p) @ encode_Endpoint (pm_endpoint p)"

definition decode_PeerMember :: "PeerMember decoder" where
  "decode_PeerMember = and_then decode_string (\<lambda>n. and_then decode_ReplicaID (\<lambda>r. and_then decode_Endpoint (\<lambda>e.
    dec_return \<lparr>pm_node_id = n, pm_replica_id = r, pm_endpoint = e\<rparr>)))"

definition encode_RaftMember :: "RaftMember \<Rightarrow> byte list" where
  "encode_RaftMember m = encode_PeerMember (rm_peer m) @ encode_RaftMemberType (rm_member_type m)"

definition decode_RaftMember :: "RaftMember decoder" where
  "decode_RaftMember = and_then decode_PeerMember (\<lambda>p. and_then decode_RaftMemberType (\<lambda>t.
    dec_return \<lparr>rm_peer = p, rm_member_type = t\<rparr>))"

definition encode_LogEntry :: "LogEntry \<Rightarrow> byte list" where
  "encode_LogEntry e = encode_int64 (le_term e) @ encode_int64 (le_index e) @ encode_WriteOpType (le_op_type e)
    @ encode_string (le_key e) @ encode_string (le_value e) @ encode_string (le_expected e)
    @ encode_PeerMember (le_config_member e) @ encode_ReplicaID (le_config_replica_id e)
    @ encode_string (le_request_id e)"

definition decode_LogEntry :: "LogEntry decoder" where
  "decode_LogEntry = and_then decode_int64 (\<lambda>t. and_then decode_int64 (\<lambda>i. and_then decode_WriteOpType (\<lambda>op.
    and_then decode_string (\<lambda>k. and_then decode_string (\<lambda>v. and_then decode_string (\<lambda>x.
    and_then decode_PeerMember (\<lambda>m. and_then decode_ReplicaID (\<lambda>r. and_then decode_string (\<lambda>q.
    dec_return \<lparr>le_term = t, le_index = i, le_op_type = op, le_key = k, le_value = v, le_expected = x,
      le_config_member = m, le_config_replica_id = r, le_request_id = q\<rparr>)))))))))"

definition encode_RaftMeta :: "RaftMeta \<Rightarrow> byte list" where
  "encode_RaftMeta m = encode_int64 (rmeta_current_term m) @ encode_bool (rmeta_voted_for m \<noteq> None)
    @ (case rmeta_voted_for m of None \<Rightarrow> [] | Some r \<Rightarrow> encode_ReplicaID r)"

definition decode_RaftMeta :: "RaftMeta decoder" where
  "decode_RaftMeta = and_then decode_int64 (\<lambda>t. and_then decode_bool (\<lambda>has_voted_for.
    if has_voted_for then and_then decode_ReplicaID (\<lambda>r. dec_return \<lparr>rmeta_current_term = t, rmeta_voted_for = Some r\<rparr>)
    else dec_return \<lparr>rmeta_current_term = t, rmeta_voted_for = None\<rparr>))"

text \<open>A vector is its size as an \<^verbatim>\<open>int32\<close> and its elements; the readers loop over the size.\<close>

primrec decode_times :: "'a decoder \<Rightarrow> nat \<Rightarrow> 'a list decoder" where
  "decode_times d 0 = dec_return []"
| "decode_times d (Suc n) = and_then d (\<lambda>x. and_then (decode_times d n) (\<lambda>xs. dec_return (x # xs)))"

definition encode_vector :: "('a \<Rightarrow> byte list) \<Rightarrow> 'a list \<Rightarrow> byte list" where
  "encode_vector enc xs = encode_int32 (int (length xs)) @ concat (map enc xs)"

definition decode_vector :: "'a decoder \<Rightarrow> 'a list decoder" where
  "decode_vector d = and_then decode_int32 (\<lambda>count.
    if count < 0 then dec_fail ERROR else decode_times d (nat count))"

definition encode_SnapshotHeader :: "SnapshotHeader \<Rightarrow> byte list" where
  "encode_SnapshotHeader h = encode_int64 (sh_apply_index h) @ encode_int64 (sh_apply_term h)
    @ encode_vector encode_RaftMember (sh_members h)"

definition decode_SnapshotHeader :: "SnapshotHeader decoder" where
  "decode_SnapshotHeader = and_then decode_int64 (\<lambda>i. and_then decode_int64 (\<lambda>t.
    and_then (decode_vector decode_RaftMember) (\<lambda>ms.
    dec_return \<lparr>sh_apply_index = i, sh_apply_term = t, sh_members = ms\<rparr>)))"

definition encode_RequestRecord :: "RequestRecord \<Rightarrow> byte list" where
  "encode_RequestRecord r = encode_string (rr_request_id r) @ encode_WriteOpType (rr_op r)
    @ encode_uint64 (rr_payload_hash r) @ encode_int32 (to_rpc_code (rr_apply_status r)) @ encode_string (rr_apply_msg r)"

definition decode_RequestRecord :: "RequestRecord decoder" where
  "decode_RequestRecord = and_then decode_string (\<lambda>i. and_then decode_WriteOpType (\<lambda>op.
    and_then decode_uint64 (\<lambda>h. and_then decode_int32 (\<lambda>c. and_then decode_string (\<lambda>m.
    dec_return \<lparr>rr_request_id = i, rr_op = op, rr_payload_hash = h, rr_apply_status = status_of_int c, rr_apply_msg = m\<rparr>)))))"

text \<open>The runtime options are not stored; a decoded payload has the default ones.\<close>

definition encode_ReplicaMetaPayload :: "ReplicaMetaPayload \<Rightarrow> byte list" where
  "encode_ReplicaMetaPayload m = (let p = mp_init_param m in
    encode_ReplicaID (ip_replica_id p) @ encode_EngineType (ip_engine_type p) @ encode_Endpoint (ip_local_endpoint p)
    @ encode_vector encode_PeerMember (ip_members p))"

definition decode_ReplicaMetaPayload :: "ReplicaMetaPayload decoder" where
  "decode_ReplicaMetaPayload = and_then decode_ReplicaID (\<lambda>r. and_then decode_EngineType (\<lambda>t.
    and_then decode_Endpoint (\<lambda>e. and_then (decode_vector decode_PeerMember) (\<lambda>ms.
    dec_return \<lparr>mp_init_param = \<lparr>ip_replica_id = r, ip_engine_type = t, ip_local_endpoint = e, ip_members = ms,
      ip_runtime = default_ReplicaRuntimeOptions\<rparr>\<rparr>))))"

section \<open>Frames\<close>

text \<open>A frame is the length of the payload, its checksum and the payload.\<close>

definition K_MAX_FRAMED_PAYLOAD_BYTES :: int where
  "K_MAX_FRAMED_PAYLOAD_BYTES = 64 * 1024 * 1024"

definition encode_crc :: "('a \<Rightarrow> byte list) \<Rightarrow> 'a \<Rightarrow> Status + byte list" where
  "encode_crc enc x = (let payload = enc x in
    if payload = [] \<or> int (length payload) > K_MAX_FRAMED_PAYLOAD_BYTES then Inl ERROR
    else Inr (encode_int32 (int (length payload)) @ encode_uint32 (compute_crc32 payload) @ payload))"

text \<open>\<^verbatim>\<open>require_complete\<close>: the end of the data inside a record is a partial read.\<close>

definition require_complete :: "'a decoder \<Rightarrow> 'a decoder" where
  "require_complete d data = (case d data of Inl s \<Rightarrow> Inl (if s = GET_EOF then PARTIAL_READ else s) | Inr r \<Rightarrow> Inr r)"

definition decode_payload :: "'a decoder \<Rightarrow> byte list \<Rightarrow> 'a decoder" where
  "decode_payload dec payload rest =
    (case dec payload of
       Inl s \<Rightarrow> Inl ERROR
     | Inr (x, left) \<Rightarrow> if left \<noteq> [] then Inl ERROR else Inr (x, rest))"

definition decode_crc :: "'a decoder \<Rightarrow> 'a decoder" where
  "decode_crc dec = and_then decode_int32 (\<lambda>length.
    if length \<le> 0 \<or> length > K_MAX_FRAMED_PAYLOAD_BYTES then dec_fail ERROR
    else and_then (require_complete decode_uint32) (\<lambda>stored_crc.
      and_then (require_complete (read_raw (nat length))) (\<lambda>payload.
        if compute_crc32 payload \<noteq> stored_crc then dec_fail ERROR
        else decode_payload dec payload)))"

section \<open>The codec contract\<close>

lemma and_then_Inr [simp]: "d data = Inr (x, rest) \<Longrightarrow> and_then d f data = f x rest"
  by (simp add: and_then_def)

lemma and_then_Inl [simp]: "d data = Inl s \<Longrightarrow> and_then d f data = Inl s"
  by (simp add: and_then_def)

lemma dec_simps [simp]: "dec_return x data = Inr (x, data)" "dec_fail s data = Inl s"
  by (simp_all add: dec_return_def dec_fail_def)

lemma read_raw_append [simp]: "length bs = n \<Longrightarrow> read_raw n (bs @ rest) = Inr (bs, rest)"
  by (auto simp: read_raw_def)

lemma read_raw_Inr: "read_raw n data = Inr (bs, rest) \<Longrightarrow> data = bs @ rest \<and> length bs = n"
  by (auto simp: read_raw_def split: if_splits)

lemma le_bytes_length [simp]: "length (le_bytes n v) = n"
  by (induction n arbitrary: v) simp_all

lemma le_int_le_bytes: "le_int (le_bytes n v) = v mod 256 ^ n"
proof (induction n arbitrary: v)
  case (Suc n)
  have "v mod 256 + 256 * (v div 256 mod 256 ^ n) = v mod (256 * 256 ^ n)"
    using zmod_zmult2_eq [of "256 ^ n" v 256] by simp
  then show ?case
    by (simp add: Suc uint_word_of_int)
qed simp

lemma as_signed_mod:
  assumes "fits_signed bits v" and "0 < bits"
  shows "as_signed bits (v mod 2 ^ bits) = v"
proof -
  have p: "(2::int) ^ bits = 2 * 2 ^ (bits - 1)"
    using assms(2) by (cases bits) simp_all
  show ?thesis
  proof (cases "0 \<le> v")
    case True
    then show ?thesis
      using assms(1) p by (simp add: as_signed_def fits_signed_def)
  next
    case False
    have "v mod 2 ^ bits = (v + 2 ^ bits) mod 2 ^ bits"
      by simp
    also have "\<dots> = v + 2 ^ bits"
      using False assms(1) p by (intro mod_pos_pos_trivial) (simp_all add: fits_signed_def)
    finally show ?thesis
      using False assms(1) p by (simp add: as_signed_def fits_signed_def)
  qed
qed

text \<open>The laws of the codecs of this program, as rewrite rules for the codecs built from them.\<close>

lemma int32_roundtrip [codec_simps]: "fits_signed 32 v \<Longrightarrow> decode_int32 (encode_int32 v @ rest) = Inr (v, rest)"
  using as_signed_mod [of 32 v] by (simp add: decode_int32_def encode_int32_def le_int_le_bytes)

lemma int64_roundtrip [codec_simps]: "fits_signed 64 v \<Longrightarrow> decode_int64 (encode_int64 v @ rest) = Inr (v, rest)"
  using as_signed_mod [of 64 v] by (simp add: decode_int64_def encode_int64_def le_int_le_bytes)

lemma uint_mod_id: "uint v mod 2 ^ LENGTH('a) = uint (v :: 'a::len word)"
  by (rule mod_pos_pos_trivial) (use unsigned_less [of v] in simp_all)

lemma uint32_roundtrip [codec_simps]: "decode_uint32 (encode_uint32 v @ rest) = Inr (v, rest)"
  using uint_mod_id [of v] by (simp add: decode_uint32_def encode_uint32_def le_int_le_bytes)

lemma uint64_roundtrip [codec_simps]: "decode_uint64 (encode_uint64 v @ rest) = Inr (v, rest)"
  using uint_mod_id [of v] by (simp add: decode_uint64_def encode_uint64_def le_int_le_bytes)

lemma bool_roundtrip [codec_simps]: "decode_bool (encode_bool b @ rest) = Inr (b, rest)"
  by (simp add: decode_bool_def encode_bool_def read_raw_def)

lemma then_bool [codec_simps]: "and_then decode_bool f (encode_bool b @ rest) = f b rest"
  by (simp add: and_then_def bool_roundtrip)

lemma char_of_byte_of_char [simp]: "char_of_byte (byte_of_char c) = c"
proof -
  have "unat (byte_of_char c) = (of_char c :: nat)"
    by (simp add: byte_of_char_def unat_of_nat take_bit_eq_mod)
  then show ?thesis
    by (simp add: char_of_byte_def)
qed

definition fits_string :: "string \<Rightarrow> bool" where
  "fits_string s \<longleftrightarrow> int (length s) < 2 ^ 31"

lemma string_roundtrip [codec_simps]: "fits_string s \<Longrightarrow> decode_string (encode_string s @ rest) = Inr (s, rest)"
proof -
  assume "fits_string s"
  then have "fits_signed 32 (int (length s))"
    by (simp add: fits_string_def fits_signed_def)
  then show ?thesis
    by (auto simp: decode_string_def encode_string_def int32_roundtrip comp_def)
qed

locale binary_codec =
  fixes enc :: "'a \<Rightarrow> byte list" and dec :: "'a decoder" and fits :: "'a \<Rightarrow> bool"
  assumes roundtrip: "fits x \<Longrightarrow> dec (enc x @ rest) = Inr (x, rest)"
begin

text \<open>No encoding is a proper prefix of another, so encodings can be written one after the other.\<close>

lemma prefix_free: "fits x \<Longrightarrow> fits y \<Longrightarrow> enc x @ r = enc y @ s \<Longrightarrow> x = y \<and> r = s"
  using roundtrip by (metis Pair_inject sum.inject(2))

lemma times_roundtrip:
  "\<forall>x\<in>set xs. fits x \<Longrightarrow> decode_times dec (length xs) (concat (map enc xs) @ rest) = Inr (xs, rest)"
  by (induction xs) (simp_all add: roundtrip)

lemma frame_roundtrip:
  assumes "fits x" and "encode_crc enc x = Inr f"
  shows "decode_crc dec (f @ rest) = Inr (x, rest)"
proof -
  define p where "p = enc x"
  have p: "p \<noteq> []" "int (length p) \<le> K_MAX_FRAMED_PAYLOAD_BYTES"
      "f = encode_int32 (int (length p)) @ encode_uint32 (compute_crc32 p) @ p"
    using assms(2) by (auto simp: encode_crc_def Let_def p_def split: if_splits)
  have "fits_signed 32 (int (length p))"
    using p(2) by (simp add: fits_signed_def K_MAX_FRAMED_PAYLOAD_BYTES_def)
  then have len: "decode_int32 (encode_int32 (int (length p)) @ r) = Inr (int (length p), r)" for r
    by (rule int32_roundtrip)
  have crc: "require_complete decode_uint32 (encode_uint32 c @ r) = Inr (c, r)" for c r
    by (simp add: require_complete_def uint32_roundtrip)
  have raw: "require_complete (read_raw (length bs)) (bs @ r) = Inr (bs, r)" for bs r
    by (simp add: require_complete_def)
  have "dec p = Inr (x, [])"
    using roundtrip [OF assms(1), of "[]"] by (simp add: p_def)
  then show ?thesis
    using p(1,2) by (simp add: p(3) decode_crc_def len crc raw decode_payload_def)
qed

lemma vector_roundtrip:
  assumes "\<forall>x\<in>set xs. fits x" and "int (length xs) < 2 ^ 31"
  shows "decode_vector dec (encode_vector enc xs @ rest) = Inr (xs, rest)"
proof -
  have "decode_int32 (encode_int32 (int (length xs)) @ r) = Inr (int (length xs), r)" for r
    by (rule int32_roundtrip) (use assms(2) in \<open>simp add: fits_signed_def\<close>)
  then show ?thesis
    using times_roundtrip [OF assms(1)] by (simp add: decode_vector_def encode_vector_def)
qed

text \<open>A frame that is cut short reads as the end of the data when nothing is left of it, and as a partial
  record otherwise; this is how a torn append is recognised.\<close>

lemma frame_torn:
  assumes "encode_crc enc x = Inr f" and "f = part @ lost" and "lost \<noteq> []"
  shows "decode_crc dec part = Inl (if part = [] then GET_EOF else PARTIAL_READ)"
proof -
  define p where "p = enc x"
  have p: "p \<noteq> []" "int (length p) \<le> K_MAX_FRAMED_PAYLOAD_BYTES"
      "f = encode_int32 (int (length p)) @ encode_uint32 (compute_crc32 p) @ p"
    using assms(1) by (auto simp: encode_crc_def Let_def p_def split: if_splits)
  have part: "part = take (length part) f" "length part < length f"
    using assms(2,3) by simp_all
  have flen: "length f = 8 + length p"
    by (simp add: p(3) encode_int32_def encode_uint32_def)
  have "fits_signed 32 (int (length p))"
    using p(2) by (simp add: fits_signed_def K_MAX_FRAMED_PAYLOAD_BYTES_def)
  then have len: "decode_int32 (encode_int32 (int (length p)) @ r) = Inr (int (length p), r)" for r
    by (rule int32_roundtrip)
  have raw: "read_raw n bs = Inl (if bs = [] then GET_EOF else PARTIAL_READ)" if "length bs < n" for n bs
    using that by (simp add: read_raw_def)
  have ne: "encode_int32 v \<noteq> []" for v
    by (simp add: encode_int32_def flip: length_greater_0_conv)
  have crc4: "require_complete decode_uint32 c = Inl PARTIAL_READ" if "length c < 4" for c
    using raw [OF that] by (simp add: require_complete_def decode_uint32_def)
  have full: "require_complete (read_raw n) bs = Inl PARTIAL_READ" if "length bs < n" for n bs
    using raw [OF that] by (simp add: require_complete_def)
  have crcs: "require_complete decode_uint32 (encode_uint32 c @ r) = Inr (c, r)" for c r
    by (simp add: require_complete_def uint32_roundtrip)
  consider (head) "length part < 4" | (crc) "4 \<le> length part" "length part < 8" | (body) "8 \<le> length part"
    by linarith
  then show ?thesis
  proof cases
    case head
    then show ?thesis
      by (simp add: decode_crc_def decode_int32_def raw)
  next
    case crc
    define c where "c = take (length part - 4) (encode_uint32 (compute_crc32 p) @ p)"
    have c: "part = encode_int32 (int (length p)) @ c"
      using part(1) crc by (simp add: p(3) encode_int32_def c_def)
    then have "length c < 4"
      using crc arg_cong [OF c, of length] by (simp add: encode_int32_def)
    then show ?thesis
      unfolding c
      using p(1,2) by (simp add: decode_crc_def len crc4 ne)
  next
    case body
    then have "part = encode_int32 (int (length p)) @ encode_uint32 (compute_crc32 p) @ take (length part - 8) p"
      using part(1) by (simp add: p(3) encode_int32_def encode_uint32_def)
    moreover have "length (take (length part - 8) p) < length p"
      using part(2) flen body by simp
    ultimately obtain b where b: "part = encode_int32 (int (length p)) @ encode_uint32 (compute_crc32 p) @ b"
        "length b < length p"
      by blast
    show ?thesis
      unfolding b(1) using b(2) p(1,2) by (simp add: decode_crc_def len full crcs ne)
  qed
qed

end

section \<open>The codecs meet the contract\<close>

interpretation int32: binary_codec encode_int32 decode_int32 "fits_signed 32"
  by unfold_locales (rule int32_roundtrip)

interpretation int64: binary_codec encode_int64 decode_int64 "fits_signed 64"
  by unfold_locales (rule int64_roundtrip)

interpretation uint32: binary_codec encode_uint32 decode_uint32 "\<lambda>_. True"
  by unfold_locales (rule uint32_roundtrip)

interpretation uint64: binary_codec encode_uint64 decode_uint64 "\<lambda>_. True"
  by unfold_locales (rule uint64_roundtrip)

interpretation boolean: binary_codec encode_bool decode_bool "\<lambda>_. True"
  by unfold_locales (rule bool_roundtrip)

interpretation str: binary_codec encode_string decode_string fits_string
  by unfold_locales (rule string_roundtrip)

lemma enum_index_nth: "x \<in> set es \<Longrightarrow> enum_index es x < length es \<and> es ! enum_index es x = x"
  by (induction es) auto

lemma enum_roundtrip:
  assumes "x \<in> set es" and "length es < 256"
  shows "decode_enum es (encode_enum es x @ rest) = Inr (x, rest)"
proof -
  have "decode_int32 (encode_int32 (int (enum_index es x)) @ rest) = Inr (int (enum_index es x), rest)"
    using enum_index_nth [OF assms(1)] assms(2) by (intro int32_roundtrip) (simp add: fits_signed_def)
  then show ?thesis
    using enum_index_nth [OF assms(1)] by (simp add: decode_enum_def encode_enum_def is_valid_enum_value_def)
qed

lemma enum_types_complete [simp]: "t \<in> set raft_member_types" "u \<in> set engine_types" "w \<in> set write_op_types"
  by (cases t; cases u; cases w; simp add: raft_member_types_def engine_types_def write_op_types_def)+

lemma enum_types_length [simp]: "length raft_member_types = 3" "length engine_types = 1" "length write_op_types = 7"
  by (simp_all add: raft_member_types_def engine_types_def write_op_types_def)

interpretation member_type: binary_codec encode_RaftMemberType decode_RaftMemberType "\<lambda>_. True"
  by unfold_locales (simp add: encode_RaftMemberType_def decode_RaftMemberType_def enum_roundtrip)

interpretation engine_type: binary_codec encode_EngineType decode_EngineType "\<lambda>_. True"
  by unfold_locales (simp add: encode_EngineType_def decode_EngineType_def enum_roundtrip)

interpretation op_type: binary_codec encode_WriteOpType decode_WriteOpType "\<lambda>_. True"
  by unfold_locales (simp add: encode_WriteOpType_def decode_WriteOpType_def enum_roundtrip)

lemmas enum_codecs [codec_simps] = member_type.roundtrip engine_type.roundtrip op_type.roundtrip

text \<open>The values a structure can be stored with: its integers have the width of the code's type, and its
  strings and vectors are shorter than $2^{31}$.\<close>

definition fits_Endpoint :: "Endpoint \<Rightarrow> bool" where
  "fits_Endpoint e \<longleftrightarrow> fits_string (ep_ip e) \<and> fits_signed 32 (ep_port e)"

definition fits_ReplicaID :: "ReplicaID \<Rightarrow> bool" where
  "fits_ReplicaID r \<longleftrightarrow> fits_signed 32 (rid_table_id r) \<and> fits_signed 32 (rid_shard_index r) \<and> fits_signed 32 (rid_replica_seq r)"

definition fits_PeerMember :: "PeerMember \<Rightarrow> bool" where
  "fits_PeerMember p \<longleftrightarrow> fits_string (pm_node_id p) \<and> fits_ReplicaID (pm_replica_id p) \<and> fits_Endpoint (pm_endpoint p)"

definition fits_RaftMember :: "RaftMember \<Rightarrow> bool" where
  "fits_RaftMember m \<longleftrightarrow> fits_PeerMember (rm_peer m)"

definition fits_LogEntry :: "LogEntry \<Rightarrow> bool" where
  "fits_LogEntry e \<longleftrightarrow> fits_signed 64 (le_term e) \<and> fits_signed 64 (le_index e) \<and> fits_string (le_key e)
     \<and> fits_string (le_value e) \<and> fits_string (le_expected e) \<and> fits_PeerMember (le_config_member e)
     \<and> fits_ReplicaID (le_config_replica_id e) \<and> fits_string (le_request_id e)"

definition fits_RaftMeta :: "RaftMeta \<Rightarrow> bool" where
  "fits_RaftMeta m \<longleftrightarrow> fits_signed 64 (rmeta_current_term m) \<and> (\<forall>r. rmeta_voted_for m = Some r \<longrightarrow> fits_ReplicaID r)"

definition fits_SnapshotHeader :: "SnapshotHeader \<Rightarrow> bool" where
  "fits_SnapshotHeader h \<longleftrightarrow> fits_signed 64 (sh_apply_index h) \<and> fits_signed 64 (sh_apply_term h)
     \<and> list_all fits_RaftMember (sh_members h) \<and> int (length (sh_members h)) < 2 ^ 31"

definition fits_RequestRecord :: "RequestRecord \<Rightarrow> bool" where
  "fits_RequestRecord r \<longleftrightarrow> fits_string (rr_request_id r) \<and> fits_string (rr_apply_msg r)
     \<and> fits_signed 32 (to_rpc_code (rr_apply_status r))
     \<and> status_of_int (to_rpc_code (rr_apply_status r)) = rr_apply_status r"

definition fits_ReplicaMetaPayload :: "ReplicaMetaPayload \<Rightarrow> bool" where
  "fits_ReplicaMetaPayload m \<longleftrightarrow> fits_ReplicaID (ip_replica_id (mp_init_param m))
     \<and> fits_Endpoint (ip_local_endpoint (mp_init_param m)) \<and> list_all fits_PeerMember (ip_members (mp_init_param m))
     \<and> int (length (ip_members (mp_init_param m))) < 2 ^ 31
     \<and> ip_runtime (mp_init_param m) = default_ReplicaRuntimeOptions"

interpretation endpoint: binary_codec encode_Endpoint decode_Endpoint fits_Endpoint
  by unfold_locales (simp add: encode_Endpoint_def decode_Endpoint_def fits_Endpoint_def codec_simps)

interpretation replica_id: binary_codec encode_ReplicaID decode_ReplicaID fits_ReplicaID
  by unfold_locales (simp add: encode_ReplicaID_def decode_ReplicaID_def fits_ReplicaID_def codec_simps)

lemmas id_codecs [codec_simps] = endpoint.roundtrip replica_id.roundtrip

interpretation peer: binary_codec encode_PeerMember decode_PeerMember fits_PeerMember
  by unfold_locales (simp add: encode_PeerMember_def decode_PeerMember_def fits_PeerMember_def codec_simps)

lemmas peer_codec [codec_simps] = peer.roundtrip

interpretation member: binary_codec encode_RaftMember decode_RaftMember fits_RaftMember
  by unfold_locales (simp add: encode_RaftMember_def decode_RaftMember_def fits_RaftMember_def codec_simps)

interpretation log_entry: binary_codec encode_LogEntry decode_LogEntry fits_LogEntry
  by unfold_locales (simp add: encode_LogEntry_def decode_LogEntry_def fits_LogEntry_def codec_simps)

interpretation raft_meta: binary_codec encode_RaftMeta decode_RaftMeta fits_RaftMeta
proof
  fix m rest assume "fits_RaftMeta m"
  then show "decode_RaftMeta (encode_RaftMeta m @ rest) = Inr (m, rest)"
    by (cases "rmeta_voted_for m")
      (simp_all add: encode_RaftMeta_def decode_RaftMeta_def fits_RaftMeta_def codec_simps)
qed

interpretation snapshot_header: binary_codec encode_SnapshotHeader decode_SnapshotHeader fits_SnapshotHeader
  by unfold_locales (simp add: encode_SnapshotHeader_def decode_SnapshotHeader_def fits_SnapshotHeader_def codec_simps
      member.vector_roundtrip list_all_iff)

interpretation request_record: binary_codec encode_RequestRecord decode_RequestRecord fits_RequestRecord
  by unfold_locales (simp add: encode_RequestRecord_def decode_RequestRecord_def fits_RequestRecord_def codec_simps)

interpretation replica_meta: binary_codec encode_ReplicaMetaPayload decode_ReplicaMetaPayload fits_ReplicaMetaPayload
  by unfold_locales (simp add: encode_ReplicaMetaPayload_def decode_ReplicaMetaPayload_def fits_ReplicaMetaPayload_def
      codec_simps peer.vector_roundtrip list_all_iff Let_def)

section \<open>Decoded values can be stored again\<close>

text \<open>For the parts of a log entry the decoder only produces values that fit, whatever the bytes.\<close>

locale checked_codec = binary_codec +
  assumes decoded_fits: "dec data = Inr (x, rest) \<Longrightarrow> fits x"
begin

text \<open>A value that was read is written and read again unchanged.\<close>

lemma reread: "dec data = Inr (x, rest) \<Longrightarrow> dec (enc x @ more_data) = Inr (x, more_data)"
  by (rule roundtrip [OF decoded_fits])

lemma frame_decoded_fits: "decode_crc dec data = Inr (x, rest) \<Longrightarrow> fits x"
  by (auto simp: decode_crc_def and_then_def decode_payload_def split: sum.splits prod.splits if_splits
      dest: decoded_fits)

end

lemma and_then_InrE:
  assumes "and_then d f data = Inr r"
  obtains x rest where "d data = Inr (x, rest)" "f x rest = Inr r"
  using assms by (auto simp: and_then_def split: sum.splits prod.splits)

lemma le_int_bounds: "0 \<le> le_int bs \<and> le_int bs < 2 ^ (8 * length bs)"
proof (induction bs)
  case (Cons b bs)
  have b: "0 \<le> uint b" "uint b < 256"
    using unsigned_less [of b] by simp_all
  have "uint b + 256 * le_int bs < 256 * 2 ^ (8 * length bs)"
    using b(2) Cons by linarith
  moreover have "(2::int) ^ (8 * length (b # bs)) = 256 * 2 ^ (8 * length bs)"
    by (simp add: power_add)
  ultimately show ?case
    using b(1) Cons by simp
qed simp

lemma as_signed_fits: "0 \<le> u \<Longrightarrow> u < 2 ^ bits \<Longrightarrow> 0 < bits \<Longrightarrow> fits_signed bits (as_signed bits u)"
  by (cases bits) (auto simp: as_signed_def fits_signed_def)

lemma decode_int32_fits: "decode_int32 data = Inr (v, rest) \<Longrightarrow> fits_signed 32 v"
proof -
  assume "decode_int32 data = Inr (v, rest)"
  then obtain bs where "length bs = 4" "v = as_signed 32 (le_int bs)"
    by (auto simp: decode_int32_def elim!: and_then_InrE dest!: read_raw_Inr)
  then show ?thesis
    using le_int_bounds [of bs] by (simp add: as_signed_fits)
qed

lemma decode_int64_fits: "decode_int64 data = Inr (v, rest) \<Longrightarrow> fits_signed 64 v"
proof -
  assume "decode_int64 data = Inr (v, rest)"
  then obtain bs where "length bs = 8" "v = as_signed 64 (le_int bs)"
    by (auto simp: decode_int64_def elim!: and_then_InrE dest!: read_raw_Inr)
  then show ?thesis
    using le_int_bounds [of bs] by (simp add: as_signed_fits)
qed

lemma decode_string_fits: "decode_string data = Inr (v, rest) \<Longrightarrow> fits_string v"
  by (auto simp: decode_string_def fits_string_def fits_signed_def nat_less_iff elim!: and_then_InrE split: if_splits
      dest!: read_raw_Inr decode_int32_fits)

interpretation int32: checked_codec encode_int32 decode_int32 "fits_signed 32"
  by unfold_locales (rule decode_int32_fits)

interpretation int64: checked_codec encode_int64 decode_int64 "fits_signed 64"
  by unfold_locales (rule decode_int64_fits)

interpretation str: checked_codec encode_string decode_string fits_string
  by unfold_locales (rule decode_string_fits)

interpretation endpoint: checked_codec encode_Endpoint decode_Endpoint fits_Endpoint
  by unfold_locales (auto simp: decode_Endpoint_def fits_Endpoint_def elim!: and_then_InrE
      dest!: int32.decoded_fits str.decoded_fits)

interpretation replica_id: checked_codec encode_ReplicaID decode_ReplicaID fits_ReplicaID
  by unfold_locales (auto simp: decode_ReplicaID_def fits_ReplicaID_def elim!: and_then_InrE
      dest!: int32.decoded_fits)

interpretation peer: checked_codec encode_PeerMember decode_PeerMember fits_PeerMember
  by unfold_locales (auto simp: decode_PeerMember_def fits_PeerMember_def elim!: and_then_InrE
      dest!: str.decoded_fits replica_id.decoded_fits endpoint.decoded_fits)

interpretation log_entry: checked_codec encode_LogEntry decode_LogEntry fits_LogEntry
  by unfold_locales (auto simp: decode_LogEntry_def fits_LogEntry_def elim!: and_then_InrE
      dest!: int64.decoded_fits str.decoded_fits peer.decoded_fits replica_id.decoded_fits)

section \<open>Reading consumes\<close>

text \<open>A record that was read used up its frame, so a reader that reads record after record ends.\<close>

lemma decode_crc_consumes:
  assumes "decode_crc dec data = Inr (x, rest)"
  shows "length rest < length data"
  using assms
  by (auto simp: decode_crc_def and_then_def decode_int32_def decode_uint32_def require_complete_def decode_payload_def
      split: sum.splits prod.splits if_splits dest!: read_raw_Inr)

section \<open>Corrupt records\<close>

lemma corrupt_frame:
  assumes "p = xs @ us @ ys" and "q = xs @ vs @ ys" and "us \<noteq> vs" and "length us = length vs" and "length us \<le> 4"
    and "int (length p) \<le> K_MAX_FRAMED_PAYLOAD_BYTES"
  shows "decode_crc dec (encode_int32 (int (length p)) @ encode_uint32 (compute_crc32 p) @ q @ rest) = Inl ERROR"
proof -
  have "p \<noteq> []" "length q = length p"
    using assms(1-4) by auto
  moreover have "fits_signed 32 (int (length p))"
    using assms(6) by (simp add: fits_signed_def K_MAX_FRAMED_PAYLOAD_BYTES_def)
  moreover have "compute_crc32 q \<noteq> compute_crc32 p"
    using crc32_burst_differs [OF assms(3-5), of 0 xs ys] assms(1,2) by (simp add: compute_crc32_def)
  ultimately show ?thesis
    using assms(6)
    by (simp add: decode_crc_def int32_roundtrip require_complete_def uint32_roundtrip and_then_def)
qed

section \<open>Properties\<close>

text \<open>C16. What is stored is read back: for log entries, the hard state and the replica description in a
  checked frame, and for the snapshot header and the request records as they are, decoding the bytes that
  were written gives the value and leaves the bytes behind it, for all values whose integers have the
  width of the code's types.\<close>

theorem stored_structures_roundtrip:
  "(fits_LogEntry e \<and> encode_crc encode_LogEntry e = Inr f \<longrightarrow> decode_crc decode_LogEntry (f @ rest) = Inr (e, rest))
   \<and> (fits_RaftMeta m \<and> encode_crc encode_RaftMeta m = Inr g \<longrightarrow> decode_crc decode_RaftMeta (g @ rest) = Inr (m, rest))
   \<and> (fits_ReplicaMetaPayload p \<and> encode_crc encode_ReplicaMetaPayload p = Inr k \<longrightarrow>
        decode_crc decode_ReplicaMetaPayload (k @ rest) = Inr (p, rest))
   \<and> (fits_SnapshotHeader h \<longrightarrow> decode_SnapshotHeader (encode_SnapshotHeader h @ rest) = Inr (h, rest))
   \<and> (fits_RequestRecord r \<longrightarrow> decode_RequestRecord (encode_RequestRecord r @ rest) = Inr (r, rest))"
  using log_entry.frame_roundtrip raft_meta.frame_roundtrip replica_meta.frame_roundtrip snapshot_header.roundtrip
    request_record.roundtrip by blast

lemma encoded_lengths [simp]:
  "length (encode_int32 i) = 4" "length (encode_int64 i) = 8" "length (encode_uint32 u) = 4"
  "length (encode_uint64 v) = 8" "length (encode_bool b) = 1" "length (encode_string s) = 4 + length s"
  "length (encode_WriteOpType op) = 4" "length (encode_RaftMemberType t) = 4" "length (encode_ReplicaID r) = 12"
  by (simp_all add: encode_int32_def encode_int64_def encode_uint32_def encode_uint64_def encode_bool_def
      encode_string_def encode_WriteOpType_def encode_RaftMemberType_def encode_enum_def encode_ReplicaID_def)

lemma encode_crc_Inr:
  "enc x \<noteq> [] \<Longrightarrow> int (length (enc x)) \<le> K_MAX_FRAMED_PAYLOAD_BYTES \<Longrightarrow>
   encode_crc enc x = Inr (encode_int32 (int (length (enc x))) @ encode_uint32 (compute_crc32 (enc x)) @ enc x)"
  by (simp add: encode_crc_def Let_def)

lemma demo_meta_frame: "\<exists>g. encode_crc encode_RaftMeta default_RaftMeta = Inr g"
proof -
  have "length (encode_RaftMeta default_RaftMeta) = 9"
    by (simp add: encode_RaftMeta_def default_RaftMeta_def)
  moreover from this have "encode_RaftMeta default_RaftMeta \<noteq> []"
    by auto
  ultimately show ?thesis
    using encode_crc_Inr [of encode_RaftMeta default_RaftMeta] by (simp add: K_MAX_FRAMED_PAYLOAD_BYTES_def)
qed

theorem stored_structures_roundtrip_witness:
  "\<exists>g. encode_crc encode_RaftMeta default_RaftMeta = Inr g
     \<and> decode_crc decode_RaftMeta (g @ [7]) = Inr (default_RaftMeta, [7])"
proof -
  obtain g where g: "encode_crc encode_RaftMeta default_RaftMeta = Inr g"
    using demo_meta_frame by blast
  have "fits_RaftMeta default_RaftMeta"
    by (simp add: fits_RaftMeta_def default_RaftMeta_def fits_signed_def)
  then show ?thesis
    using stored_structures_roundtrip [of undefined undefined "[7]" default_RaftMeta g undefined undefined undefined
        undefined] g by blast
qed

text \<open>C17. A damaged record is never taken for a good one: when up to four neighbouring bytes of the payload
  of a frame are changed, reading the record fails, whatever type is read and whatever follows.\<close>

theorem corrupt_record_rejected:
  assumes "encode_crc enc x = Inr (encode_int32 (int (length (xs @ us @ ys)))
      @ encode_uint32 (compute_crc32 (xs @ us @ ys)) @ xs @ us @ ys)"
    and "us \<noteq> vs" and "length us = length vs" and "length us \<le> 4"
  shows "decode_crc dec (encode_int32 (int (length (xs @ us @ ys)))
      @ encode_uint32 (compute_crc32 (xs @ us @ ys)) @ xs @ vs @ ys @ rest) = Inl ERROR"
proof -
  have "length (enc x) = length (xs @ us @ ys)" "int (length (enc x)) \<le> K_MAX_FRAMED_PAYLOAD_BYTES"
    using assms(1) by (auto simp: encode_crc_def Let_def split: if_splits dest!: arg_cong [of _ _ length])
  then show ?thesis
    using corrupt_frame [OF refl refl assms(2-4), of xs ys dec rest] by simp
qed

theorem corrupt_record_rejected_witness:
  "encode_crc encode_uint32 5 = Inr (encode_int32 4 @ encode_uint32 (compute_crc32 [5, 0, 0, 0]) @ [5, 0, 0, 0])
   \<and> decode_crc decode_uint32 (encode_int32 4 @ encode_uint32 (compute_crc32 [5, 0, 0, 0]) @ [5, 1, 0, 0]) = Inl ERROR"
proof -
  have "le_bytes 4 v = [word_of_int v, word_of_int (v div 256), word_of_int (v div 256 div 256),
      word_of_int (v div 256 div 256 div 256)]" for v
    by (simp add: eval_nat_numeral)
  then have five: "encode_uint32 5 = [5, 0, 0, 0]"
    by (simp add: encode_uint32_def)
  have enc: "encode_crc encode_uint32 5 =
      Inr (encode_int32 4 @ encode_uint32 (compute_crc32 [5, 0, 0, 0]) @ [5, 0, 0, 0])"
    using encode_crc_Inr [of encode_uint32 5] by (simp add: five K_MAX_FRAMED_PAYLOAD_BYTES_def)
  show ?thesis
    using corrupt_record_rejected [of encode_uint32 5 "[5]" "[0]" "[0, 0]" "[1]" decode_uint32 "[]"] enc by simp
qed

end
