(* ===== verification/Paths.thy ===== *)
theory Paths
  imports Model
begin

text \<open>
  The layout of the data directory (\<^verbatim>\<open>common/path.h\<close>).  A path is a string, \<^verbatim>\<open>operator/\<close> joins with a
  slash.  The lemmas say which names differ: the directories of two shards, the files of one replica and the
  temporary files of two snapshots.
\<close>

section \<open>Decimal numbers\<close>

text \<open>\<^verbatim>\<open>std::to_string\<close> of an integer.\<close>

definition digit :: "nat \<Rightarrow> char" where
  "digit n = char_of (48 + n)"

fun nat_to_string :: "nat \<Rightarrow> string" where
  "nat_to_string n = (if n < 10 then [digit n] else nat_to_string (n div 10) @ [digit (n mod 10)])"

declare nat_to_string.simps [simp del]

definition to_string :: "int \<Rightarrow> string" where
  "to_string i = (if i < 0 then CHR ''-'' # nat_to_string (nat (- i)) else nat_to_string (nat i))"

section \<open>Paths\<close>

definition path_join :: "string \<Rightarrow> string \<Rightarrow> string" where
  "path_join dir name = (if dir = [] then name else if last dir = CHR ''/'' then dir @ name else dir @ ''/'' @ name)"

definition meta_file :: "string \<Rightarrow> string" where
  "meta_file data_dir = path_join data_dir ''meta.json''"

definition replica_dir :: "string \<Rightarrow> ReplicaID \<Rightarrow> string" where
  "replica_dir data_dir replica_id =
    path_join data_dir (to_string (rid_table_id replica_id) @ ''-'' @ to_string (rid_shard_index replica_id))"

definition wal_file :: "string \<Rightarrow> string" where
  "wal_file dir = path_join dir ''wal.log''"

definition raft_meta_file :: "string \<Rightarrow> string" where
  "raft_meta_file dir = path_join dir ''raft_meta''"

definition snapshot_file :: "string \<Rightarrow> string" where
  "snapshot_file dir = path_join dir ''snapshot''"

definition replica_meta_file :: "string \<Rightarrow> string" where
  "replica_meta_file dir = path_join dir ''replica_meta''"

definition receiving_snapshot_file :: "string \<Rightarrow> LogIndex \<Rightarrow> string" where
  "receiving_snapshot_file dir snapshot_index = path_join dir (''snapshot.receiving.'' @ to_string snapshot_index @ ''.tmp'')"

definition candidate_snapshot_file :: "string \<Rightarrow> LogIndex \<Rightarrow> string" where
  "candidate_snapshot_file dir capture_index = path_join dir (''snapshot.'' @ to_string capture_index @ ''.tmp'')"

definition atomic_replace_temp_path :: "string \<Rightarrow> string" where
  "atomic_replace_temp_path target = target @ ''.tmp''"

section \<open>Names that differ\<close>

lemma digit_inject: "m < 10 \<Longrightarrow> n < 10 \<Longrightarrow> digit m = digit n \<longleftrightarrow> m = n"
  by (simp add: digit_def char_of_eq_iff take_bit_nat_def)

lemma digit_no_sign: "n < 10 \<Longrightarrow> digit n \<noteq> CHR ''-''"
  by (simp add: digit_def char_of_eq_iff take_bit_nat_def)

lemma nat_to_string_Nil [simp]: "nat_to_string n \<noteq> []" "[] \<noteq> nat_to_string n"
  by (subst nat_to_string.simps, simp)+

lemma nat_to_string_no_sign: "CHR ''-'' \<notin> set (nat_to_string n)"
proof (induction n rule: nat_to_string.induct)
  case (1 n)
  have "set (nat_to_string n) = (if n < 10 then {digit n} else insert (digit (n mod 10)) (set (nat_to_string (n div 10))))"
    by (subst nat_to_string.simps) simp
  then show ?case
    using 1 digit_no_sign [of n] digit_no_sign [of "n mod 10"] by (auto split: if_splits)
qed

lemma nat_to_string_inject: "nat_to_string m = nat_to_string n \<longleftrightarrow> m = n"
proof (induction m arbitrary: n rule: nat_to_string.induct)
  case (1 m)
  have "m = n" if eq: "nat_to_string m = nat_to_string n"
  proof -
    have "(if m < 10 then [digit m] else nat_to_string (m div 10) @ [digit (m mod 10)])
        = (if n < 10 then [digit n] else nat_to_string (n div 10) @ [digit (n mod 10)])"
      using eq nat_to_string.simps [of m] nat_to_string.simps [of n] by simp
    then consider "m < 10" "n < 10" "digit m = digit n"
      | "\<not> m < 10" "\<not> n < 10" "nat_to_string (m div 10) = nat_to_string (n div 10)" "digit (m mod 10) = digit (n mod 10)"
      by (auto split: if_splits)
    then show ?thesis
    proof cases
      case 2
      then have "m div 10 = n div 10" "m mod 10 = n mod 10"
        using 1 by (simp_all add: digit_inject)
      then show ?thesis
        by (metis div_mod_decomp)
    qed (simp add: digit_inject)
  qed
  then show ?case
    by blast
qed

lemma to_string_inject: "to_string i = to_string j \<longleftrightarrow> i = j"
  using nat_to_string_no_sign [of "nat i"] nat_to_string_no_sign [of "nat j"]
  by (auto simp: to_string_def nat_to_string_inject split: if_splits)
    (metis list.set_intros(1))+

lemma no_sign_split:
  assumes "CHR ''-'' \<notin> set xs" and "CHR ''-'' \<notin> set ys" and "xs @ CHR ''-'' # us = ys @ CHR ''-'' # vs"
  shows "xs = ys" "us = vs"
proof -
  have "takeWhile (\<lambda>c. c \<noteq> CHR ''-'') (zs @ CHR ''-'' # ws) = zs" if "CHR ''-'' \<notin> set zs" for zs ws
    using that by (induction zs) auto
  then show "xs = ys"
    using assms by metis
  then show "us = vs"
    using assms(3) by simp
qed

lemma to_string_split:
  assumes "to_string i @ CHR ''-'' # us = to_string j @ CHR ''-'' # vs"
  shows "i = j" "us = vs"
proof -
  have sign: "i < 0 \<longleftrightarrow> j < 0"
    using assms nat_to_string_no_sign [of "nat i"] nat_to_string_no_sign [of "nat j"]
    by (cases "nat_to_string (nat i)"; cases "nat_to_string (nat j)") (auto simp: to_string_def split: if_splits)
  have "nat_to_string (nat \<bar>i\<bar>) @ CHR ''-'' # us = nat_to_string (nat \<bar>j\<bar>) @ CHR ''-'' # vs"
    using assms sign by (auto simp: to_string_def split: if_splits)
  then have "nat_to_string (nat \<bar>i\<bar>) = nat_to_string (nat \<bar>j\<bar>)" "us = vs"
    by (rule no_sign_split [OF nat_to_string_no_sign nat_to_string_no_sign])+
  then show "i = j" "us = vs"
    using sign by (auto simp: nat_to_string_inject)
qed

lemma path_join_inject [simp]: "path_join dir a = path_join dir b \<longleftrightarrow> a = b"
  by (simp add: path_join_def)

lemma path_join_temp: "atomic_replace_temp_path (path_join dir a) = path_join dir (a @ ''.tmp'')"
  by (simp add: path_join_def atomic_replace_temp_path_def)

lemma temp_path_neq [simp]: "atomic_replace_temp_path p \<noteq> p" "p \<noteq> atomic_replace_temp_path p"
  by (simp_all add: atomic_replace_temp_path_def)

text \<open>The files of a replica are different files, and no temporary file is one of them.\<close>

lemma replica_files_differ [simp]:
  "wal_file dir \<noteq> raft_meta_file dir" "wal_file dir \<noteq> snapshot_file dir" "wal_file dir \<noteq> replica_meta_file dir"
  "raft_meta_file dir \<noteq> snapshot_file dir" "raft_meta_file dir \<noteq> replica_meta_file dir"
  "snapshot_file dir \<noteq> replica_meta_file dir" "raft_meta_file dir \<noteq> wal_file dir" "snapshot_file dir \<noteq> wal_file dir"
  "snapshot_file dir \<noteq> raft_meta_file dir"
  by (simp_all add: wal_file_def raft_meta_file_def snapshot_file_def replica_meta_file_def)

lemma replica_temp_files_differ [simp]:
  "wal_file dir \<noteq> atomic_replace_temp_path (raft_meta_file dir)" "raft_meta_file dir \<noteq> atomic_replace_temp_path (wal_file dir)"
  "snapshot_file dir \<noteq> atomic_replace_temp_path (wal_file dir)" "snapshot_file dir \<noteq> atomic_replace_temp_path (raft_meta_file dir)"
  "wal_file dir \<noteq> atomic_replace_temp_path (replica_meta_file dir)"
  by (simp_all add: wal_file_def raft_meta_file_def snapshot_file_def replica_meta_file_def path_join_temp)

lemma snapshot_temp_files_differ [simp]:
  "receiving_snapshot_file dir i \<noteq> snapshot_file dir" "candidate_snapshot_file dir i \<noteq> snapshot_file dir"
  "receiving_snapshot_file dir i \<noteq> wal_file dir" "candidate_snapshot_file dir i \<noteq> wal_file dir"
  "receiving_snapshot_file dir i \<noteq> raft_meta_file dir" "candidate_snapshot_file dir i \<noteq> raft_meta_file dir"
  by (simp_all add: receiving_snapshot_file_def candidate_snapshot_file_def snapshot_file_def wal_file_def raft_meta_file_def)

lemma replica_dir_inject:
  "replica_dir dir r = replica_dir dir r' \<longleftrightarrow> rid_table_id r = rid_table_id r' \<and> rid_shard_index r = rid_shard_index r'"
proof -
  have "rid_table_id r = rid_table_id r' \<and> rid_shard_index r = rid_shard_index r'"
    if "to_string (rid_table_id r) @ CHR ''-'' # to_string (rid_shard_index r)
      = to_string (rid_table_id r') @ CHR ''-'' # to_string (rid_shard_index r')"
    using to_string_split [OF that] by (simp add: to_string_inject)
  then show ?thesis
    by (auto simp: replica_dir_def)
qed

end
