(* ===== verification/File_Store.thy ===== *)
theory File_Store
  imports Binary_Codec Paths
begin

text \<open>
  Files and the buffered writer (\<^verbatim>\<open>common/file.h\<close>, \<^verbatim>\<open>FileWriter\<close> of \<^verbatim>\<open>common/binary/base.h\<close>).  The disk maps
  paths to contents.  Every system call may fail: the disk carries a plan that says which calls do, and for
  a failing \<^verbatim>\<open>write\<close> how many bytes reached the file.  A crash stops the program between two system calls or
  inside a write, so the state an operation leaves behind when a call fails is also what it leaves behind
  when the machine stops there; the statements below hold for every plan.  Retries on \<^verbatim>\<open>EINTR\<close> and short
  writes are part of one call.  A file is read after it was opened and reading it does not fail.
\<close>

section \<open>System calls\<close>

record Disk =
  dk_files :: "string \<rightharpoonup> byte list"
  dk_faults :: "nat \<Rightarrow> nat option"
  dk_calls :: nat

definition syscall :: "Disk \<Rightarrow> nat option \<times> Disk" where
  "syscall d = (dk_faults d (dk_calls d), d\<lparr>dk_calls := dk_calls d + 1\<rparr>)"

definition content :: "Disk \<Rightarrow> string \<Rightarrow> byte list" where
  "content d path = (case dk_files d path of None \<Rightarrow> [] | Some c \<Rightarrow> c)"

text \<open>An open file is its path; \<^term>\<open>None\<close> is a closed file, on which every call fails.\<close>

type_synonym File = "string option"

definition open_for_write :: "string \<Rightarrow> Disk \<Rightarrow> Disk \<times> Status \<times> File" where
  "open_for_write path d = (let (fault, d1) = syscall d in
    if fault \<noteq> None then (d1, ERROR, None)
    else (d1\<lparr>dk_files := (dk_files d1)(path \<mapsto> [])\<rparr>, OK, Some path))"

definition open_for_append :: "string \<Rightarrow> Disk \<Rightarrow> Disk \<times> Status \<times> File" where
  "open_for_append path d = (let (fault, d1) = syscall d in
    if fault \<noteq> None then (d1, ERROR, None)
    else (d1\<lparr>dk_files := (dk_files d1)(path \<mapsto> content d1 path)\<rparr>, OK, Some path))"

text \<open>A missing file is no error: the content is \<^term>\<open>None\<close>.\<close>

definition open_for_read :: "string \<Rightarrow> Disk \<Rightarrow> Disk \<times> Status \<times> byte list option" where
  "open_for_read path d = (let (fault, d1) = syscall d in
    if fault \<noteq> None then (d1, ERROR, None) else (d1, OK, dk_files d1 path))"

definition file_close :: "File \<Rightarrow> Disk \<Rightarrow> Disk \<times> Status" where
  "file_close f d = (if f = None then (d, OK) else
    let (fault, d1) = syscall d in (d1, if fault \<noteq> None then ERROR else OK))"

definition file_write :: "File \<Rightarrow> byte list \<Rightarrow> Disk \<Rightarrow> Disk \<times> Status" where
  "file_write f data d =
    (if data = [] then (d, OK)
     else case f of None \<Rightarrow> (d, ERROR)
     | Some path \<Rightarrow> (let (fault, d1) = syscall d in
         case fault of
           Some k \<Rightarrow> (d1\<lparr>dk_files := (dk_files d1)(path \<mapsto> content d1 path @ take k data)\<rparr>, ERROR)
         | None \<Rightarrow> (d1\<lparr>dk_files := (dk_files d1)(path \<mapsto> content d1 path @ data)\<rparr>, OK)))"

definition file_fsync :: "File \<Rightarrow> Disk \<Rightarrow> Disk \<times> Status" where
  "file_fsync f d = (if f = None then (d, ERROR) else
    let (fault, d1) = syscall d in (d1, if fault \<noteq> None then ERROR else OK))"

definition file_size :: "File \<Rightarrow> Disk \<Rightarrow> Disk \<times> Status \<times> nat" where
  "file_size f d = (case f of None \<Rightarrow> (d, ERROR, 0) | Some path \<Rightarrow>
    (let (fault, d1) = syscall d in if fault \<noteq> None then (d1, ERROR, 0) else (d1, OK, length (content d1 path))))"

definition fsync_dir :: "Disk \<Rightarrow> Disk \<times> Status" where
  "fsync_dir d = (let (fault, d1) = syscall d in (d1, if fault \<noteq> None then ERROR else OK))"

definition file_rename :: "string \<Rightarrow> string \<Rightarrow> Disk \<Rightarrow> Disk \<times> Status" where
  "file_rename src dst d = (let (fault, d1) = syscall d in
    if fault \<noteq> None \<or> dk_files d1 src = None then (d1, ERROR)
    else (d1\<lparr>dk_files := (dk_files d1)(dst := dk_files d1 src, src := None)\<rparr>, OK))"

text \<open>\<^verbatim>\<open>std::filesystem::remove\<close> whose error is ignored.\<close>

definition file_remove :: "string \<Rightarrow> Disk \<Rightarrow> Disk" where
  "file_remove path d = (let (fault, d1) = syscall d in
    if fault \<noteq> None then d1 else d1\<lparr>dk_files := (dk_files d1)(path := None)\<rparr>)"

text \<open>The target needs a parent directory, which is created if it is missing.  The temporary file is removed
  on every way out behind the open.\<close>

definition atomic_replace :: "string \<Rightarrow> (File \<Rightarrow> Disk \<Rightarrow> Disk \<times> Status) \<Rightarrow> Disk \<Rightarrow> Disk \<times> Status" where
  "atomic_replace path write_to_file d =
    (if CHR ''/'' \<notin> set path then (d, ERROR) else
     let (fault, d0) = syscall d in
     if fault \<noteq> None then (d0, ERROR) else
     let tmp_path = atomic_replace_temp_path path;
         (d1, s1, tmp) = open_for_write tmp_path d0 in
     if fail s1 then (d1, s1)
     else
       let (d6, s6) =
         (let (d2, s2) = write_to_file tmp d1 in
          if fail s2 then (d2, s2)
          else let (d3, s3) = file_fsync tmp d2 in
            if fail s3 then (d3, s3)
            else let (d4, s4) = file_close tmp d3 in
              if fail s4 then (d4, s4)
              else let (d5, s5) = file_rename tmp_path path d4 in
                if fail s5 then (d5, s5) else fsync_dir d5)
       in (file_remove tmp_path d6, s6))"

section \<open>The buffered writer\<close>

record FileWriter =
  fw_file :: File
  fw_buf :: "byte list"

definition K_FILE_WRITE_BUFFER_BYTES :: nat where
  "K_FILE_WRITE_BUFFER_BYTES = 64 * 1024"

definition new_FileWriter :: "File \<Rightarrow> FileWriter" where
  "new_FileWriter f = \<lparr>fw_file = f, fw_buf = []\<rparr>"

definition fw_flush :: "FileWriter \<Rightarrow> Disk \<Rightarrow> FileWriter \<times> Disk \<times> Status" where
  "fw_flush w d =
    (if fw_buf w = [] then (w, d, OK)
     else let (d1, s) = file_write (fw_file w) (fw_buf w) d in
       if fail s then (w, d1, s) else (w\<lparr>fw_buf := []\<rparr>, d1, OK))"

definition fw_write_raw :: "byte list \<Rightarrow> FileWriter \<Rightarrow> Disk \<Rightarrow> FileWriter \<times> Disk \<times> Status" where
  "fw_write_raw data w d =
    (if data = [] then (w, d, OK)
     else if length data \<ge> K_FILE_WRITE_BUFFER_BYTES then
       (let (w1, d1, s1) = fw_flush w d in
        if fail s1 then (w1, d1, s1)
        else let (d2, s2) = file_write (fw_file w1) data d1 in (w1, d2, s2))
     else
       (let (w1, d1, s1) = (if length (fw_buf w) + length data > K_FILE_WRITE_BUFFER_BYTES then fw_flush w d else (w, d, OK)) in
        if fail s1 then (w1, d1, s1) else (w1\<lparr>fw_buf := fw_buf w1 @ data\<rparr>, d1, OK)))"

definition fw_sync :: "FileWriter \<Rightarrow> Disk \<Rightarrow> FileWriter \<times> Disk \<times> Status" where
  "fw_sync w d =
    (let (w1, d1, s1) = fw_flush w d in
     if fail s1 then (w1, d1, s1) else let (d2, s2) = file_fsync (fw_file w1) d1 in (w1, d2, s2))"

text \<open>One \<^verbatim>\<open>write_raw\<close> after the other, until one fails.\<close>

fun fw_write_all :: "byte list list \<Rightarrow> FileWriter \<Rightarrow> Disk \<Rightarrow> FileWriter \<times> Disk \<times> Status" where
  "fw_write_all [] w d = (w, d, OK)"
| "fw_write_all (x # xs) w d =
    (let (w1, d1, s1) = fw_write_raw x w d in if fail s1 then (w1, d1, s1) else fw_write_all xs w1 d1)"

text \<open>\<^verbatim>\<open>encode_crc\<close> into a file writer: the length, the checksum and the payload are three writes.\<close>

definition fw_encode_crc :: "('a \<Rightarrow> byte list) \<Rightarrow> 'a \<Rightarrow> FileWriter \<Rightarrow> Disk \<Rightarrow> FileWriter \<times> Disk \<times> Status" where
  "fw_encode_crc enc x w d = (let payload = enc x in
    if payload = [] \<or> int (length payload) > K_MAX_FRAMED_PAYLOAD_BYTES then (w, d, ERROR)
    else fw_write_all [encode_int32 (int (length payload)), encode_uint32 (compute_crc32 payload), payload] w d)"

fun fw_encode_crcs :: "('a \<Rightarrow> byte list) \<Rightarrow> 'a list \<Rightarrow> FileWriter \<Rightarrow> Disk \<Rightarrow> FileWriter \<times> Disk \<times> Status" where
  "fw_encode_crcs enc [] w d = (w, d, OK)"
| "fw_encode_crcs enc (x # xs) w d =
    (let (w1, d1, s1) = fw_encode_crc enc x w d in if fail s1 then (w1, d1, s1) else fw_encode_crcs enc xs w1 d1)"

section \<open>What the writer leaves in the file\<close>

text \<open>
  Given some data, a writer moves a first part of its buffer and the data to the file, and keeps the rest
  in the buffer when it succeeds.
\<close>

definition wrote :: "string \<Rightarrow> FileWriter \<Rightarrow> Disk \<Rightarrow> byte list \<Rightarrow> FileWriter \<Rightarrow> Disk \<Rightarrow> Status \<Rightarrow> bool" where
  "wrote path w d data w' d' s \<longleftrightarrow> fw_file w' = fw_file w \<and> (\<forall>q. q \<noteq> path \<longrightarrow> dk_files d' q = dk_files d q)
     \<and> (dk_files d path \<noteq> None \<longrightarrow> dk_files d' path \<noteq> None)
     \<and> (\<exists>p r. content d' path = content d path @ p \<and> p @ r = fw_buf w @ data \<and> (s = OK \<longrightarrow> r = fw_buf w'))"

lemma wroteI:
  assumes "fw_file w' = fw_file w" "\<And>q. q \<noteq> path \<Longrightarrow> dk_files d' q = dk_files d q"
    "dk_files d path \<noteq> None \<Longrightarrow> dk_files d' path \<noteq> None"
    "content d' path = content d path @ p" "p @ r = fw_buf w @ data" "s = OK \<Longrightarrow> r = fw_buf w'"
  shows "wrote path w d data w' d' s"
  using assms unfolding wrote_def by blast

lemma wrote_trans:
  assumes "wrote path w d a w1 d1 OK" and "wrote path w1 d1 b w2 d2 s"
  shows "wrote path w d (a @ b) w2 d2 s"
proof -
  obtain p where p: "content d1 path = content d path @ p" "p @ fw_buf w1 = fw_buf w @ a"
    using assms(1) by (auto simp: wrote_def)
  obtain q r where q: "content d2 path = content d1 path @ q" "q @ r = fw_buf w1 @ b" "s = OK \<Longrightarrow> r = fw_buf w2"
    using assms(2) by (auto simp: wrote_def)
  show ?thesis
  proof (rule wroteI)
    show "content d2 path = content d path @ (p @ q)"
      by (simp add: p q)
    show "(p @ q) @ r = fw_buf w @ a @ b"
      using p(2) q(2) by (metis append_assoc)
  qed (use assms q(3) in \<open>auto simp: wrote_def\<close>)
qed

lemma wrote_fail_append: "wrote path w d a w' d' s \<Longrightarrow> s \<noteq> OK \<Longrightarrow> wrote path w d (a @ b) w' d' s"
  unfolding wrote_def by (metis append_assoc)

lemma file_write_result:
  assumes "file_write (Some path) data d = (d', s)"
  shows "\<exists>p r. content d' path = content d path @ p \<and> p @ r = data \<and> (s = OK \<longrightarrow> r = [])"
    "q \<noteq> path \<Longrightarrow> dk_files d' q = dk_files d q" "dk_files d path \<noteq> None \<Longrightarrow> dk_files d' path \<noteq> None"
proof -
  have "\<exists>k. content d' path = content d path @ take k data \<and> (s = OK \<longrightarrow> length data \<le> k)"
  proof (cases "dk_faults d (dk_calls d)")
    case None
    then show ?thesis
      using assms by (intro exI [of _ "length data"])
        (auto simp: file_write_def syscall_def content_def Let_def split: if_splits)
  next
    case (Some k)
    then show ?thesis
      using assms by (intro exI [of _ k])
        (auto simp: file_write_def syscall_def content_def Let_def split: if_splits)
  qed
  then obtain k where "content d' path = content d path @ take k data" "s = OK \<longrightarrow> length data \<le> k"
    by blast
  then show "\<exists>p r. content d' path = content d path @ p \<and> p @ r = data \<and> (s = OK \<longrightarrow> r = [])"
    by (intro exI [of _ "take k data"] exI [of _ "drop k data"]) simp
  show "q \<noteq> path \<Longrightarrow> dk_files d' q = dk_files d q" "dk_files d path \<noteq> None \<Longrightarrow> dk_files d' path \<noteq> None"
    using assms by (auto simp: file_write_def syscall_def Let_def split: if_splits option.splits)
qed

lemma fw_flush_wrote:
  assumes "fw_file w = Some path" and "fw_flush w d = (w', d', s)"
  shows "wrote path w d [] w' d' s" "s = OK \<Longrightarrow> fw_buf w' = []"
proof -
  have "wrote path w d [] w' d' s \<and> (s = OK \<longrightarrow> fw_buf w' = [])"
  proof (cases "fw_buf w = []")
    case True
    then show ?thesis
      using assms by (auto simp: fw_flush_def intro!: wroteI)
  next
    case False
    obtain d1 s1 where 1: "file_write (Some path) (fw_buf w) d = (d1, s1)"
      by fastforce
    note R = file_write_result [OF 1]
    have eq: "w' = (if fail s1 then w else w\<lparr>fw_buf := []\<rparr>)" "d' = d1" "s = s1"
      using assms False 1 by (auto simp: fw_flush_def fail_iff split: if_splits)
    from R(1) obtain p r where "content d1 path = content d path @ p" "p @ r = fw_buf w" "s1 = OK \<Longrightarrow> r = []"
      by blast
    then show ?thesis
      using R(2,3) by (auto simp: eq fail_iff intro!: wroteI [of _ w path d1 d p r])
  qed
  then show "wrote path w d [] w' d' s" "s = OK \<Longrightarrow> fw_buf w' = []"
    by auto
qed

lemma wrote_direct:
  assumes "fw_file w = Some path" and "fw_buf w = []" and "file_write (Some path) data d = (d', s)"
  shows "wrote path w d data w d' s"
proof -
  obtain p r where "content d' path = content d path @ p" "p @ r = data" "s = OK \<Longrightarrow> r = []"
    using file_write_result(1) [OF assms(3)] by blast
  then show ?thesis
    using assms(2) file_write_result(2,3) [OF assms(3)] by (intro wroteI [where p = p and r = r]) simp_all
qed

lemma wrote_buffered: "fw_file w = Some path \<Longrightarrow> wrote path w d data (w\<lparr>fw_buf := fw_buf w @ data\<rparr>) d OK"
  by (rule wroteI [where p = "[]"]) simp_all

lemma fw_write_raw_wrote:
  assumes fo: "fw_file w = Some path" and run: "fw_write_raw data w d = (w', d', s)"
  shows "wrote path w d data w' d' s"
proof -
  obtain w1 d1 s1 where 1: "fw_flush w d = (w1, d1, s1)"
    by (metis prod_cases3)
  note F = fw_flush_wrote [OF fo 1]
  have file1: "fw_file w1 = Some path"
    using F(1) fo by (simp add: wrote_def)
  obtain d2 s2 where 2: "file_write (Some path) data d1 = (d2, s2)"
    by fastforce
  have buf: "wrote path w d data (w\<lparr>fw_buf := fw_buf w @ data\<rparr>) d OK"
    by (rule wrote_buffered [OF fo])
  have flushed: "wrote path w d data w2 d2' t" if "s1 = OK" "wrote path w1 d1 data w2 d2' t" for w2 d2' t
    using wrote_trans [OF F(1) [unfolded that(1)] that(2)] by simp
  have *: "(w', d', s) = (w, d, OK) \<and> data = [] \<or> s1 \<noteq> OK \<and> (w', d', s) = (w1, d1, s1)
      \<or> s1 = OK \<and> (w', d', s) = (w1, d2, s2) \<or> s1 = OK \<and> (w', d', s) = (w1\<lparr>fw_buf := fw_buf w1 @ data\<rparr>, d1, OK)
      \<or> (w', d', s) = (w\<lparr>fw_buf := fw_buf w @ data\<rparr>, d, OK)"
    using run 1 2 file1 by (auto simp: fw_write_raw_def fail_iff Let_def split: if_splits)
  then show ?thesis
  proof (elim disjE conjE)
    assume "(w', d', s) = (w, d, OK)" "data = []"
    then show ?thesis
      by (auto intro!: wroteI)
  next
    assume "s1 \<noteq> OK" "(w', d', s) = (w1, d1, s1)"
    then show ?thesis
      using wrote_fail_append [OF F(1), of data] by simp
  next
    assume ok: "s1 = OK" and "(w', d', s) = (w1, d2, s2)"
    then show ?thesis
      using flushed [OF ok wrote_direct [OF file1 F(2) [OF ok] 2]] by simp
  next
    assume ok: "s1 = OK" and "(w', d', s) = (w1\<lparr>fw_buf := fw_buf w1 @ data\<rparr>, d1, OK)"
    then show ?thesis
      using flushed [OF ok wrote_buffered [OF file1]] by simp
  next
    assume "(w', d', s) = (w\<lparr>fw_buf := fw_buf w @ data\<rparr>, d, OK)"
    then show ?thesis
      using buf by simp
  qed
qed

lemma fw_write_all_wrote:
  "fw_file w = Some path \<Longrightarrow> fw_write_all xs w d = (w', d', s) \<Longrightarrow> wrote path w d (concat xs) w' d' s"
proof (induction xs arbitrary: w d)
  case Nil
  then show ?case
    by (auto intro!: wroteI)
next
  case (Cons x xs)
  obtain w1 d1 s1 where 1: "fw_write_raw x w d = (w1, d1, s1)"
    by (metis prod_cases3)
  note W = fw_write_raw_wrote [OF Cons.prems(1) 1]
  have file1: "fw_file w1 = Some path"
    using W Cons.prems(1) by (simp add: wrote_def)
  show ?case
  proof (cases "s1 = OK")
    case True
    then have "wrote path w1 d1 (concat xs) w' d' s"
      using Cons.prems(2) 1 by (intro Cons.IH [OF file1]) simp
    then show ?thesis
      using wrote_trans [OF W [unfolded True]] by simp
  next
    case False
    then show ?thesis
      using wrote_fail_append [OF W False, of "concat xs"] Cons.prems(2) 1 by (simp add: fail_iff)
  qed
qed

section \<open>Frames in a file\<close>

definition frame :: "('a \<Rightarrow> byte list) \<Rightarrow> 'a \<Rightarrow> byte list" where
  "frame enc x = encode_int32 (int (length (enc x))) @ encode_uint32 (compute_crc32 (enc x)) @ enc x"

definition frame_fits :: "('a \<Rightarrow> byte list) \<Rightarrow> 'a \<Rightarrow> bool" where
  "frame_fits enc x \<longleftrightarrow> enc x \<noteq> [] \<and> int (length (enc x)) \<le> K_MAX_FRAMED_PAYLOAD_BYTES"

definition frames :: "('a \<Rightarrow> byte list) \<Rightarrow> 'a list \<Rightarrow> byte list" where
  "frames enc xs = concat (map (frame enc) xs)"

lemma frames_simps [simp]: "frames enc [] = []" "frames enc (x # xs) = frame enc x @ frames enc xs"
    "frames enc (xs @ ys) = frames enc xs @ frames enc ys"
  by (simp_all add: frames_def)

lemma encode_crc_frame: "encode_crc enc x = (if frame_fits enc x then Inr (frame enc x) else Inl ERROR)"
  by (auto simp: encode_crc_def frame_def frame_fits_def Let_def)

lemma frame_not_Nil [simp]: "frame enc x \<noteq> []"
  by (simp add: frame_def flip: length_greater_0_conv)

lemma fw_encode_crc_wrote:
  assumes "fw_file w = Some path" and "fw_encode_crc enc x w d = (w', d', s)"
  shows "wrote path w d (frame enc x) w' d' s" "s = OK \<Longrightarrow> frame_fits enc x"
proof -
  have "wrote path w d (frame enc x) w' d' s \<and> (s = OK \<longrightarrow> frame_fits enc x)"
  proof (cases "frame_fits enc x")
    case True
    then have "fw_write_all [encode_int32 (int (length (enc x))), encode_uint32 (compute_crc32 (enc x)), enc x] w d
        = (w', d', s)"
      using assms(2) by (simp add: fw_encode_crc_def frame_fits_def Let_def del: fw_write_all.simps)
    from fw_write_all_wrote [OF assms(1) this] show ?thesis
      using True by (simp add: frame_def)
  next
    case False
    then show ?thesis
      using assms by (auto simp: fw_encode_crc_def frame_fits_def Let_def intro!: wroteI [where p = "[]"])
  qed
  then show "wrote path w d (frame enc x) w' d' s" "s = OK \<Longrightarrow> frame_fits enc x"
    by auto
qed

lemma fw_encode_crcs_wrote:
  "fw_file w = Some path \<Longrightarrow> fw_encode_crcs enc xs w d = (w', d', s) \<Longrightarrow>
   wrote path w d (frames enc xs) w' d' s \<and> (s = OK \<longrightarrow> (\<forall>x\<in>set xs. frame_fits enc x))"
proof (induction xs arbitrary: w d)
  case Nil
  then show ?case
    by (auto intro!: wroteI)
next
  case (Cons x xs)
  obtain w1 d1 s1 where 1: "fw_encode_crc enc x w d = (w1, d1, s1)"
    by (metis prod_cases3)
  note W = fw_encode_crc_wrote [OF Cons.prems(1) 1]
  have file1: "fw_file w1 = Some path"
    using W Cons.prems(1) by (simp add: wrote_def)
  show ?case
  proof (cases "s1 = OK")
    case True
    then have "wrote path w1 d1 (frames enc xs) w' d' s \<and> (s = OK \<longrightarrow> (\<forall>x\<in>set xs. frame_fits enc x))"
      using Cons.prems(2) 1 by (intro Cons.IH [OF file1]) simp
    then show ?thesis
      using wrote_trans [OF W(1) [unfolded True]] W(2) [OF True] by simp
  next
    case False
    then show ?thesis
      using wrote_fail_append [OF W(1) False, of "frames enc xs"] Cons.prems(2) 1 by (simp add: fail_iff)
  qed
qed

text \<open>After a successful flush the file holds everything the writer was given.\<close>

lemma fw_sync_wrote:
  assumes "fw_file w = Some path" and "fw_sync w d = (w', d', s)"
  shows "wrote path w d [] w' d' s" "s = OK \<Longrightarrow> fw_buf w' = []"
proof -
  obtain w1 d1 s1 where 1: "fw_flush w d = (w1, d1, s1)"
    by (metis prod_cases3)
  note F = fw_flush_wrote [OF assms(1) 1]
  obtain d2 s2 where 2: "file_fsync (fw_file w1) d1 = (d2, s2)"
    by fastforce
  have d2: "dk_files d2 = dk_files d1"
    using 2 by (auto simp: file_fsync_def syscall_def Let_def split: if_splits)
  have eq: "w' = w1" "d' = (if fail s1 then d1 else d2)" "s = (if fail s1 then s1 else s2)"
    using assms(2) 1 2 by (auto simp: fw_sync_def split: if_splits)
  show "wrote path w d [] w' d' s"
    using F(1) d2 by (auto simp: eq wrote_def content_def fail_iff)
  show "s = OK \<Longrightarrow> fw_buf w' = []"
    using F(2) by (auto simp: eq fail_iff split: if_splits)
qed

text \<open>A fresh writer that was given data and then flushed: the file grows by a first part of the data, and
  by all of it when both succeed.\<close>

lemma wrote_flushed:
  assumes "wrote path (new_FileWriter (Some path)) d data w d1 s1" and "s1 = OK"
    and "wrote path w d1 [] w' d' s" and "s = OK \<Longrightarrow> fw_buf w' = []"
  shows "\<exists>k. content d' path = content d path @ take k data \<and> (s = OK \<longrightarrow> length data \<le> k)"
proof -
  have "wrote path (new_FileWriter (Some path)) d data w' d' s"
    using wrote_trans [OF assms(1) [unfolded assms(2)] assms(3)] by simp
  then obtain p r where "content d' path = content d path @ p" "p @ r = data" "s = OK \<Longrightarrow> r = []"
    using assms(4) by (auto simp: wrote_def new_FileWriter_def)
  then show ?thesis
    by (intro exI [of _ "length p"]) auto
qed

lemma wrote_failed:
  assumes "wrote path (new_FileWriter (Some path)) d data w d' s"
  shows "\<exists>k. content d' path = content d path @ take k data"
proof -
  obtain p r where "content d' path = content d path @ p" "p @ r = data"
    using assms by (auto simp: wrote_def new_FileWriter_def)
  then show ?thesis
    by (intro exI [of _ "length p"]) auto
qed

section \<open>Atomic replacement\<close>

lemma quiet_calls:
  "file_fsync f d = (d1, s) \<Longrightarrow> dk_files d1 = dk_files d" "file_close f d = (d1, s) \<Longrightarrow> dk_files d1 = dk_files d"
  "fsync_dir d = (d1, s) \<Longrightarrow> dk_files d1 = dk_files d"
  by (auto simp: file_fsync_def file_close_def fsync_dir_def syscall_def Let_def split: if_splits)

lemma file_remove_files: "q \<noteq> path \<Longrightarrow> dk_files (file_remove path d) q = dk_files d q"
  by (simp add: file_remove_def syscall_def Let_def)

lemma file_rename_result:
  assumes "file_rename src dst d = (d1, s)" and "src \<noteq> dst"
  shows "s \<noteq> OK \<Longrightarrow> dk_files d1 = dk_files d"
    "s = OK \<Longrightarrow> dk_files d1 = (dk_files d)(dst := dk_files d src, src := None) \<and> dk_files d src \<noteq> None"
  using assms by (auto simp: file_rename_def syscall_def Let_def split: if_splits)

lemma open_for_write_result:
  assumes "open_for_write path d = (d1, s, f)"
  shows "s = OK \<Longrightarrow> f = Some path \<and> dk_files d1 = (dk_files d)(path \<mapsto> [])" "s \<noteq> OK \<Longrightarrow> dk_files d1 = dk_files d"
    "s \<noteq> OK \<Longrightarrow> s = ERROR"
  using assms by (auto simp: open_for_write_def syscall_def Let_def split: if_splits)

text \<open>What is asked of the function that fills the temporary file.\<close>

definition fills :: "(File \<Rightarrow> Disk \<Rightarrow> Disk \<times> Status) \<Rightarrow> byte list \<Rightarrow> bool" where
  "fills f new \<longleftrightarrow> (\<forall>path d d' s. dk_files d path = Some [] \<and> f (Some path) d = (d', s) \<longrightarrow>
     (\<forall>q. q \<noteq> path \<longrightarrow> dk_files d' q = dk_files d q) \<and> (s = OK \<longrightarrow> dk_files d' path = Some new))"

lemma atomic_replace_result:
  assumes fill: "fills f new" and run: "atomic_replace path f d = (d', s)"
  shows "dk_files d' path = dk_files d path \<or> dk_files d' path = Some new"
    "s = OK \<Longrightarrow> dk_files d' path = Some new"
    "q \<noteq> path \<Longrightarrow> q \<noteq> atomic_replace_temp_path path \<Longrightarrow> dk_files d' q = dk_files d q"
proof -
  let ?tmp = "atomic_replace_temp_path path"
  define d0 where "d0 = snd (syscall d)"
  have d0: "dk_files d0 = dk_files d"
    by (simp add: d0_def syscall_def)
  obtain d1 s1 tmp where 1: "open_for_write ?tmp d0 = (d1, s1, tmp)"
    by (metis prod_cases3)
  note O = open_for_write_result [OF 1, unfolded d0]
  obtain d2 s2 where 2: "f tmp d1 = (d2, s2)" by fastforce
  obtain d3 s3 where 3: "file_fsync tmp d2 = (d3, s3)" by fastforce
  obtain d4 s4 where 4: "file_close tmp d3 = (d4, s4)" by fastforce
  obtain d5 s5 where 5: "file_rename ?tmp path d4 = (d5, s5)" by fastforce
  obtain d6 s6 where 6: "fsync_dir d5 = (d6, s6)" by fastforce
  note R = file_rename_result [OF 5 temp_path_neq(1)]
  have f2: "dk_files d2 q = dk_files d q" "s2 = OK \<Longrightarrow> dk_files d2 ?tmp = Some new" if "s1 = OK" "q \<noteq> ?tmp" for q
    using fill [unfolded fills_def, rule_format, of d1 ?tmp d2 s2] O(1) [OF that(1)] 2 that(2) by auto
  have quiet: "dk_files d3 = dk_files d2" "dk_files d4 = dk_files d2" "dk_files d6 = dk_files d5"
    using quiet_calls(1) [OF 3] quiet_calls(2) [OF 4] quiet_calls(3) [OF 6] by simp_all
  have f5: "dk_files d5 q = (if q = path then Some new else dk_files d q)" if "s1 = OK" "s2 = OK" "s5 = OK" "q \<noteq> ?tmp" for q
    using R(2) [OF that(3)] quiet(2) f2 [OF that(1,4)] f2(2) [OF that(1) temp_path_neq(2) that(2)] that(4) by simp
  have sys: "syscall d = (dk_faults d (dk_calls d), d0)"
    by (simp add: d0_def syscall_def)
  have outcome: "(if CHR ''/'' \<notin> set path then (d, ERROR) else if dk_faults d (dk_calls d) \<noteq> None then (d0, ERROR)
      else if fail s1 then (d1, s1) else case (if fail s2 then (d2, s2) else if fail s3 then (d3, s3)
      else if fail s4 then (d4, s4) else if fail s5 then (d5, s5) else (d6, s6)) of (x, y) \<Rightarrow> (file_remove ?tmp x, y)) = (d', s)"
    using run by (simp only: atomic_replace_def Let_def sys 1 2 3 4 5 6 prod.case)
  consider (closed) "dk_files d' = dk_files d" "s \<noteq> OK"
    | (old) x where "s1 = OK" "s \<noteq> OK" "d' = file_remove ?tmp x" "dk_files x = dk_files d2"
    | (new) "s1 = OK" "s2 = OK" "s5 = OK" "d' = file_remove ?tmp d6"
    using outcome quiet R(1) O(2,3) d0 by (auto simp: fail_iff split: if_splits)
  then have "(dk_files d' path = dk_files d path \<or> dk_files d' path = Some new) \<and> (s = OK \<longrightarrow> dk_files d' path = Some new)
    \<and> (\<forall>q. q \<noteq> path \<and> q \<noteq> ?tmp \<longrightarrow> dk_files d' q = dk_files d q)"
  proof cases
    case closed
    then show ?thesis
      by simp
  next
    case old
    have "dk_files d' q = dk_files d q" if "q \<noteq> ?tmp" for q
      using old f2(1) [OF _ that] that by (simp add: file_remove_files)
    then show ?thesis
      using old(2) temp_path_neq(2) by blast
  next
    case new
    have "dk_files d' q = (if q = path then Some new else dk_files d q)" if "q \<noteq> ?tmp" for q
      using new f5 [OF _ _ _ that] that quiet(3) by (simp add: file_remove_files)
    then show ?thesis
      using temp_path_neq(2) by simp
  qed
  then show "dk_files d' path = dk_files d path \<or> dk_files d' path = Some new" "s = OK \<Longrightarrow> dk_files d' path = Some new"
      "q \<noteq> path \<Longrightarrow> q \<noteq> atomic_replace_temp_path path \<Longrightarrow> dk_files d' q = dk_files d q"
    by blast+
qed

section \<open>Progress\<close>

text \<open>When no system call fails, the operations on open files succeed.\<close>

definition no_faults :: "Disk \<Rightarrow> bool" where
  "no_faults d \<longleftrightarrow> (\<forall>n. dk_faults d n = None)"

lemma no_faults_files [simp]: "no_faults (d\<lparr>dk_files := f\<rparr>) = no_faults d" "no_faults (d\<lparr>dk_calls := n\<rparr>) = no_faults d"
  by (simp_all add: no_faults_def)

lemma no_faults_calls:
  assumes "no_faults d"
  shows "open_for_write path d = (d1, s, f) \<Longrightarrow> s = OK \<and> f = Some path \<and> no_faults d1"
    "open_for_append path d = (d1, s, f) \<Longrightarrow> s = OK \<and> f = Some path \<and> no_faults d1"
    "open_for_read path d = (d1, s, c) \<Longrightarrow> s = OK \<and> c = dk_files d path \<and> no_faults d1 \<and> dk_files d1 = dk_files d"
    "file_close f d = (d1, s) \<Longrightarrow> s = OK \<and> no_faults d1"
    "file_write (Some path) data d = (d1, s) \<Longrightarrow> s = OK \<and> no_faults d1"
    "file_fsync (Some path) d = (d1, s) \<Longrightarrow> s = OK \<and> no_faults d1"
    "fsync_dir d = (d1, s) \<Longrightarrow> s = OK \<and> no_faults d1"
    "file_rename src dst d = (d1, s) \<Longrightarrow> dk_files d src \<noteq> None \<Longrightarrow> s = OK \<and> no_faults d1"
    "no_faults (file_remove path d)"
  using assms
  by (auto simp: no_faults_def open_for_write_def open_for_append_def open_for_read_def file_close_def file_write_def
      file_fsync_def fsync_dir_def file_rename_def file_remove_def syscall_def Let_def split: if_splits)

lemma no_faults_fw_flush:
  "no_faults d \<Longrightarrow> fw_file w = Some path \<Longrightarrow> fw_flush w d = (w1, d1, s) \<Longrightarrow>
   s = OK \<and> no_faults d1 \<and> fw_file w1 = Some path"
  using no_faults_calls(5) [of d path "fw_buf w"]
  by (cases "file_write (fw_file w) (fw_buf w) d") (auto simp: fw_flush_def fail_iff split: if_splits)

lemma no_faults_fw_write_raw:
  assumes "no_faults d" and "fw_file w = Some path" and "fw_write_raw data w d = (w1, d1, s)"
  shows "s = OK \<and> no_faults d1 \<and> fw_file w1 = Some path"
proof -
  obtain w2 d2 s2 where 2: "fw_flush w d = (w2, d2, s2)"
    by (metis prod_cases3)
  have *: "s2 = OK \<and> no_faults d2 \<and> fw_file w2 = Some path"
    by (rule no_faults_fw_flush [OF assms(1,2) 2])
  obtain d3 s3 where 3: "file_write (Some path) data d2 = (d3, s3)"
    by fastforce
  have "s3 = OK \<and> no_faults d3"
    using no_faults_calls(5) [OF _ 3] * by blast
  then show ?thesis
    using assms * 2 3 by (auto simp: fw_write_raw_def fail_iff split: if_splits)
qed

lemma no_faults_fw_sync:
  assumes "no_faults d" and "fw_file w = Some path" and "fw_sync w d = (w1, d1, s)"
  shows "s = OK \<and> no_faults d1"
proof -
  obtain w2 d2 s2 where 2: "fw_flush w d = (w2, d2, s2)"
    by (metis prod_cases3)
  have *: "s2 = OK \<and> no_faults d2 \<and> fw_file w2 = Some path"
    by (rule no_faults_fw_flush [OF assms(1,2) 2])
  obtain d3 s3 where 3: "file_fsync (Some path) d2 = (d3, s3)"
    by fastforce
  have "s3 = OK \<and> no_faults d3"
    using no_faults_calls(6) [OF _ 3] * by blast
  then show ?thesis
    using assms * 2 3 by (auto simp: fw_sync_def fail_iff split: if_splits)
qed

lemma no_faults_fw_write_all:
  "no_faults d \<Longrightarrow> fw_file w = Some path \<Longrightarrow> fw_write_all xs w d = (w1, d1, s) \<Longrightarrow>
   s = OK \<and> no_faults d1 \<and> fw_file w1 = Some path"
proof (induction xs w d rule: fw_write_all.induct)
  case (2 x xs w d)
  obtain w' d' s' where step: "fw_write_raw x w d = (w', d', s')"
    by (metis prod_cases3)
  have "s' = OK \<and> no_faults d' \<and> fw_file w' = Some path"
    by (rule no_faults_fw_write_raw [OF 2(2,3) step])
  then show ?case
    using 2(1) [OF step [symmetric] refl refl] 2(4) step by (simp add: fail_iff)
qed simp

lemma no_faults_fw_encode_crcs:
  "no_faults d \<Longrightarrow> fw_file w = Some path \<Longrightarrow> \<forall>x\<in>set xs. frame_fits enc x \<Longrightarrow> fw_encode_crcs enc xs w d = (w1, d1, s) \<Longrightarrow>
   s = OK \<and> no_faults d1 \<and> fw_file w1 = Some path"
proof (induction xs arbitrary: w d)
  case (Cons x xs)
  obtain w' d' s' where step: "fw_encode_crc enc x w d = (w', d', s')"
    by (metis prod_cases3)
  have "fw_write_all [encode_int32 (int (length (enc x))), encode_uint32 (compute_crc32 (enc x)), enc x] w d = (w', d', s')"
    using step Cons.prems(3) by (simp add: fw_encode_crc_def frame_fits_def Let_def del: fw_write_all.simps)
  then have "s' = OK \<and> no_faults d' \<and> fw_file w' = Some path"
    by (rule no_faults_fw_write_all [OF Cons.prems(1,2)])
  then show ?case
    using Cons.IH [of d' w'] Cons.prems(3,4) step by (simp add: fail_iff)
qed simp

end
