(* ===== verification/Raft_Log.thy ===== *)
theory Raft_Log
  imports Model
begin

text \<open>
  \<^verbatim>\<open>src/storage/raft/raft_log.{h,cpp}\<close>: the in-memory log of one replica. The entries after the
  last snapshot are a vector; the entry at log index \<^verbatim>\<open>i\<close> sits at offset
  \<^verbatim>\<open>i - snapshot_index - 1\<close>. A side index maps the request id of a client write to its entry.

  The theory defines every operation of the class, the representation invariant \<^verbatim>\<open>log_wf\<close>
  (offsets and indices agree, the side index is the index of the stored entries), and shows that the
  merge loop of \<^verbatim>\<open>append_entries_from_leader\<close> computes the reference merge \<^verbatim>\<open>sync\<close>.
\<close>

section \<open>State and queries\<close>

record RaftLog =
  rl_log_entries :: "LogEntry list"
  rl_request_index :: "string \<rightharpoonup> LogIndex"
  rl_snapshot_index :: LogIndex
  rl_snapshot_term :: Term

definition new_RaftLog :: RaftLog where
  "new_RaftLog = \<lparr>rl_log_entries = [], rl_request_index = Map.empty, rl_snapshot_index = 0,
     rl_snapshot_term = 0\<rparr>"

definition last_log_index :: "RaftLog \<Rightarrow> LogIndex" where
  "last_log_index l = (if rl_log_entries l = [] then rl_snapshot_index l
     else le_index (last (rl_log_entries l)))"

definition last_log_term :: "RaftLog \<Rightarrow> Term" where
  "last_log_term l = (if rl_log_entries l = [] then rl_snapshot_term l
     else le_term (last (rl_log_entries l)))"

definition index_to_offset :: "RaftLog \<Rightarrow> LogIndex \<Rightarrow> int" where
  "index_to_offset l index = index - rl_snapshot_index l - 1"

definition offset_to_index :: "RaftLog \<Rightarrow> int \<Rightarrow> LogIndex" where
  "offset_to_index l offset = offset + 1 + rl_snapshot_index l"

definition term_at :: "RaftLog \<Rightarrow> LogIndex \<Rightarrow> Term" where
  "term_at l index =
    (if index = 0 then 0
     else if index = rl_snapshot_index l then rl_snapshot_term l
     else if index < rl_snapshot_index l then 0
     else let offset = index_to_offset l index in
       if offset < 0 \<or> offset \<ge> int (length (rl_log_entries l)) then 0
       else le_term (rl_log_entries l ! nat offset))"

definition entry_at :: "RaftLog \<Rightarrow> LogIndex \<Rightarrow> LogEntry option" where
  "entry_at l index =
    (let offset = index_to_offset l index in
     if offset < 0 \<or> offset \<ge> int (length (rl_log_entries l)) then None
     else Some (rl_log_entries l ! nat offset))"

definition find_request :: "RaftLog \<Rightarrow> string \<Rightarrow> LogEntry option" where
  "find_request l request_id =
    (if request_id = [] then None
     else case rl_request_index l request_id of None \<Rightarrow> None | Some i \<Rightarrow> entry_at l i)"

definition entries_from_max :: "RaftLog \<Rightarrow> LogIndex \<Rightarrow> int \<Rightarrow> LogEntry list" where
  "entries_from_max l index max_count =
    (if max_count < 0 then []
     else if index > last_log_index l \<or> max_count = 0 then []
     else let offset = index_to_offset l index; size = int (length (rl_log_entries l)) in
       if offset < 0 \<or> offset \<ge> size then []
       else drop (nat offset) (take (nat (min (offset + max_count) size)) (rl_log_entries l)))"

definition entries_from :: "RaftLog \<Rightarrow> LogIndex \<Rightarrow> LogEntry list" where
  "entries_from l index = entries_from_max l index (last_log_index l - index + 1)"

section \<open>The request index\<close>

text \<open>\<^verbatim>\<open>unordered_map::emplace\<close> keeps the entry that is already there.\<close>

definition index_request_id :: "(string \<rightharpoonup> LogIndex) \<Rightarrow> LogEntry \<Rightarrow> (string \<rightharpoonup> LogIndex)" where
  "index_request_id m e =
    (if le_request_id e = [] then m
     else if \<not> is_kv_write_op (le_op_type e) then m
     else case m (le_request_id e) of None \<Rightarrow> m(le_request_id e \<mapsto> le_index e) | Some _ \<Rightarrow> m)"

definition request_index_of :: "LogEntry list \<Rightarrow> (string \<rightharpoonup> LogIndex)" where
  "request_index_of es = foldl index_request_id Map.empty es"

definition rebuild_request_index :: "RaftLog \<Rightarrow> RaftLog" where
  "rebuild_request_index l = l\<lparr>rl_request_index := request_index_of (rl_log_entries l)\<rparr>"

section \<open>Operations that change the log\<close>

definition new_entry :: "Term \<Rightarrow> LogIndex \<Rightarrow> ProposeParam \<Rightarrow> LogEntry" where
  "new_entry term index param =
    (let entry = default_LogEntry\<lparr>le_term := term, le_index := index\<rparr> in
     case param of
       WriteProposal op key value request_id expected \<Rightarrow>
         entry\<lparr>le_op_type := op, le_key := key, le_value := value, le_expected := expected,
           le_request_id := request_id\<rparr>
     | ConfigChangeProposal op member target \<Rightarrow>
         entry\<lparr>le_op_type := op, le_config_member := member, le_config_replica_id := target\<rparr>
     | NoopProposal \<Rightarrow> entry\<lparr>le_op_type := NONE\<rparr>)"

definition log_append_new_entry :: "RaftLog \<Rightarrow> Term \<Rightarrow> ProposeParam \<Rightarrow> RaftLog \<times> LogIndex" where
  "log_append_new_entry l term param =
    (let index = last_log_index l + 1; entry = new_entry term index param in
     (l\<lparr>rl_log_entries := rl_log_entries l @ [entry],
        rl_request_index := index_request_id (rl_request_index l) entry\<rparr>, index))"

record AppendResult =
  ar_entries_to_append :: "LogEntry list"
  ar_entries_to_rewrite :: "LogEntry list option"

definition no_append_result :: AppendResult where
  "no_append_result = \<lparr>ar_entries_to_append = [], ar_entries_to_rewrite = None\<rparr>"

definition updated_last_log_index :: "LogIndex \<Rightarrow> LogEntry list \<Rightarrow> LogIndex" where
  "updated_last_log_index si upd = (if upd = [] then si else le_index (last upd))"

definition updated_get_term :: "LogIndex \<Rightarrow> Term \<Rightarrow> LogEntry list \<Rightarrow> LogIndex \<Rightarrow> Term" where
  "updated_get_term si st upd index =
    (if index = 0 then 0
     else if index < si then 0
     else if index = si then st
     else let offset = index - si - 1 in
       if offset < 0 \<or> offset \<ge> int (length upd) then 0 else le_term (upd ! nat offset))"

text \<open>\<^verbatim>\<open>std::vector::resize\<close> cuts the vector or fills it up with default entries.\<close>

definition resize_entries :: "nat \<Rightarrow> LogEntry list \<Rightarrow> LogEntry list" where
  "resize_entries n xs = take n xs @ replicate (n - length xs) default_LogEntry"

fun merge_loop :: "LogIndex \<Rightarrow> Term \<Rightarrow> LogEntry list \<Rightarrow> LogEntry list \<Rightarrow> LogEntry list \<Rightarrow> bool
    \<Rightarrow> (LogEntry list \<times> LogEntry list \<times> bool) option" where
  "merge_loop si st [] upd new rewrite = Some (upd, new, rewrite)"
| "merge_loop si st (e # es) upd new rewrite =
    (let index = le_index e in
     if index \<le> si then merge_loop si st es upd new rewrite
     else if index \<le> updated_last_log_index si upd then
       (if updated_get_term si st upd index \<noteq> le_term e
        then merge_loop si st es (resize_entries (nat (index - si - 1)) upd @ [e]) (new @ [e]) True
        else merge_loop si st es upd new rewrite)
     else if index = updated_last_log_index si upd + 1
       then merge_loop si st es (upd @ [e]) (new @ [e]) rewrite
     else None)"

definition append_entries_from_leader ::
    "RaftLog \<Rightarrow> LogEntry list \<Rightarrow> Status \<times> RaftLog \<times> AppendResult" where
  "append_entries_from_leader l entries =
    (if entries = [] then (OK, l, no_append_result)
     else case merge_loop (rl_snapshot_index l) (rl_snapshot_term l) entries (rl_log_entries l) [] False of
       None \<Rightarrow> (ERROR, l, no_append_result)
     | Some (upd, new, rewrite) \<Rightarrow>
         if new = [] then (OK, l, no_append_result)
         else (OK, rebuild_request_index (l\<lparr>rl_log_entries := upd\<rparr>),
               if rewrite then no_append_result\<lparr>ar_entries_to_rewrite := Some upd\<rparr>
               else no_append_result\<lparr>ar_entries_to_append := new\<rparr>))"

definition log_truncate :: "RaftLog \<Rightarrow> LogIndex \<Rightarrow> Status \<times> RaftLog" where
  "log_truncate l new_snapshot_index =
    (if new_snapshot_index \<le> rl_snapshot_index l then (ERROR, l)
     else if new_snapshot_index > last_log_index l then (ERROR, l)
     else let new_snapshot_term = term_at l new_snapshot_index;
              keep_from = index_to_offset l (new_snapshot_index + 1) in
       (OK, rebuild_request_index (l\<lparr>rl_log_entries := drop (nat keep_from) (rl_log_entries l),
              rl_snapshot_index := new_snapshot_index, rl_snapshot_term := new_snapshot_term\<rparr>)))"

definition retained_entries_after_snapshot ::
    "RaftLog \<Rightarrow> LogIndex \<Rightarrow> Term \<Rightarrow> LogEntry list" where
  "retained_entries_after_snapshot l new_snapshot_index new_snapshot_term =
    (if new_snapshot_index \<ge> last_log_index l then []
     else if term_at l new_snapshot_index \<noteq> new_snapshot_term then []
     else let keep_from = index_to_offset l (new_snapshot_index + 1) in
       if keep_from < 0 \<or> keep_from > int (length (rl_log_entries l)) then []
       else drop (nat keep_from) (rl_log_entries l))"

definition log_install_snapshot :: "RaftLog \<Rightarrow> LogIndex \<Rightarrow> Term \<Rightarrow> RaftLog \<times> LogEntry list" where
  "log_install_snapshot l new_snapshot_index new_snapshot_term =
    (let retained = retained_entries_after_snapshot l new_snapshot_index new_snapshot_term in
     (rebuild_request_index (l\<lparr>rl_snapshot_index := new_snapshot_index,
        rl_snapshot_term := new_snapshot_term, rl_log_entries := retained\<rparr>), retained))"

definition update_entries :: "RaftLog \<Rightarrow> LogEntry list \<Rightarrow> RaftLog" where
  "update_entries l entries = rebuild_request_index (l\<lparr>rl_log_entries := entries\<rparr>)"

section \<open>The representation invariant\<close>

fun contiguous :: "LogIndex \<Rightarrow> LogEntry list \<Rightarrow> bool" where
  "contiguous i [] = True"
| "contiguous i (e # es) = (le_index e = i \<and> contiguous (i + 1) es)"

definition log_wf :: "RaftLog \<Rightarrow> bool" where
  "log_wf l \<longleftrightarrow> 0 \<le> rl_snapshot_index l
     \<and> contiguous (rl_snapshot_index l + 1) (rl_log_entries l)
     \<and> rl_request_index l = request_index_of (rl_log_entries l)"

text \<open>The reference merge: keep what agrees, replace from the first disagreement on.\<close>

fun sync :: "LogEntry list \<Rightarrow> LogEntry list \<Rightarrow> LogEntry list" where
  "sync xs [] = xs"
| "sync [] es = es"
| "sync (x # xs) (e # es) = (if le_term x = le_term e then x # sync xs es else e # es)"

text \<open>The entries the merge takes over, and whether it replaces stored ones.\<close>

fun sync_new :: "LogEntry list \<Rightarrow> LogEntry list \<Rightarrow> LogEntry list" where
  "sync_new xs [] = []"
| "sync_new [] es = es"
| "sync_new (x # xs) (e # es) = (if le_term x = le_term e then sync_new xs es else e # es)"

fun sync_conflict :: "LogEntry list \<Rightarrow> LogEntry list \<Rightarrow> bool" where
  "sync_conflict xs [] = False"
| "sync_conflict [] es = False"
| "sync_conflict (x # xs) (e # es) = (le_term x \<noteq> le_term e \<or> sync_conflict xs es)"

text \<open>Two logs that agree on the term of an entry agree on everything before it.\<close>

definition log_matching :: "RaftLog \<Rightarrow> RaftLog \<Rightarrow> bool" where
  "log_matching a b \<longleftrightarrow> (\<forall>i x y. entry_at a i = Some x \<and> entry_at b i = Some y \<and> le_term x = le_term y
     \<longrightarrow> (\<forall>j \<le> i. \<forall>x' y'. entry_at a j = Some x' \<and> entry_at b j = Some y' \<longrightarrow> x' = y'))"

text \<open>What replaying the persistence effect does to the entries on disk.\<close>

definition wal_after :: "LogEntry list \<Rightarrow> AppendResult \<Rightarrow> LogEntry list" where
  "wal_after wal r = (case ar_entries_to_rewrite r of Some es \<Rightarrow> es
     | None \<Rightarrow> wal @ ar_entries_to_append r)"

section \<open>Contiguous entry lists\<close>

lemma contiguous_nth: "contiguous i es \<Longrightarrow> k < length es \<Longrightarrow> le_index (es ! k) = i + int k"
proof (induction es arbitrary: i k)
  case (Cons e es)
  then show ?case by (cases k) auto
qed simp

lemma contiguous_append [simp]:
  "contiguous i (xs @ ys) \<longleftrightarrow> contiguous i xs \<and> contiguous (i + int (length xs)) ys"
  by (induction xs arbitrary: i) (auto simp: algebra_simps)

lemma contiguous_take: "contiguous i es \<Longrightarrow> contiguous i (take n es)"
  by (metis append_take_drop_id contiguous_append)

lemma contiguous_drop: "contiguous i es \<Longrightarrow> n \<le> length es \<Longrightarrow> contiguous (i + int n) (drop n es)"
  by (metis append_take_drop_id contiguous_append length_take min.absorb2)

lemma contiguous_last: "contiguous i es \<Longrightarrow> es \<noteq> [] \<Longrightarrow> le_index (last es) = i + int (length es) - 1"
  by (cases es rule: rev_cases) auto

lemma contiguous_inj_nth:
  "contiguous i es \<Longrightarrow> e \<in> set es \<Longrightarrow> es ! nat (le_index e - i) = e \<and> i \<le> le_index e
     \<and> le_index e < i + int (length es)"
  by (auto simp: in_set_conv_nth contiguous_nth)

section \<open>Well-formed logs: indices, terms and entries\<close>

lemma log_wfD:
  assumes "log_wf l"
  shows "0 \<le> rl_snapshot_index l" and "contiguous (rl_snapshot_index l + 1) (rl_log_entries l)"
    and "rl_request_index l = request_index_of (rl_log_entries l)"
  using assms by (simp_all add: log_wf_def)

lemma log_wf_new [simp]: "log_wf new_RaftLog"
  by (simp add: log_wf_def new_RaftLog_def request_index_of_def)

lemma last_log_index_wf:
  "log_wf l \<Longrightarrow> last_log_index l = rl_snapshot_index l + int (length (rl_log_entries l))"
  by (auto simp: last_log_index_def dest!: log_wfD(2) contiguous_last)

lemma entry_at_SomeD:
  assumes "log_wf l" and "entry_at l i = Some e"
  shows "le_index e = i" and "e \<in> set (rl_log_entries l)"
    and "rl_snapshot_index l < i" and "i \<le> last_log_index l"
  using assms contiguous_nth [OF log_wfD(2) [OF assms(1)]]
  by (auto simp: entry_at_def Let_def index_to_offset_def last_log_index_wf split: if_splits)

lemma entry_at_Some_iff:
  "log_wf l \<Longrightarrow> (\<exists>e. entry_at l i = Some e) \<longleftrightarrow> rl_snapshot_index l < i \<and> i \<le> last_log_index l"
  by (auto simp: entry_at_def Let_def index_to_offset_def last_log_index_wf)

lemma term_at_entry_at:
  "log_wf l \<Longrightarrow> entry_at l i = Some e \<Longrightarrow> term_at l i = le_term e"
  using log_wfD(1) [of l]
  by (auto simp: entry_at_def term_at_def Let_def index_to_offset_def split: if_splits)

lemma entry_at_mem:
  assumes "log_wf l" and "e \<in> set (rl_log_entries l)"
  shows "entry_at l (le_index e) = Some e"
proof -
  have "rl_log_entries l ! nat (le_index e - (rl_snapshot_index l + 1)) = e
      \<and> rl_snapshot_index l + 1 \<le> le_index e
      \<and> le_index e < rl_snapshot_index l + 1 + int (length (rl_log_entries l))"
    using contiguous_inj_nth [OF log_wfD(2) [OF assms(1)] assms(2)] .
  then show ?thesis
    by (auto simp: entry_at_def Let_def index_to_offset_def algebra_simps)
qed

lemma offset_index_inverse [simp]:
  "index_to_offset l (offset_to_index l k) = k" "offset_to_index l (index_to_offset l i) = i"
  by (simp_all add: index_to_offset_def offset_to_index_def)

section \<open>The request index names the first write of each request\<close>

lemma request_index_of_snoc [simp]:
  "request_index_of (es @ [e]) = index_request_id (request_index_of es) e"
  by (simp add: request_index_of_def)

lemma request_index_of_find:
  assumes "rid \<noteq> []"
  shows "request_index_of es rid =
    map_option le_index (find (\<lambda>e. le_request_id e = rid \<and> is_kv_write_op (le_op_type e)) es)"
proof (induction es rule: rev_induct)
  case Nil
  show ?case by (simp add: request_index_of_def)
next
  case (snoc e es)
  then show ?case
    using assms by (auto simp: index_request_id_def find_append split: option.splits)
qed

section \<open>The merge loop computes the reference merge\<close>

lemma updated_last_contiguous:
  "contiguous (si + 1) upd \<Longrightarrow> updated_last_log_index si upd = si + int (length upd)"
  by (auto simp: updated_last_log_index_def dest!: contiguous_last)

lemma sync_Nil [simp]: "sync [] es = es"
  by (cases es) simp_all

lemma sync_new_Nil [simp]: "sync_new [] es = es"
  by (cases es) simp_all

lemma sync_conflict_Nil [simp]: "\<not> sync_conflict [] es"
  by (cases es) simp_all

lemma merge_loop_sync:
  assumes "0 \<le> si" "contiguous (si + 1) (pre @ xs)" "contiguous (si + 1 + int (length pre)) es"
  shows "merge_loop si st es (pre @ xs) new rw =
    Some (pre @ sync xs es, new @ sync_new xs es, rw \<or> sync_conflict xs es)"
  using assms
proof (induction es arbitrary: pre xs new rw)
  case Nil
  then show ?case by simp
next
  case (Cons e es)
  have idx: "le_index e = si + 1 + int (length pre)"
    and rest: "contiguous (si + 1 + int (length (pre @ [z]))) es" for z :: LogEntry
    using Cons.prems(3) by (simp_all add: algebra_simps)
  show ?case
  proof (cases xs)
    case Nil
    then have last: "updated_last_log_index si (pre @ xs) = si + int (length pre)"
      using updated_last_contiguous [OF Cons.prems(2)] by simp
    have "merge_loop si st es ((pre @ [e]) @ []) (new @ [e]) rw =
        Some ((pre @ [e]) @ sync [] es, (new @ [e]) @ sync_new [] es, rw \<or> sync_conflict [] es)"
      by (rule Cons.IH [OF Cons.prems(1) _ rest]) (use Cons.prems(2) Nil idx in simp)
    then show ?thesis
      using Nil last idx by (simp add: Let_def)
  next
    case (Cons x xs')
    have last: "updated_last_log_index si (pre @ xs) = si + int (length pre) + int (length xs)"
      using updated_last_contiguous [OF Cons.prems(2)] by simp
    have tm: "updated_get_term si st (pre @ xs) (le_index e) = le_term x"
      using Cons.prems(1) idx Cons by (simp add: updated_get_term_def Let_def nth_append)
    show ?thesis
    proof (cases "le_term x = le_term e")
      case True
      have "merge_loop si st es ((pre @ [x]) @ xs') new rw =
          Some ((pre @ [x]) @ sync xs' es, new @ sync_new xs' es, rw \<or> sync_conflict xs' es)"
        by (rule Cons.IH [OF Cons.prems(1) _ rest]) (use Cons.prems(2) \<open>xs = x # xs'\<close> in simp)
      then show ?thesis
        using True tm last idx \<open>xs = x # xs'\<close> by (simp add: Let_def)
    next
      case False
      have rs: "resize_entries (nat (le_index e - si - 1)) (pre @ xs) = pre"
        using idx by (simp add: resize_entries_def)
      have "merge_loop si st es ((pre @ [e]) @ []) (new @ [e]) True =
          Some ((pre @ [e]) @ sync [] es, (new @ [e]) @ sync_new [] es, True \<or> sync_conflict [] es)"
        by (rule Cons.IH [OF Cons.prems(1) _ rest]) (use Cons.prems(2) idx in simp)
      then show ?thesis
        using False tm last idx rs \<open>xs = x # xs'\<close> by (simp add: Let_def)
    qed
  qed
qed


lemma merge_loop_skip:
  "\<forall>e \<in> set es1. le_index e \<le> si \<Longrightarrow>
    merge_loop si st (es1 @ es2) upd new rw = merge_loop si st es2 upd new rw"
  by (induction es1) (auto simp: Let_def)

lemma sync_no_new: "sync_new xs es = [] \<Longrightarrow> sync xs es = xs"
  by (induction xs es rule: sync.induct) (auto split: if_splits)

lemma sync_no_conflict: "\<not> sync_conflict xs es \<Longrightarrow> sync xs es = xs @ sync_new xs es"
  by (induction xs es rule: sync.induct) auto

lemma length_sync_ge: "length es \<le> length (sync xs es)"
  by (induction xs es rule: sync.induct) auto

lemma sync_terms: "k < length es \<Longrightarrow> le_term (sync xs es ! k) = le_term (es ! k)"
proof (induction xs es arbitrary: k rule: sync.induct)
  case (3 x xs e es)
  then show ?case by (cases k) auto
qed auto

lemma sync_contiguous: "contiguous i xs \<Longrightarrow> contiguous i es \<Longrightarrow> contiguous i (sync xs es)"
  by (induction xs es arbitrary: i rule: sync.induct) auto

lemma sync_agreeing:
  "\<forall>k. k < length xs \<and> k < length es \<and> le_term (xs ! k) = le_term (es ! k) \<longrightarrow> xs ! k = es ! k
     \<Longrightarrow> sync xs es = es \<or> sync xs es = xs \<and> take (length es) xs = es"
proof (induction xs es rule: sync.induct)
  case (3 x xs e es)
  have head: "le_term x = le_term e \<longrightarrow> x = e"
    using 3(2) by (metis length_greater_0_conv list.discI nth_Cons_0)
  have tail: "\<forall>k. k < length xs \<and> k < length es \<and> le_term (xs ! k) = le_term (es ! k) \<longrightarrow> xs ! k = es ! k"
    using 3(2) by (metis Suc_less_eq length_Cons nth_Cons_Suc)
  show ?case
    using head 3(1) [OF _ tail] by auto
qed auto

section \<open>Appending the leader's entries\<close>

text \<open>
  The number of stored entries before the batch, the part of a batch that is not covered by the
  snapshot, and the log the reference merge leaves for a batch that starts at index \<^verbatim>\<open>a\<close>.
\<close>

definition batch_start :: "RaftLog \<Rightarrow> LogIndex \<Rightarrow> nat" where
  "batch_start l a = nat (max a (rl_snapshot_index l + 1) - rl_snapshot_index l - 1)"

definition batch_rest :: "RaftLog \<Rightarrow> LogIndex \<Rightarrow> LogEntry list \<Rightarrow> LogEntry list" where
  "batch_rest l a es = drop (nat (rl_snapshot_index l + 1 - a)) es"

definition merged_entries :: "RaftLog \<Rightarrow> LogIndex \<Rightarrow> LogEntry list \<Rightarrow> LogEntry list" where
  "merged_entries l a es = take (batch_start l a) (rl_log_entries l)
     @ sync (drop (batch_start l a) (rl_log_entries l)) (batch_rest l a es)"

lemma batch_rest_contiguous:
  assumes "contiguous a es" and "batch_rest l a es \<noteq> []"
  shows "contiguous (rl_snapshot_index l + 1 + int (batch_start l a)) (batch_rest l a es)"
proof -
  let ?d = "nat (rl_snapshot_index l + 1 - a)"
  have "?d \<le> length es"
    using assms(2) by (auto simp: batch_rest_def)
  then have "contiguous (a + int ?d) (drop ?d es)"
    by (rule contiguous_drop [OF assms(1)])
  moreover have "a + int ?d = rl_snapshot_index l + 1 + int (batch_start l a)"
    by (auto simp: batch_start_def)
  ultimately show ?thesis by (simp add: batch_rest_def)
qed

lemma batch_start_le:
  "log_wf l \<Longrightarrow> a \<le> last_log_index l + 1 \<Longrightarrow> batch_start l a \<le> length (rl_log_entries l)"
  by (auto simp: batch_start_def last_log_index_wf)

lemma merge_loop_log:
  assumes wf: "log_wf l" and es: "contiguous a es" and a: "a \<le> last_log_index l + 1"
  defines "xs \<equiv> drop (batch_start l a) (rl_log_entries l)"
  shows "merge_loop (rl_snapshot_index l) (rl_snapshot_term l) es (rl_log_entries l) [] False =
    Some (merged_entries l a es, sync_new xs (batch_rest l a es), sync_conflict xs (batch_rest l a es))"
proof -
  let ?si = "rl_snapshot_index l" and ?p = "batch_start l a" and ?d = "nat (rl_snapshot_index l + 1 - a)"
  let ?E = "rl_log_entries l" and ?es' = "batch_rest l a es"
  have "le_index e \<le> ?si" if "e \<in> set (take ?d es)" for e
    using that contiguous_inj_nth [OF contiguous_take [OF es]] by fastforce
  then have "merge_loop ?si (rl_snapshot_term l) (take ?d es @ ?es') ?E [] False
      = merge_loop ?si (rl_snapshot_term l) ?es' ?E [] False"
    by (intro merge_loop_skip) auto
  then have skip: "merge_loop ?si (rl_snapshot_term l) es ?E [] False
      = merge_loop ?si (rl_snapshot_term l) ?es' (take ?p ?E @ xs) [] False"
    by (simp add: batch_rest_def xs_def)
  show ?thesis
  proof (cases "?es' = []")
    case True
    then show ?thesis by (simp add: skip merged_entries_def xs_def)
  next
    case False
    have len: "length (take ?p ?E) = ?p"
      using batch_start_le [OF wf a] by simp
    have "merge_loop ?si (rl_snapshot_term l) ?es' (take ?p ?E @ xs) [] False
        = Some (take ?p ?E @ sync xs ?es', [] @ sync_new xs ?es', False \<or> sync_conflict xs ?es')"
      by (rule merge_loop_sync)
        (use wf log_wfD batch_rest_contiguous [OF es False] len in \<open>simp_all add: xs_def\<close>)
    then show ?thesis by (simp add: skip merged_entries_def xs_def)
  qed
qed

lemma append_entries_from_leader_merged:
  assumes wf: "log_wf l" and es: "contiguous a es" and a: "a \<le> last_log_index l + 1"
  shows "\<exists>r. append_entries_from_leader l es = (OK, update_entries l (merged_entries l a es), r)
    \<and> wal_after (rl_log_entries l) r = merged_entries l a es"
proof -
  let ?xs = "drop (batch_start l a) (rl_log_entries l)" and ?es' = "batch_rest l a es"
  have same: "update_entries l (rl_log_entries l) = l"
    using log_wfD(3) [OF wf] by (simp add: update_entries_def rebuild_request_index_def)
  show ?thesis
  proof (cases "es = [] \<or> sync_new ?xs ?es' = []")
    case True
    then have "sync ?xs ?es' = ?xs"
      using sync_no_new by (auto simp: batch_rest_def)
    then have "merged_entries l a es = rl_log_entries l"
      by (simp add: merged_entries_def)
    then show ?thesis
      using True same merge_loop_log [OF assms]
      by (auto simp: append_entries_from_leader_def wal_after_def no_append_result_def)
  next
    case False
    then show ?thesis
      using merge_loop_log [OF assms] sync_no_conflict [of ?xs ?es']
      by (auto simp: append_entries_from_leader_def wal_after_def no_append_result_def
          update_entries_def merged_entries_def)
  qed
qed

lemma merged_entries_contiguous:
  assumes wf: "log_wf l" and es: "contiguous a es" and a: "a \<le> last_log_index l + 1"
  shows "contiguous (rl_snapshot_index l + 1) (merged_entries l a es)"
proof -
  have p: "batch_start l a \<le> length (rl_log_entries l)"
    by (rule batch_start_le [OF wf a])
  note c = log_wfD(2) [OF wf]
  show ?thesis
  proof (cases "batch_rest l a es = []")
    case True
    then show ?thesis using c by (simp add: merged_entries_def)
  next
    case False
    then show ?thesis
      using p contiguous_take [OF c] contiguous_drop [OF c p]
        sync_contiguous batch_rest_contiguous [OF es False]
      by (simp add: merged_entries_def min_def)
  qed
qed

lemma update_entries_sel [simp]:
  "rl_log_entries (update_entries l es) = es"
  "rl_snapshot_index (update_entries l es) = rl_snapshot_index l"
  "rl_snapshot_term (update_entries l es) = rl_snapshot_term l"
  "rl_request_index (update_entries l es) = request_index_of es"
  by (simp_all add: update_entries_def rebuild_request_index_def)

lemma update_entries_wf:
  "0 \<le> rl_snapshot_index l \<Longrightarrow> contiguous (rl_snapshot_index l + 1) es \<Longrightarrow> log_wf (update_entries l es)"
  by (simp add: log_wf_def)

lemma merged_wf:
  "log_wf l \<Longrightarrow> contiguous a es \<Longrightarrow> a \<le> last_log_index l + 1 \<Longrightarrow>
    log_wf (update_entries l (merged_entries l a es))"
  by (simp add: update_entries_wf merged_entries_contiguous log_wfD(1))

lemma entry_at_merged_before:
  assumes wf: "log_wf l" and a: "a \<le> last_log_index l + 1" and i: "i < a"
  shows "entry_at (update_entries l (merged_entries l a es)) i = entry_at l i"
proof -
  have "batch_start l a \<le> length (rl_log_entries l)"
    by (rule batch_start_le [OF wf a])
  then show ?thesis
    using i by (auto simp: entry_at_def Let_def index_to_offset_def merged_entries_def nth_append
        batch_start_def)
qed

lemma batch_rest_nth:
  assumes es: "contiguous a es" and e: "e \<in> set es" and vis: "rl_snapshot_index l < le_index e"
  defines "k \<equiv> nat (le_index e - rl_snapshot_index l - 1) - batch_start l a"
  shows "k < length (batch_rest l a es)" and "batch_rest l a es ! k = e"
    and "nat (le_index e - rl_snapshot_index l - 1) = batch_start l a + k"
proof -
  have mem: "es ! nat (le_index e - a) = e" "a \<le> le_index e" "le_index e < a + int (length es)"
    using contiguous_inj_nth [OF es e] by simp_all
  then have "nat (rl_snapshot_index l + 1 - a) + k = nat (le_index e - a)"
    using vis by (auto simp: k_def batch_start_def)
  then show "k < length (batch_rest l a es)" "batch_rest l a es ! k = e"
    using mem by (auto simp: batch_rest_def)
  show "nat (le_index e - rl_snapshot_index l - 1) = batch_start l a + k"
    using vis mem by (auto simp: k_def batch_start_def)
qed

lemma term_at_merged_batch:
  assumes wf: "log_wf l" and es: "contiguous a es" and a: "a \<le> last_log_index l + 1"
    and e: "e \<in> set es" and vis: "rl_snapshot_index l < le_index e"
  shows "term_at (update_entries l (merged_entries l a es)) (le_index e) = le_term e"
proof -
  let ?p = "batch_start l a" and ?es' = "batch_rest l a es"
  let ?xs = "drop ?p (rl_log_entries l)" and ?off = "nat (le_index e - rl_snapshot_index l - 1)"
  obtain k where k: "k < length ?es'" "?es' ! k = e" "?off = ?p + k"
    using batch_rest_nth [OF es e vis] by blast
  have len: "length (take ?p (rl_log_entries l)) = ?p"
    using batch_start_le [OF wf a] by simp
  have "merged_entries l a es ! ?off = sync ?xs ?es' ! k"
    using len k(3) by (simp add: merged_entries_def nth_append)
  then have "le_term (merged_entries l a es ! ?off) = le_term e"
    using sync_terms [OF k(1)] k(2) by simp
  moreover have "?off < length (merged_entries l a es)"
    using k length_sync_ge [of ?es' ?xs] len by (simp add: merged_entries_def)
  ultimately show ?thesis
    using vis log_wfD(1) [OF wf] by (auto simp: term_at_def Let_def index_to_offset_def)
qed

text \<open>A batch that agrees with the log up to an index leaves the log up to there as it is.\<close>

lemma sync_keeps_agreeing:
  "\<forall>k < n. k < length xs \<and> k < length es \<longrightarrow> le_term (xs ! k) = le_term (es ! k) \<Longrightarrow> n \<le> length xs \<Longrightarrow>
   take n (sync xs es) = take n xs"
proof (induction xs es arbitrary: n rule: sync.induct)
  case (3 x xs e es)
  show ?case
  proof (cases n)
    case (Suc m)
    have "le_term x = le_term e"
      using 3(2) Suc by force
    moreover have "\<forall>k < m. k < length xs \<and> k < length es \<longrightarrow> le_term (xs ! k) = le_term (es ! k)"
      using 3(2) Suc by (metis Suc_less_eq length_Cons nth_Cons_Suc)
    ultimately show ?thesis
      using 3(1,3) Suc by simp
  qed simp
qed auto

lemma merged_keeps_agreeing:
  assumes wf: "log_wf l" and es: "contiguous a es" and a: "a \<le> last_log_index l + 1"
    and c: "c \<le> last_log_index l"
    and agree: "\<forall>e \<in> set es. rl_snapshot_index l < le_index e \<and> le_index e \<le> c
      \<longrightarrow> term_at l (le_index e) = le_term e"
  shows "take (nat (c - rl_snapshot_index l)) (merged_entries l a es)
    = take (nat (c - rl_snapshot_index l)) (rl_log_entries l)"
proof -
  let ?E = "rl_log_entries l" and ?p = "batch_start l a" and ?R = "batch_rest l a es"
    and ?n = "nat (c - rl_snapshot_index l)"
  have p: "?p \<le> length ?E"
    by (rule batch_start_le [OF wf a])
  have n: "?n \<le> length ?E"
    using c last_log_index_wf [OF wf] by simp
  have "take (?n - ?p) (sync (drop ?p ?E) ?R) = take (?n - ?p) (drop ?p ?E)"
  proof (intro sync_keeps_agreeing allI impI)
    fix k
    assume k: "k < ?n - ?p" "k < length (drop ?p ?E) \<and> k < length ?R"
    then have R: "?R \<noteq> []" "?R ! k \<in> set es"
      using set_drop_subset [of _ es] by (auto simp: batch_rest_def dest: nth_mem)
    have i: "le_index (?R ! k) = rl_snapshot_index l + 1 + int ?p + int k"
      using contiguous_nth [OF batch_rest_contiguous [OF es R(1)]] k(2) by blast
    then have "term_at l (le_index (?R ! k)) = le_term (?R ! k)"
      using agree R(2) k(1) by auto
    moreover have "term_at l (le_index (?R ! k)) = le_term (?E ! (?p + k))"
      using i k(2) log_wfD(1) [OF wf] by (auto simp: term_at_def Let_def index_to_offset_def nat_add_distrib)
    ultimately show "le_term (drop ?p ?E ! k) = le_term (?R ! k)"
      using k(2) p by simp
  qed (use n p in auto)
  note keep = this
  show ?thesis
  proof (cases "?n \<le> ?p")
    case True
    then show ?thesis
      using p by (simp add: merged_entries_def min_def)
  next
    case False
    then have "take ?n (merged_entries l a es) = take ?p ?E @ take (?n - ?p) (drop ?p ?E)"
      using p n keep by (auto simp: merged_entries_def min_def)
    also have "\<dots> = take ?n ?E"
      using take_add [of ?p "?n - ?p" ?E] False by simp
    finally show ?thesis .
  qed
qed

section \<open>Log matching\<close>

lemma log_matchingD:
  "log_matching a b \<Longrightarrow> entry_at a i = Some x \<Longrightarrow> entry_at b i = Some y \<Longrightarrow> le_term x = le_term y \<Longrightarrow>
    j \<le> i \<Longrightarrow> entry_at a j = Some x' \<Longrightarrow> entry_at b j = Some y' \<Longrightarrow> x' = y'"
  unfolding log_matching_def by blast

text \<open>
  A batch cut out of a log that matches the receiver's log either leaves the receiver as it is or
  replaces everything from the start of the batch on.
\<close>

lemma merged_matching_cases:
  assumes wf: "log_wf l" and es: "contiguous a es" and a: "a \<le> last_log_index l + 1"
    and lm: "log_matching L l" and cut: "\<forall>e \<in> set es. entry_at L (le_index e) = Some e"
  shows "merged_entries l a es = rl_log_entries l
      \<and> (\<forall>e \<in> set es. rl_snapshot_index l < le_index e \<longrightarrow> entry_at l (le_index e) = Some e)
    \<or> merged_entries l a es = take (batch_start l a) (rl_log_entries l) @ batch_rest l a es \<and> es \<noteq> []"
proof (cases "batch_rest l a es = []")
  case True
  then have "\<not> rl_snapshot_index l < le_index e" if "e \<in> set es" for e
    using batch_rest_nth(1) [OF es that, of l] by auto
  then show ?thesis using True by (auto simp: merged_entries_def)
next
  case False
  let ?p = "batch_start l a" and ?es' = "batch_rest l a es" and ?E = "rl_log_entries l"
  have p: "?p \<le> length ?E"
    by (rule batch_start_le [OF wf a])
  have at: "entry_at l (le_index (?es' ! k)) = Some (drop ?p ?E ! k)"
    if k: "k < length (drop ?p ?E)" "k < length ?es'" for k
  proof -
    have "le_index (?es' ! k) = rl_snapshot_index l + 1 + int ?p + int k"
      using contiguous_nth [OF batch_rest_contiguous [OF es False] k(2)] .
    then show ?thesis
      using k p by (auto simp: entry_at_def Let_def index_to_offset_def nat_add_distrib)
  qed
  have agree: "drop ?p ?E ! k = ?es' ! k"
    if k: "k < length (drop ?p ?E)" "k < length ?es'" "le_term (drop ?p ?E ! k) = le_term (?es' ! k)" for k
  proof -
    have "?es' ! k \<in> set es"
      using k(2) set_drop_subset [of _ es] by (auto simp: batch_rest_def dest: nth_mem)
    then have "entry_at L (le_index (?es' ! k)) = Some (?es' ! k)"
      using cut by blast
    then show ?thesis
      using log_matchingD [OF lm _ at [OF k(1,2)] _ order.refl] at [OF k(1,2)] k(3) by metis
  qed
  consider "sync (drop ?p ?E) ?es' = ?es'"
    | "sync (drop ?p ?E) ?es' = drop ?p ?E" "take (length ?es') (drop ?p ?E) = ?es'"
    using sync_agreeing [of "drop ?p ?E" ?es'] agree by blast
  then show ?thesis
  proof cases
    case 1
    then show ?thesis using False by (auto simp: merged_entries_def batch_rest_def)
  next
    case 2
    have "entry_at l (le_index e) = Some e" if e: "e \<in> set es" "rl_snapshot_index l < le_index e" for e
    proof -
      obtain k where k: "k < length ?es'" "?es' ! k = e"
        using batch_rest_nth [OF es e] by blast
      then have "k < length (drop ?p ?E)" "drop ?p ?E ! k = e"
        using 2(2) by (metis length_take min_less_iff_conj) (metis 2(2) k nth_take)
      then show ?thesis using at [of k] k by simp
    qed
    then show ?thesis using 2(1) by (simp add: merged_entries_def)
  qed
qed

text \<open>Every index of the merged log beyond the batch start holds an entry of the batch.\<close>

lemma entry_at_replaced:
  assumes wf: "log_wf l" and es: "contiguous a es" and a: "a \<le> last_log_index l + 1"
    and m: "merged_entries l a es = take (batch_start l a) (rl_log_entries l) @ batch_rest l a es"
    and i: "a \<le> i" and e: "entry_at (update_entries l (merged_entries l a es)) i = Some e"
  shows "e \<in> set es"
proof -
  let ?p = "batch_start l a"
  have len: "length (take ?p (rl_log_entries l)) = ?p"
    using batch_start_le [OF wf a] by simp
  have off: "i - rl_snapshot_index l - 1 \<ge> 0" "nat (i - rl_snapshot_index l - 1) < length (merged_entries l a es)"
    and nth: "merged_entries l a es ! nat (i - rl_snapshot_index l - 1) = e"
    using e by (auto simp: entry_at_def Let_def index_to_offset_def split: if_splits)
  have "?p \<le> nat (i - rl_snapshot_index l - 1)"
    using i off by (auto simp: batch_start_def)
  then have "e \<in> set (batch_rest l a es)"
    using off nth len by (auto simp: m nth_append dest: nth_mem)
  then show ?thesis
    using set_drop_subset by (fastforce simp: batch_rest_def)
qed

section \<open>Operations keep the invariant\<close>

lemma rebuild_wf:
  "0 \<le> rl_snapshot_index l \<Longrightarrow> contiguous (rl_snapshot_index l + 1) (rl_log_entries l) \<Longrightarrow>
    log_wf (rebuild_request_index l)"
  by (simp add: log_wf_def rebuild_request_index_def)

lemma new_entry_sel [simp]:
  "le_term (new_entry t i p) = t" "le_index (new_entry t i p) = i"
  by (cases p; simp add: new_entry_def)+

lemma log_append_new_entry_wf: "log_wf l \<Longrightarrow> log_wf (fst (log_append_new_entry l t p))"
  by (simp add: log_append_new_entry_def Let_def log_wf_def last_log_index_wf)

lemma retained_contiguous:
  assumes "log_wf l"
  shows "contiguous (i + 1) (retained_entries_after_snapshot l i t)"
proof -
  have "contiguous (rl_snapshot_index l + 1 + int (nat (i - rl_snapshot_index l)))
      (drop (nat (i - rl_snapshot_index l)) (rl_log_entries l))"
    if "i - rl_snapshot_index l \<le> int (length (rl_log_entries l))" "0 \<le> i - rl_snapshot_index l"
    using that by (intro contiguous_drop [OF log_wfD(2) [OF assms]]) auto
  then show ?thesis
    by (auto simp: retained_entries_after_snapshot_def Let_def index_to_offset_def add.commute)
qed

lemma retained_agreeing:
  assumes "log_wf l" and "rl_snapshot_index l \<le> i" and "i \<le> last_log_index l" and "term_at l i = t"
  shows "retained_entries_after_snapshot l i t = drop (nat (i - rl_snapshot_index l)) (rl_log_entries l)"
  using assms last_log_index_wf [OF assms(1)] by (auto simp: retained_entries_after_snapshot_def Let_def index_to_offset_def)

lemma log_install_snapshot_wf:
  "log_wf l \<Longrightarrow> 0 \<le> i \<Longrightarrow> log_wf (fst (log_install_snapshot l i t))"
  by (simp add: log_install_snapshot_def Let_def rebuild_wf retained_contiguous)

lemma log_truncate_wf:
  assumes "log_wf l" and "log_truncate l i = (OK, l')"
  shows "log_wf l'"
proof -
  have i: "rl_snapshot_index l < i" "i \<le> last_log_index l"
    and l': "l' = rebuild_request_index (l\<lparr>rl_log_entries := drop (nat (i - rl_snapshot_index l)) (rl_log_entries l),
              rl_snapshot_index := i, rl_snapshot_term := term_at l i\<rparr>)"
    using assms(2) by (auto simp: log_truncate_def Let_def index_to_offset_def split: if_splits)
  have "contiguous (rl_snapshot_index l + 1 + int (nat (i - rl_snapshot_index l)))
      (drop (nat (i - rl_snapshot_index l)) (rl_log_entries l))"
    using i assms(1) by (intro contiguous_drop log_wfD(2)) (auto simp: last_log_index_wf)
  then show ?thesis
    using i log_wfD(1) [OF assms(1)] by (simp add: l' rebuild_wf algebra_simps)
qed

lemma entry_at_drop:
  assumes "log_wf l" and "rl_snapshot_index l \<le> i"
  shows "entry_at (l\<lparr>rl_log_entries := drop (nat (i - rl_snapshot_index l)) (rl_log_entries l),
      rl_snapshot_index := i, rl_snapshot_term := t, rl_request_index := m\<rparr>) j
    = (if j \<le> i then None else entry_at l j)"
proof (cases "j \<le> i \<or> int (length (rl_log_entries l)) \<le> j - rl_snapshot_index l - 1")
  case True
  then show ?thesis
    using assms(2) by (auto simp: entry_at_def Let_def index_to_offset_def)
next
  case False
  then have "nat (i - rl_snapshot_index l) + nat (j - i - 1) = nat (j - rl_snapshot_index l - 1)"
    using assms(2) by arith
  then show ?thesis
    using False assms(2) by (auto simp: entry_at_def Let_def index_to_offset_def)
qed

section \<open>Slices of the log\<close>

lemma entries_from_max_slice:
  assumes wf: "log_wf l" and vis: "rl_snapshot_index l < i" and n: "0 \<le> n"
  shows "contiguous i (entries_from_max l i n)"
    and "e \<in> set (entries_from_max l i n) \<Longrightarrow> entry_at l (le_index e) = Some e"
    and "int (length (entries_from_max l i n)) = min n (max 0 (last_log_index l - i + 1))"
proof -
  let ?k = "nat (i - rl_snapshot_index l - 1)" and ?E = "rl_log_entries l"
  have last: "last_log_index l = rl_snapshot_index l + int (length ?E)"
    by (rule last_log_index_wf [OF wf])
  have eq: "entries_from_max l i n =
      (if n = 0 \<or> last_log_index l < i then [] else take (nat n) (drop ?k ?E))"
  proof -
    have "drop ?k (take (nat (min (int ?k + n) (int (length ?E)))) ?E) = take (nat n) (drop ?k ?E)"
      using n by (auto simp: take_drop min_def nat_add_distrib add.commute)
    then show ?thesis
      using n vis last by (auto simp: entries_from_max_def Let_def index_to_offset_def)
  qed
  have "contiguous (rl_snapshot_index l + 1 + int ?k) (drop ?k ?E)" if "i \<le> last_log_index l"
    using that last vis by (intro contiguous_drop [OF log_wfD(2) [OF wf]]) auto
  then show "contiguous i (entries_from_max l i n)"
    using vis by (auto simp: eq intro!: contiguous_take)
  show "entry_at l (le_index e) = Some e" if "e \<in> set (entries_from_max l i n)"
    using that by (auto simp: eq split: if_splits intro!: entry_at_mem [OF wf]
        dest: in_set_takeD in_set_dropD)
  show "int (length (entries_from_max l i n)) = min n (max 0 (last_log_index l - i + 1))"
    using n vis last by (auto simp: eq)
qed

section \<open>Properties\<close>

text \<open>
  C1. A follower that accepts a contiguous batch of entries from the leader, starting no later than
  the index after its last entry, keeps its log well formed, keeps every entry before the batch,
  holds at every index of the batch (past its snapshot) an entry of the batch's term, and the
  effect it hands to the write-ahead log turns the stored entries into exactly the new log.
\<close>

theorem append_entries_correct:
  assumes "log_wf l" and "contiguous a es" and "a \<le> last_log_index l + 1"
  shows "\<exists>l' r. append_entries_from_leader l es = (OK, l', r) \<and> log_wf l'
    \<and> rl_snapshot_index l' = rl_snapshot_index l \<and> rl_snapshot_term l' = rl_snapshot_term l
    \<and> (\<forall>i < a. entry_at l' i = entry_at l i)
    \<and> (\<forall>e \<in> set es. rl_snapshot_index l < le_index e \<longrightarrow> term_at l' (le_index e) = le_term e)
    \<and> wal_after (rl_log_entries l) r = rl_log_entries l'"
proof -
  obtain r where r: "append_entries_from_leader l es = (OK, update_entries l (merged_entries l a es), r)"
      "wal_after (rl_log_entries l) r = merged_entries l a es"
    using append_entries_from_leader_merged [OF assms] by blast
  show ?thesis
    using r merged_wf [OF assms] entry_at_merged_before [OF assms(1,3)] term_at_merged_batch [OF assms]
    by simp
qed

text \<open>Entries for the witnesses of this theory.\<close>

definition demo_entry :: "Term \<Rightarrow> LogIndex \<Rightarrow> LogEntry" where
  "demo_entry t i = default_LogEntry\<lparr>le_term := t, le_index := i\<rparr>"

definition demo_log :: "LogEntry list \<Rightarrow> RaftLog" where
  "demo_log es = update_entries new_RaftLog es"

lemmas demo_defs = demo_entry_def demo_log_def default_LogEntry_def new_RaftLog_def log_wf_def
  last_log_index_def update_entries_def rebuild_request_index_def

theorem append_entries_correct_witness:
  "\<exists>l' r. append_entries_from_leader (demo_log [demo_entry 1 1, demo_entry 1 2])
      [demo_entry 1 1, demo_entry 2 2, demo_entry 2 3] = (OK, l', r) \<and> log_wf l'
    \<and> term_at l' 2 = 2 \<and> wal_after [demo_entry 1 1, demo_entry 1 2] r = rl_log_entries l'"
  using append_entries_correct [of "demo_log [demo_entry 1 1, demo_entry 1 2]" 1
      "[demo_entry 1 1, demo_entry 2 2, demo_entry 2 3]"]
  by (auto simp: demo_defs)

text \<open>
  C2. Log matching is preserved by replication: when the leader's log and the follower's log satisfy
  the log matching property, the batch is cut out of the leader's log and the follower's entry before
  the batch has the term of the leader's (the check of \<^verbatim>\<open>prev_log_index\<close>), then after the append
  the two logs still satisfy it and every entry of the batch past the snapshot is in the follower's log.
\<close>

theorem append_entries_log_matching:
  assumes wf: "log_wf l" "log_wf L" and es: "contiguous a es" and a: "a \<le> last_log_index l + 1"
    and lm: "log_matching L l" and cut: "\<forall>e \<in> set es. entry_at L (le_index e) = Some e"
    and prev: "term_at l (a - 1) = term_at L (a - 1)"
    and app: "append_entries_from_leader l es = (s, l', r)"
  shows "log_matching L l' \<and> (\<forall>e \<in> set es. rl_snapshot_index l < le_index e \<longrightarrow> entry_at l' (le_index e) = Some e)"
proof -
  have l': "l' = update_entries l (merged_entries l a es)"
    using append_entries_from_leader_merged [OF wf(1) es a] app by auto
  have wf': "log_wf l'"
    unfolding l' by (rule merged_wf [OF wf(1) es a])
  have before: "entry_at l' j = entry_at l j" if "j < a" for j
    unfolding l' using that by (rule entry_at_merged_before [OF wf(1) a])
  from merged_matching_cases [OF wf(1) es a lm cut] show ?thesis
  proof (elim disjE conjE)
    assume same: "merged_entries l a es = rl_log_entries l"
      and "\<forall>e \<in> set es. rl_snapshot_index l < le_index e \<longrightarrow> entry_at l (le_index e) = Some e"
    moreover have "l' = l"
      using log_wfD(3) [OF wf(1)] by (simp add: l' same update_entries_def rebuild_request_index_def)
    ultimately show ?thesis using lm by simp
  next
    assume repl: "merged_entries l a es = take (batch_start l a) (rl_log_entries l) @ batch_rest l a es"
      and ne: "es \<noteq> []"
    have batch: "e \<in> set es" if "entry_at l' i = Some e" "a \<le> i" for i e
      using entry_at_replaced [OF wf(1) es a repl that(2)] that(1) by (simp add: l')
    have first: "hd es \<in> set es" "le_index (hd es) = a"
      using ne es by (cases es; simp)+
    have aL: "rl_snapshot_index L < a" "a \<le> last_log_index L"
      using entry_at_SomeD(3,4) [OF wf(2)] cut first by metis+
    have below: "x = y" if j: "j < a" "entry_at L j = Some x" "entry_at l' j = Some y" for j x y
    proof -
      have yl: "entry_at l j = Some y"
        using before j by simp
      have vis: "rl_snapshot_index L < j" "rl_snapshot_index l < j"
        using entry_at_SomeD(3) [OF wf(2) j(2)] entry_at_SomeD(3) [OF wf(1) yl] by simp_all
      obtain X Y where XY: "entry_at L (a - 1) = Some X" "entry_at l (a - 1) = Some Y"
        using entry_at_Some_iff [OF wf(2), of "a - 1"] entry_at_Some_iff [OF wf(1), of "a - 1"] vis j(1) aL a
        by auto
      then have "le_term X = le_term Y"
        using prev term_at_entry_at [OF wf(2)] term_at_entry_at [OF wf(1)] by metis
      then show ?thesis
        using log_matchingD [OF lm XY _ _ j(2) yl] j(1) by simp
    qed
    have "x = y" if "entry_at L j = Some x" "entry_at l' j = Some y" for j x y
    proof (cases "j < a")
      case True
      then show ?thesis using below that by blast
    next
      case False
      then have "y \<in> set es" "le_index y = j"
        using batch that entry_at_SomeD(1) [OF wf'] by simp_all
      then show ?thesis using cut that by force
    qed
    then have "log_matching L l'"
      by (auto simp: log_matching_def)
    moreover have "entry_at l' (le_index e) = Some e" if e: "e \<in> set es" "rl_snapshot_index l < le_index e" for e
    proof -
      have "e \<in> set (batch_rest l a es)"
        using batch_rest_nth(1,2) [OF es e] nth_mem by metis
      then show ?thesis
        by (intro entry_at_mem [OF wf']) (simp add: l' repl)
    qed
    ultimately show ?thesis by blast
  qed
qed

definition demo_leader :: RaftLog where
  "demo_leader = demo_log [demo_entry 1 1, demo_entry 2 2, demo_entry 2 3]"

theorem append_entries_log_matching_witness:
  "\<exists>s l' r. append_entries_from_leader (demo_log [demo_entry 1 1]) [demo_entry 2 2] = (s, l', r)
    \<and> log_matching demo_leader l' \<and> entry_at l' 2 = Some (demo_entry 2 2)"
proof -
  obtain s l' r where app: "append_entries_from_leader (demo_log [demo_entry 1 1]) [demo_entry 2 2] = (s, l', r)"
    by (cases "append_entries_from_leader (demo_log [demo_entry 1 1]) [demo_entry 2 2]") auto
  have "log_matching demo_leader (demo_log [demo_entry 1 1])"
    by (auto simp: log_matching_def entry_at_def Let_def index_to_offset_def demo_leader_def demo_defs
        nth_Cons split: if_splits nat.splits)
  then have "log_matching demo_leader l' \<and> (\<forall>e \<in> set [demo_entry 2 2].
      rl_snapshot_index (demo_log [demo_entry 1 1]) < le_index e \<longrightarrow> entry_at l' (le_index e) = Some e)"
    by (intro append_entries_log_matching [OF _ _ _ _ _ _ _ app, where a = 2])
      (simp_all add: demo_leader_def demo_defs entry_at_def term_at_def Let_def index_to_offset_def)
  then show ?thesis
    using app by (simp add: demo_defs)
qed


text \<open>What the request index finds.\<close>

lemma find_request_is_find:
  assumes "log_wf l" and "rid \<noteq> []"
  shows "find_request l rid =
    find (\<lambda>e. le_request_id e = rid \<and> is_kv_write_op (le_op_type e)) (rl_log_entries l)"
proof -
  let ?P = "\<lambda>e. le_request_id e = rid \<and> is_kv_write_op (le_op_type e)"
  show ?thesis
  proof (cases "find ?P (rl_log_entries l)")
    case None
    then show ?thesis
      using assms(2) request_index_of_find [OF assms(2)] log_wfD(3) [OF assms(1)]
      by (simp add: find_request_def)
  next
    case (Some e)
    have "entry_at l (le_index e) = Some e"
      using find_SomeD [OF Some] by (intro entry_at_mem [OF assms(1)]) blast
    then show ?thesis
      using Some assms(2) request_index_of_find [OF assms(2)] log_wfD(3) [OF assms(1)]
      by (simp add: find_request_def)
  qed
qed

text \<open>
  C3. A duplicate client request is recognised: for a well-formed log, looking a request id up gives
  the first put, delete or compare-and-set entry that carries it, and nothing when there is none.
\<close>

theorem find_request_first:
  assumes "log_wf l" and "rid \<noteq> []"
  shows "find_request l rid =
    find (\<lambda>e. le_request_id e = rid \<and> is_kv_write_op (le_op_type e)) (rl_log_entries l)"
  by (rule find_request_is_find [OF assms])

definition demo_put :: "LogIndex \<Rightarrow> string \<Rightarrow> LogEntry" where
  "demo_put i rid = (demo_entry 1 i)\<lparr>le_op_type := PUT, le_request_id := rid\<rparr>"

theorem find_request_first_witness:
  "find_request (demo_log [demo_put 1 ''a'', demo_put 2 ''b'', demo_put 3 ''a'']) ''a'' = Some (demo_put 1 ''a'')"
proof -
  let ?es = "[demo_put 1 ''a'', demo_put 2 ''b'', demo_put 3 ''a'']"
  have "log_wf (demo_log ?es)" "rl_log_entries (demo_log ?es) = ?es"
    by (simp_all add: demo_defs demo_put_def)
  moreover have "find (\<lambda>e. le_request_id e = ''a'' \<and> is_kv_write_op (le_op_type e)) ?es = Some (demo_put 1 ''a'')"
    by (simp add: demo_put_def)
  ultimately show ?thesis
    using find_request_first [of "demo_log ?es" "''a''"] by simp
qed

text \<open>
  C4. Compacting the log behind a snapshot whose last term the log agrees with drops exactly the
  entries the snapshot covers: every later entry is still at its index, the last index and the term at
  the snapshot index are what they were, and the entries handed on for the rewrite of the
  write-ahead log are the entries kept.
\<close>

theorem install_snapshot_retains:
  assumes wf: "log_wf l" and i: "rl_snapshot_index l \<le> i" "i \<le> last_log_index l"
    and t: "term_at l i = t" and ins: "log_install_snapshot l i t = (l', retained)"
  shows "log_wf l' \<and> (\<forall>j. entry_at l' j = (if j \<le> i then None else entry_at l j))
    \<and> last_log_index l' = last_log_index l \<and> rl_snapshot_index l' = i \<and> rl_snapshot_term l' = t
    \<and> retained = rl_log_entries l'"
proof -
  let ?D = "drop (nat (i - rl_snapshot_index l)) (rl_log_entries l)"
  have last: "last_log_index l = rl_snapshot_index l + int (length (rl_log_entries l))"
    by (rule last_log_index_wf [OF wf])
  have ret: "retained_entries_after_snapshot l i t = ?D"
    by (rule retained_agreeing [OF wf i t])
  have l': "l' = l\<lparr>rl_log_entries := ?D, rl_snapshot_index := i, rl_snapshot_term := t,
      rl_request_index := request_index_of ?D\<rparr>" and r: "retained = ?D"
    using ins ret by (auto simp: log_install_snapshot_def Let_def rebuild_request_index_def)
  have wf': "log_wf l'"
    using log_install_snapshot_wf [OF wf, of i t] i log_wfD(1) [OF wf] ins by simp
  have "\<forall>j. entry_at l' j = (if j \<le> i then None else entry_at l j)"
    unfolding l' using entry_at_drop [OF wf i(1)] by blast
  moreover have "last_log_index l' = last_log_index l"
    using last_log_index_wf [OF wf'] last i by (simp add: l')
  ultimately show ?thesis
    using wf' by (simp add: l' r)
qed

theorem install_snapshot_retains_witness:
  "\<exists>l' retained. log_install_snapshot demo_leader 2 2 = (l', retained) \<and> log_wf l'
    \<and> entry_at l' 1 = None \<and> entry_at l' 3 = Some (demo_entry 2 3) \<and> retained = rl_log_entries l'"
proof -
  obtain l' retained where ins: "log_install_snapshot demo_leader 2 2 = (l', retained)"
    by (cases "log_install_snapshot demo_leader 2 2") auto
  have d: "log_wf demo_leader" "rl_snapshot_index demo_leader \<le> 2" "2 \<le> last_log_index demo_leader"
      "term_at demo_leader 2 = 2" "entry_at demo_leader 3 = Some (demo_entry 2 3)"
    by (simp_all add: demo_leader_def demo_defs term_at_def entry_at_def Let_def index_to_offset_def)
  show ?thesis
    using install_snapshot_retains [OF d(1-4) ins] ins d(5) by simp
qed

end
