(* ===== verification/Wal_Store.thy ===== *)
theory Wal_Store
  imports File_Store Raft_Log
begin

text \<open>
  The write-ahead log and the stored hard state (\<^verbatim>\<open>storage/persist/wal_store.cpp\<close>,
  \<^verbatim>\<open>storage/persist/raft_meta_store.cpp\<close>).  The log file is a sequence of framed entries.  An append that
  fails or is cut off by a crash leaves the old entries and a first part of the new ones; a rewrite leaves
  the old or the new log; recovery always ends with a log that continues the snapshot without a gap.
\<close>

section \<open>The write-ahead log\<close>

record WalStore =
  ws_path :: string
  ws_file :: File

definition wal_open :: "WalStore \<Rightarrow> Disk \<Rightarrow> WalStore \<times> Disk \<times> Status" where
  "wal_open w d = (let (d1, s, f) = open_for_append (ws_path w) d in
    if fail s then (w, d1, s) else (w\<lparr>ws_file := f\<rparr>, d1, OK))"

definition wal_close :: "WalStore \<Rightarrow> Disk \<Rightarrow> WalStore \<times> Disk \<times> Status" where
  "wal_close w d = (let (d1, s) = file_close (ws_file w) d in (w\<lparr>ws_file := None\<rparr>, d1, s))"

definition wal_append :: "WalStore \<Rightarrow> LogEntry \<Rightarrow> Disk \<Rightarrow> Disk \<times> Status" where
  "wal_append w entry d =
    (let (fw, d1, s1) = fw_encode_crc encode_LogEntry entry (new_FileWriter (ws_file w)) d in
     if fail s1 then (d1, s1) else let (fw2, d2, s2) = fw_sync fw d1 in (d2, s2))"

definition wal_append_batch :: "WalStore \<Rightarrow> LogEntry list \<Rightarrow> Disk \<Rightarrow> Disk \<times> Status" where
  "wal_append_batch w entries d =
    (let (fw, d1, s1) = fw_encode_crcs encode_LogEntry entries (new_FileWriter (ws_file w)) d in
     if fail s1 then (d1, s1) else let (fw2, d2, s2) = fw_sync fw d1 in (d2, s2))"

definition rewrite_wal :: "WalStore \<Rightarrow> LogEntry list \<Rightarrow> Disk \<Rightarrow> WalStore \<times> Disk \<times> Status" where
  "rewrite_wal w entries d =
    (let tmp_path = atomic_replace_temp_path (ws_path w);
         (d1, s1, tmp) = open_for_write tmp_path d in
     if fail s1 then (w, d1, s1) else
     let (fw2, d2, s2) = fw_encode_crcs encode_LogEntry entries (new_FileWriter tmp) d1 in
     if fail s2 then (w, d2, s2) else
     let (fw3, d3, s3) = fw_flush fw2 d2 in
     if fail s3 then (w, d3, s3) else
     let (fw4, d4, s4) = fw_sync fw3 d3 in
     if fail s4 then (w, d4, s4) else
     let (d5, s5) = file_close tmp d4 in
     if fail s5 then (w, d5, s5) else
     let (w6, d6, s6) = (if ws_file w \<noteq> None then wal_close w d5 else (w, d5, OK)) in
     if fail s6 then (w6, d6, s6) else
     let (d7, s7) = file_rename tmp_path (ws_path w6) d6 in
     if fail s7 then (w6, d7, s7) else
     let (d8, s8) = fsync_dir d7 in
     if fail s8 then (w6, d8, s8) else wal_open w6 d8)"

text \<open>
  The loop of \<^verbatim>\<open>read_wal_from_disk\<close>, with the index of the entry before if there is one.  It gives the
  entries and whether it stopped at an error.
\<close>

function read_records :: "byte list \<Rightarrow> LogIndex option \<Rightarrow> LogEntry list \<times> bool" where
  "read_records data prev =
    (case decode_crc decode_LogEntry data of
       Inl s \<Rightarrow> ([], s \<noteq> GET_EOF)
     | Inr (e, rest) \<Rightarrow>
         if prev \<noteq> None \<and> le_index e \<noteq> the prev + 1 then ([], True)
         else let (es, err) = read_records rest (Some (le_index e)) in (e # es, err))"
  by pat_completeness auto
termination
  by (relation "measure (length \<circ> fst)") (auto dest: decode_crc_consumes)

declare read_records.simps [simp del]

definition read_wal_from_disk :: "string \<Rightarrow> Disk \<Rightarrow> Disk \<times> Status \<times> LogEntry list \<times> bool" where
  "read_wal_from_disk path d =
    (let (d1, s, c) = open_for_read path d in
     if fail s then (d1, s, [], False)
     else case c of None \<Rightarrow> (d1, OK, [], False) | Some data \<Rightarrow> (d1, OK, read_records data None))"

definition wal_read_batch :: "WalStore \<Rightarrow> Disk \<Rightarrow> Disk \<times> Status \<times> LogEntry list" where
  "wal_read_batch w d =
    (let (d1, s, entries, err) = read_wal_from_disk (ws_path w) d in
     if fail s then (d1, s, []) else (d1, if err then ERROR else OK, entries))"

definition wal_recover :: "WalStore \<Rightarrow> LogIndex \<Rightarrow> Disk \<Rightarrow> WalStore \<times> Disk \<times> Status \<times> LogEntry list \<times> bool" where
  "wal_recover w snapshot_index d =
    (let (d1, s1, read, err) = read_wal_from_disk (ws_path w) d in
     if fail s1 then (w, d1, s1, [], False)
     else
       let entries = filter (\<lambda>e. \<not> le_index e \<le> snapshot_index) read in
       if entries \<noteq> [] \<and> le_index (hd entries) \<noteq> snapshot_index + 1 then
         (let (w2, d2, s2) = rewrite_wal w [] d1 in (w2, d2, s2, [], True))
       else
         (let (w2, d2, s2) = rewrite_wal w entries d1 in (w2, d2, s2, entries, err)))"

section \<open>The hard state\<close>

definition raft_meta_save :: "string \<Rightarrow> RaftMeta \<Rightarrow> Disk \<Rightarrow> Disk \<times> Status" where
  "raft_meta_save path meta = atomic_replace path (\<lambda>file d.
    let (fw, d1, s1) = fw_encode_crc encode_RaftMeta meta (new_FileWriter file) d in
    if fail s1 then (d1, s1) else let (fw2, d2, s2) = fw_flush fw d1 in (d2, s2))"

definition raft_meta_load :: "string \<Rightarrow> Disk \<Rightarrow> Disk \<times> Status \<times> RaftMeta" where
  "raft_meta_load path d =
    (let (d1, s, c) = open_for_read path d in
     if fail s then (d1, s, default_RaftMeta)
     else case c of None \<Rightarrow> (d1, OK, default_RaftMeta)
       | Some data \<Rightarrow> (case decode_crc decode_RaftMeta data of
           Inl e \<Rightarrow> (d1, e, default_RaftMeta) | Inr (m, rest) \<Rightarrow> (d1, OK, m)))"

section \<open>Reading what was written\<close>

definition storable :: "LogEntry \<Rightarrow> bool" where
  "storable e \<longleftrightarrow> fits_LogEntry e \<and> frame_fits encode_LogEntry e"

lemma read_frame:
  "storable e \<Longrightarrow> decode_crc decode_LogEntry (frame encode_LogEntry e @ rest) = Inr (e, rest)"
  using log_entry.frame_roundtrip [of e "frame encode_LogEntry e" rest] by (simp add: storable_def encode_crc_frame)

lemma read_torn_frame:
  assumes "storable e" and "frame encode_LogEntry e = part @ lost" and "lost \<noteq> []"
  shows "decode_crc decode_LogEntry part = Inl (if part = [] then GET_EOF else PARTIAL_READ)"
  using log_entry.frame_torn [of e "frame encode_LogEntry e" part lost] assms by (simp add: storable_def encode_crc_frame)

lemma read_records_frames:
  assumes "list_all storable es" and "contiguous i es"
  shows "read_records (frames encode_LogEntry es @ tail) (if start then None else Some (i - 1)) =
    (let (rest, err) = read_records tail (if es = [] then (if start then None else Some (i - 1)) else Some (le_index (last es)))
     in (es @ rest, err))"
  using assms
proof (induction es arbitrary: i start)
  case Nil
  then show ?case
    by (simp add: case_prod_beta)
next
  case (Cons e es)
  have "decode_crc decode_LogEntry (frame encode_LogEntry e @ frames encode_LogEntry es @ tail)
      = Inr (e, frames encode_LogEntry es @ tail)"
    using Cons.prems(1) by (simp add: read_frame)
  then show ?case
    using Cons.IH [of "i + 1" False] Cons.prems
    by (auto simp: read_records.simps [of "frame encode_LogEntry e @ _"] case_prod_beta Let_def)
qed

lemma read_records_Nil [simp]: "read_records [] prev = ([], False)"
  by (simp add: read_records.simps [of "[]"] decode_crc_def decode_int32_def read_raw_def and_then_def)

lemma read_records_torn:
  assumes "storable e" and "frame encode_LogEntry e = part @ lost" and "lost \<noteq> []"
  shows "read_records part prev = ([], part \<noteq> [])"
  using read_torn_frame [OF assms] by (simp add: read_records.simps [of part])

text \<open>A cut through a sequence of frames keeps whole frames and a first part of the next.\<close>

lemma take_frames:
  "\<exists>n part. n \<le> length es \<and> take k (frames encode_LogEntry es) = frames encode_LogEntry (take n es) @ part
     \<and> (part = [] \<or> n < length es \<and> (\<exists>lost. lost \<noteq> [] \<and> frame encode_LogEntry (es ! n) = part @ lost))
     \<and> (length (frames encode_LogEntry es) \<le> k \<longrightarrow> n = length es \<and> part = [])"
proof (induction es arbitrary: k)
  case (Cons e es)
  let ?f = "frame encode_LogEntry e"
  show ?case
  proof (cases "length ?f \<le> k")
    case True
    obtain n part where *: "n \<le> length es"
        "take (k - length ?f) (frames encode_LogEntry es) = frames encode_LogEntry (take n es) @ part"
        "part = [] \<or> n < length es \<and> (\<exists>lost. lost \<noteq> [] \<and> frame encode_LogEntry (es ! n) = part @ lost)"
        "length (frames encode_LogEntry es) \<le> k - length ?f \<longrightarrow> n = length es \<and> part = []"
      using Cons.IH [of "k - length ?f"] by blast
    show ?thesis
    proof (rule exI [of _ "Suc n"], rule exI [of _ part], intro conjI)
      show "take k (frames encode_LogEntry (e # es)) = frames encode_LogEntry (take (Suc n) (e # es)) @ part"
        using True *(2) by simp
      show "length (frames encode_LogEntry (e # es)) \<le> k \<longrightarrow> Suc n = length (e # es) \<and> part = []"
        using True *(4) by simp
    qed (use *(1,3) in simp_all)
  next
    case False
    have lost: "\<exists>lost. lost \<noteq> [] \<and> ?f = take k ?f @ lost"
      by (intro exI [of _ "drop k ?f"]) (use False in simp)
    show ?thesis
    proof (rule exI [of _ 0], rule exI [of _ "take k ?f"], intro conjI)
      show "take k (frames encode_LogEntry (e # es)) = frames encode_LogEntry (take 0 (e # es)) @ take k ?f"
        using False by simp
      show "take k ?f = [] \<or> 0 < length (e # es)
          \<and> (\<exists>lost. lost \<noteq> [] \<and> frame encode_LogEntry ((e # es) ! 0) = take k ?f @ lost)"
        using lost by simp
    qed (use False in simp_all)
  qed
qed simp

section \<open>Results of the operations\<close>

lemma wal_append_batch_result:
  assumes "ws_file w = Some path" and "wal_append_batch w es d = (d', s)"
  shows "\<exists>k. content d' path = content d path @ take k (frames encode_LogEntry es)
      \<and> (s = OK \<longrightarrow> length (frames encode_LogEntry es) \<le> k)"
    "s = OK \<Longrightarrow> \<forall>e\<in>set es. frame_fits encode_LogEntry e" "q \<noteq> path \<Longrightarrow> dk_files d' q = dk_files d q"
    "dk_files d path \<noteq> None \<Longrightarrow> dk_files d' path \<noteq> None"
proof -
  let ?fw = "new_FileWriter (Some path)"
  obtain fw d1 s1 where 1: "fw_encode_crcs encode_LogEntry es ?fw d = (fw, d1, s1)"
    by (metis prod_cases3)
  obtain fw2 d2 s2 where 2: "fw_sync fw d1 = (fw2, d2, s2)"
    by (metis prod_cases3)
  have fo: "fw_file ?fw = Some path"
    by (simp add: new_FileWriter_def)
  have W: "wrote path ?fw d (frames encode_LogEntry es) fw d1 s1" "s1 = OK \<longrightarrow> (\<forall>x\<in>set es. frame_fits encode_LogEntry x)"
    using fw_encode_crcs_wrote [OF fo 1] by simp_all
  have file1: "fw_file fw = Some path"
    using W(1) fo by (simp add: wrote_def)
  note S = fw_sync_wrote [OF file1 2]
  have eq: "d' = (if fail s1 then d1 else d2)" "s = (if fail s1 then s1 else s2)"
    using assms 1 2 by (auto simp: wal_append_batch_def split: if_splits)
  show "\<exists>k. content d' path = content d path @ take k (frames encode_LogEntry es)
      \<and> (s = OK \<longrightarrow> length (frames encode_LogEntry es) \<le> k)"
  proof (cases "s1 = OK")
    case True
    then show ?thesis
      using wrote_flushed [OF W(1) True S] by (simp add: eq)
  next
    case False
    then show ?thesis
      using wrote_failed [OF W(1)] by (auto simp: eq fail_iff)
  qed
  show "s = OK \<Longrightarrow> \<forall>e\<in>set es. frame_fits encode_LogEntry e"
    using W(2) by (auto simp: eq fail_iff split: if_splits)
  show "q \<noteq> path \<Longrightarrow> dk_files d' q = dk_files d q" "dk_files d path \<noteq> None \<Longrightarrow> dk_files d' path \<noteq> None"
    using W(1) S(1) by (auto simp: eq wrote_def)
qed

text \<open>The temporary file of a rewrite holds the new log before it is renamed.\<close>

lemma written_file:
  assumes "dk_files d path = Some []" and "fw_encode_crcs enc xs (new_FileWriter (Some path)) d = (fw1, d1, OK)"
    and "fw_flush fw1 d1 = (fw2, d2, OK)"
  shows "dk_files d2 path = Some (frames enc xs)" "\<forall>x\<in>set xs. frame_fits enc x" "fw_file fw2 = Some path" "fw_buf fw2 = []"
    "q \<noteq> path \<Longrightarrow> dk_files d2 q = dk_files d q"
proof -
  let ?fw = "new_FileWriter (Some path)"
  have fo: "fw_file ?fw = Some path"
    by (simp add: new_FileWriter_def)
  have W: "wrote path ?fw d (frames enc xs) fw1 d1 OK" "\<forall>x\<in>set xs. frame_fits enc x"
    using fw_encode_crcs_wrote [OF fo assms(2)] by simp_all
  have file1: "fw_file fw1 = Some path"
    using W(1) fo by (simp add: wrote_def)
  note F = fw_flush_wrote [OF file1 assms(3)]
  obtain k where "content d2 path = content d path @ take k (frames enc xs)" "length (frames enc xs) \<le> k"
    using wrote_flushed [OF W(1) refl F(1)] F(2) by auto
  then have "content d2 path = frames enc xs"
    using assms(1) by (simp add: content_def)
  moreover have "dk_files d2 path \<noteq> None"
    using W(1) F(1) assms(1) by (simp add: wrote_def)
  ultimately show "dk_files d2 path = Some (frames enc xs)"
    by (auto simp: content_def)
  show "\<forall>x\<in>set xs. frame_fits enc x" "fw_file fw2 = Some path" "fw_buf fw2 = []"
    using W(2) F file1 by (simp_all add: wrote_def)
  show "q \<noteq> path \<Longrightarrow> dk_files d2 q = dk_files d q"
    using W(1) F(1) by (simp add: wrote_def)
qed

lemma fw_step_other_files:
  assumes "fw_file w = Some path"
  shows "fw_encode_crcs enc xs w d = (w', d', s) \<Longrightarrow> q \<noteq> path \<Longrightarrow> dk_files d' q = dk_files d q \<and> fw_file w' = Some path"
    "fw_flush w d = (w', d', s) \<Longrightarrow> q \<noteq> path \<Longrightarrow> dk_files d' q = dk_files d q \<and> fw_file w' = Some path"
    "fw_sync w d = (w', d', s) \<Longrightarrow> q \<noteq> path \<Longrightarrow> dk_files d' q = dk_files d q \<and> fw_file w' = Some path"
proof -
  have *: "wrote path w d data w' d' s \<Longrightarrow> q \<noteq> path \<Longrightarrow> dk_files d' q = dk_files d q \<and> fw_file w' = Some path" for data
    using assms by (simp add: wrote_def)
  show "fw_encode_crcs enc xs w d = (w', d', s) \<Longrightarrow> q \<noteq> path \<Longrightarrow> dk_files d' q = dk_files d q \<and> fw_file w' = Some path"
    by (rule * [OF conjunct1 [OF fw_encode_crcs_wrote [OF assms]]])
  show "fw_flush w d = (w', d', s) \<Longrightarrow> q \<noteq> path \<Longrightarrow> dk_files d' q = dk_files d q \<and> fw_file w' = Some path"
    by (rule * [OF fw_flush_wrote(1) [OF assms]])
  show "fw_sync w d = (w', d', s) \<Longrightarrow> q \<noteq> path \<Longrightarrow> dk_files d' q = dk_files d q \<and> fw_file w' = Some path"
    by (rule * [OF fw_sync_wrote(1) [OF assms]])
qed

lemma fw_sync_flushed: "fw_buf w = [] \<Longrightarrow> fw_sync w d = (w', d', s) \<Longrightarrow> dk_files d' = dk_files d"
  using quiet_calls(1) by (auto simp: fw_sync_def fw_flush_def split: prod.splits)

lemma wal_close_files: "wal_close w d = (w', d', s) \<Longrightarrow> dk_files d' = dk_files d \<and> ws_path w' = ws_path w"
  using quiet_calls(2) by (auto simp: wal_close_def split: prod.splits)

lemma wal_open_files:
  assumes "wal_open w d = (w', d', s)"
  shows "ws_path w' = ws_path w" "s = OK \<Longrightarrow> ws_file w' = Some (ws_path w)" "q \<noteq> ws_path w \<Longrightarrow> dk_files d' q = dk_files d q"
    "dk_files d (ws_path w) = Some c \<Longrightarrow> dk_files d' (ws_path w) = Some c"
    "dk_files d' (ws_path w) = dk_files d (ws_path w) \<or> dk_files d' (ws_path w) = Some (content d (ws_path w))"
  using assms
  by (auto simp: wal_open_def open_for_append_def syscall_def Let_def content_def fail_iff split: if_splits option.splits)

lemma rewrite_wal_result:
  assumes run: "rewrite_wal w es d = (w', d', s)"
  shows "dk_files d' (ws_path w) = dk_files d (ws_path w)
      \<or> dk_files d' (ws_path w) = Some (frames encode_LogEntry es) \<and> (\<forall>e\<in>set es. frame_fits encode_LogEntry e)"
    "s = OK \<Longrightarrow> dk_files d' (ws_path w) = Some (frames encode_LogEntry es) \<and> ws_file w' = Some (ws_path w)
       \<and> (\<forall>e\<in>set es. frame_fits encode_LogEntry e)"
    "q \<noteq> ws_path w \<Longrightarrow> q \<noteq> atomic_replace_temp_path (ws_path w) \<Longrightarrow> dk_files d' q = dk_files d q"
    "ws_path w' = ws_path w"
proof -
  let ?p = "ws_path w" and ?tmp = "atomic_replace_temp_path (ws_path w)" and ?new = "Some (frames encode_LogEntry es)"
  obtain d1 s1 tmp where 1: "open_for_write ?tmp d = (d1, s1, tmp)" by (metis prod_cases3)
  obtain fw2 d2 s2 where 2: "fw_encode_crcs encode_LogEntry es (new_FileWriter tmp) d1 = (fw2, d2, s2)" by (metis prod_cases3)
  obtain fw3 d3 s3 where 3: "fw_flush fw2 d2 = (fw3, d3, s3)" by (metis prod_cases3)
  obtain fw4 d4 s4 where 4: "fw_sync fw3 d3 = (fw4, d4, s4)" by (metis prod_cases3)
  obtain d5 s5 where 5: "file_close tmp d4 = (d5, s5)" by fastforce
  obtain w6 d6 s6 where 6: "(if ws_file w \<noteq> None then wal_close w d5 else (w, d5, OK)) = (w6, d6, s6)" by (metis prod_cases3)
  obtain d7 s7 where 7: "file_rename ?tmp (ws_path w6) d6 = (d7, s7)" by fastforce
  obtain d8 s8 where 8: "fsync_dir d7 = (d8, s8)" by fastforce
  obtain w9 d9 s9 where 9: "wal_open w6 d8 = (w9, d9, s9)" by (metis prod_cases3)
  have outcome: "(w', d', s) = (if fail s1 then (w, d1, s1) else if fail s2 then (w, d2, s2) else if fail s3 then (w, d3, s3)
      else if fail s4 then (w, d4, s4) else if fail s5 then (w, d5, s5) else if fail s6 then (w6, d6, s6)
      else if fail s7 then (w6, d7, s7) else if fail s8 then (w6, d8, s8) else (w9, d9, s9))"
    using run by (simp only: rewrite_wal_def Let_def 1 2 3 4 5 6 7 8 9 prod.case)
  have p6: "ws_path w6 = ?p" "dk_files d6 = dk_files d5"
    using 6 wal_close_files [of w d5 w6 d6 s6] by (auto split: if_splits)
  have fo: "fw_file (new_FileWriter (Some ?tmp)) = Some ?tmp"
    by (simp add: new_FileWriter_def)
  note O = open_for_write_result [OF 1]
  have tmp: "tmp = Some ?tmp" "dk_files d1 ?tmp = Some []" "\<And>q. q \<noteq> ?tmp \<Longrightarrow> dk_files d1 q = dk_files d q" if "s1 = OK"
    using O(1) [OF that] by simp_all
  have q2: "dk_files d2 q = dk_files d q \<and> fw_file fw2 = Some ?tmp" if "s1 = OK" "q \<noteq> ?tmp" for q
    using fw_step_other_files(1) [OF fo 2 [unfolded tmp(1) [OF that(1)]] that(2)] tmp(3) [OF that] by simp
  have q3: "dk_files d3 q = dk_files d q \<and> fw_file fw3 = Some ?tmp" if "s1 = OK" "q \<noteq> ?tmp" for q
    using fw_step_other_files(2) [OF conjunct2 [OF q2 [OF that]] 3 that(2)] q2 [OF that] by simp
  have q4: "dk_files d4 q = dk_files d q" if "s1 = OK" "q \<noteq> ?tmp" for q
    using fw_step_other_files(3) [OF conjunct2 [OF q3 [OF that]] 4 that(2)] q3 [OF that] by simp
  have d5: "dk_files d5 = dk_files d4"
    by (rule quiet_calls(2) [OF 5])
  have new5: "dk_files d5 ?tmp = ?new" "\<forall>e\<in>set es. frame_fits encode_LogEntry e" if "s1 = OK" "s2 = OK" "s3 = OK"
    using written_file(1,2,4) [OF tmp(2) [OF that(1)] 2 [unfolded tmp(1) [OF that(1)] that(2)] 3 [unfolded that(3)]]
      fw_sync_flushed [OF _ 4] d5 by simp_all
  note R = file_rename_result [OF 7 [unfolded p6(1)] temp_path_neq(1)]
  have new7: "dk_files d8 q = (if q = ?p then ?new else dk_files d q)"
    if "s1 = OK" "s2 = OK" "s3 = OK" "s7 = OK" "q \<noteq> ?tmp" for q
    using R(2) [OF that(4)] new5(1) [OF that(1-3)] q4 [OF that(1,5)] d5 p6(2) quiet_calls(3) [OF 8] that(5) by simp
  note P = wal_open_files [OF 9, unfolded p6(1)]
  have new9: "dk_files d9 q = (if q = ?p then ?new else dk_files d q)"
    if "s1 = OK" "s2 = OK" "s3 = OK" "s7 = OK" "q \<noteq> ?tmp" for q
    using P(3) [of q] P(4) new7 [OF that] by (cases "q = ?p") simp_all
  consider (old) "s \<noteq> OK" "\<And>q. q \<noteq> ?tmp \<Longrightarrow> dk_files d' q = dk_files d q" "ws_path w' = ?p"
    | (new) "\<And>q. q \<noteq> ?tmp \<Longrightarrow> dk_files d' q = (if q = ?p then ?new else dk_files d q)" "ws_path w' = ?p"
        "s = OK \<Longrightarrow> ws_file w' = Some ?p" "\<forall>e\<in>set es. frame_fits encode_LogEntry e"
  proof (cases "s1 = OK \<and> s2 = OK \<and> s3 = OK \<and> s4 = OK \<and> s5 = OK \<and> s6 = OK \<and> s7 = OK")
    case True
    then have "(w', d', s) = (w6, d8, s8) \<and> s8 \<noteq> OK \<or> (w', d', s) = (w9, d9, s9)"
      using outcome by (auto simp: fail_iff split: if_splits)
    then show ?thesis
      using True new7 new9 new5(2) p6(1) P(1,2) by (intro that(2)) auto
  next
    case False
    then have *: "s \<noteq> OK" "w' = w \<or> w' = w6" "s1 = OK \<Longrightarrow> d' \<in> {d2, d3, d4, d5, d6} \<or> d' = d7 \<and> s7 \<noteq> OK" "s1 \<noteq> OK \<Longrightarrow> d' = d1"
      using outcome by (auto simp: fail_iff split: if_splits)
    have "dk_files d' q = dk_files d q" if "q \<noteq> ?tmp" for q
      using *(3,4) O(2) q2 [OF _ that] q3 [OF _ that] q4 [OF _ that] d5 p6(2) R(1) by (cases "s1 = OK") auto
    then show ?thesis
      using *(1,2) p6(1) by (intro that(1)) auto
  qed
  then have "(dk_files d' ?p = dk_files d ?p \<or> dk_files d' ?p = ?new \<and> (\<forall>e\<in>set es. frame_fits encode_LogEntry e))
    \<and> (s = OK \<longrightarrow> dk_files d' ?p = ?new \<and> ws_file w' = Some ?p \<and> (\<forall>e\<in>set es. frame_fits encode_LogEntry e))
    \<and> (\<forall>q. q \<noteq> ?p \<and> q \<noteq> ?tmp \<longrightarrow> dk_files d' q = dk_files d q) \<and> ws_path w' = ?p"
  proof cases
    case old
    then show ?thesis
      using temp_path_neq(2) by blast
  next
    case new
    then show ?thesis
      using temp_path_neq(2) by simp
  qed
  then show "dk_files d' (ws_path w) = dk_files d (ws_path w) \<or> dk_files d' (ws_path w) = ?new \<and> (\<forall>e\<in>set es. frame_fits encode_LogEntry e)"
      "s = OK \<Longrightarrow> dk_files d' (ws_path w) = ?new \<and> ws_file w' = Some (ws_path w) \<and> (\<forall>e\<in>set es. frame_fits encode_LogEntry e)"
      "q \<noteq> ws_path w \<Longrightarrow> q \<noteq> ?tmp \<Longrightarrow> dk_files d' q = dk_files d q" "ws_path w' = ws_path w"
    by blast+
qed

section \<open>Reading and recovering any file\<close>

lemma read_records_sound:
  "read_records data prev = (es, err) \<Longrightarrow>
   list_all fits_LogEntry es \<and> (\<exists>i. contiguous i es \<and> (prev \<noteq> None \<longrightarrow> i = the prev + 1))"
proof (induction data prev arbitrary: es err rule: read_records.induct)
  case (1 data prev)
  show ?case
  proof (cases "decode_crc decode_LogEntry data")
    case (Inl s)
    then show ?thesis
      using 1(2) by (auto simp: read_records.simps [of data])
  next
    case (Inr r)
    obtain e rest where r: "decode_crc decode_LogEntry data = Inr (e, rest)"
      using Inr by (cases r) simp
    obtain es' err' where rec: "read_records rest (Some (le_index e)) = (es', err')"
      by fastforce
    show ?thesis
    proof (cases "prev \<noteq> None \<and> le_index e \<noteq> the prev + 1")
      case True
      then show ?thesis
        using 1(2) r by (auto simp: read_records.simps [of data])
    next
      case False
      have "list_all fits_LogEntry es' \<and> contiguous (le_index e + 1) es'"
        using 1(1) [OF r refl False rec] by auto
      moreover have "es = e # es'"
        using 1(2) r rec False by (auto simp: read_records.simps [of data])
      ultimately show ?thesis
        using False log_entry.frame_decoded_fits [OF r] by (intro conjI exI [of _ "le_index e"]) auto
    qed
  qed
qed

lemma contiguous_filter_above:
  "contiguous a es \<Longrightarrow> \<exists>b. contiguous b (filter (\<lambda>e. \<not> le_index e \<le> i) es)"
proof (induction es arbitrary: a)
  case (Cons e es)
  show ?case
  proof (cases "le_index e \<le> i")
    case False
    have "x \<in> set es \<Longrightarrow> \<not> le_index x \<le> i" for x
      using contiguous_inj_nth [of "a + 1" es x] Cons.prems False by auto
    then have "filter (\<lambda>e. \<not> le_index e \<le> i) (e # es) = e # es"
      using False by (auto simp: filter_id_conv)
    then show ?thesis
      using Cons.prems by metis
  qed (use Cons in auto)
qed simp

text \<open>What recovery gives, whatever the file holds.\<close>

lemma wal_recover_result:
  assumes run: "wal_recover w si d = (w', d', OK, es, need)"
  shows "contiguous (si + 1) es" "dk_files d' (ws_path w) = Some (frames encode_LogEntry es)"
    "list_all storable es" "ws_path w' = ws_path w" "ws_file w' = Some (ws_path w)"
    "q \<noteq> ws_path w \<Longrightarrow> q \<noteq> atomic_replace_temp_path (ws_path w) \<Longrightarrow> dk_files d' q = dk_files d q"
    "es = [] \<or> es = filter (\<lambda>e. \<not> le_index e \<le> si) (fst (read_records (content d (ws_path w)) None))"
proof -
  obtain d1 s1 rd err where 1: "read_wal_from_disk (ws_path w) d = (d1, s1, rd, err)"
    by (metis prod_cases4)
  define kept where "kept = filter (\<lambda>e. \<not> le_index e \<le> si) rd"
  have ok1: "s1 = OK"
    using run 1 by (auto simp: wal_recover_def fail_iff split: if_splits)
  have d1: "dk_files d1 = dk_files d" "(rd, err) = read_records (content d (ws_path w)) None"
    using 1 ok1 by (auto simp: read_wal_from_disk_def open_for_read_def syscall_def content_def fail_iff Let_def
        split: if_splits option.splits prod.splits)
  obtain i where rd: "list_all fits_LogEntry rd" "contiguous i rd"
    using read_records_sound [of "content d (ws_path w)" None rd err] d1(2) by auto
  have rw: "rewrite_wal w es d1 = (w', d', OK)" "es = [] \<and> need \<or> es = kept \<and> (kept \<noteq> [] \<longrightarrow> le_index (hd kept) = si + 1)"
    using run 1 ok1 by (auto simp: wal_recover_def kept_def Let_def split: if_splits prod.splits)
  note R = rewrite_wal_result [OF rw(1)]
  have kept: "contiguous (si + 1) kept" if "kept \<noteq> [] \<longrightarrow> le_index (hd kept) = si + 1"
  proof -
    obtain b where "contiguous b kept"
      using contiguous_filter_above [OF rd(2)] by (auto simp: kept_def)
    then show ?thesis
      using that by (cases kept) auto
  qed
  show "contiguous (si + 1) es"
    using rw(2) kept by auto
  have "list_all fits_LogEntry es"
    using rw(2) rd(1) by (auto simp: kept_def list_all_iff)
  then show "list_all storable es"
    using R(2) by (auto simp: storable_def list_all_iff)
  show "dk_files d' (ws_path w) = Some (frames encode_LogEntry es)" "ws_path w' = ws_path w" "ws_file w' = Some (ws_path w)"
    using R(2,4) by simp_all
  show "q \<noteq> ws_path w \<Longrightarrow> q \<noteq> atomic_replace_temp_path (ws_path w) \<Longrightarrow> dk_files d' q = dk_files d q"
    using R(3) d1(1) by simp
  show "es = [] \<or> es = filter (\<lambda>e. \<not> le_index e \<le> si) (fst (read_records (content d (ws_path w)) None))"
    using rw(2) by (auto simp: kept_def simp flip: d1(2))
qed

text \<open>What recovery gives when the records it can read continue the snapshot.\<close>

lemma contiguous_above_hd:
  "contiguous i es \<Longrightarrow> i \<le> j + 1 \<Longrightarrow> filter (\<lambda>e. \<not> le_index e \<le> j) es \<noteq> [] \<Longrightarrow>
   le_index (hd (filter (\<lambda>e. \<not> le_index e \<le> j) es)) = j + 1"
proof (induction es arbitrary: i)
  case (Cons e es)
  then show ?case
    by (cases "le_index e \<le> j") (auto intro: Cons.IH [of "i + 1"])
qed simp

lemma wal_recover_read:
  assumes read: "read_records (content d (ws_path w)) None = (log, err)" "contiguous i log" "i \<le> si + 1"
    and run: "wal_recover w si d = (w', d', OK, es, need)"
  shows "es = filter (\<lambda>e. si < le_index e) log" "need = err"
proof -
  obtain d1 s1 rd er where 1: "read_wal_from_disk (ws_path w) d = (d1, s1, rd, er)"
    by (metis prod_cases4)
  have ok1: "s1 = OK"
    using run 1 by (auto simp: wal_recover_def fail_iff split: if_splits)
  have "(rd, er) = read_records (content d (ws_path w)) None"
    using 1 ok1 by (auto simp: read_wal_from_disk_def open_for_read_def syscall_def content_def fail_iff Let_def
        split: if_splits option.splits prod.splits)
  then have "rd = log" "er = err"
    using read(1) by simp_all
  then show "es = filter (\<lambda>e. si < le_index e) log" "need = err"
    using run 1 ok1 contiguous_above_hd [OF read(2,3)]
    by (auto simp: wal_recover_def Let_def not_le split: if_splits prod.splits)
qed

lemma read_written:
  assumes "list_all storable es" and "contiguous i es"
  shows "read_records (frames encode_LogEntry es) None = (es, False)"
  using read_records_frames [OF assms, of "[]" True] by simp

lemma read_cut_off:
  assumes "list_all storable (old @ new)" and "contiguous i (old @ new)"
  shows "\<exists>n err. n \<le> length new \<and> (length (frames encode_LogEntry new) \<le> k \<longrightarrow> n = length new \<and> \<not> err) \<and>
    read_records (frames encode_LogEntry old @ take k (frames encode_LogEntry new)) None = (old @ take n new, err)"
proof -
  obtain n part where n: "n \<le> length new" "take k (frames encode_LogEntry new) = frames encode_LogEntry (take n new) @ part"
      "part = [] \<or> n < length new \<and> (\<exists>lost. lost \<noteq> [] \<and> frame encode_LogEntry (new ! n) = part @ lost)"
      "length (frames encode_LogEntry new) \<le> k \<Longrightarrow> n = length new \<and> part = []"
    using take_frames [of new k] by blast
  have part: "read_records part prev = ([], part \<noteq> [])" for prev
    using n(3)
  proof
    assume "n < length new \<and> (\<exists>lost. lost \<noteq> [] \<and> frame encode_LogEntry (new ! n) = part @ lost)"
    then obtain lost where "n < length new" "lost \<noteq> []" "frame encode_LogEntry (new ! n) = part @ lost"
      by blast
    then show ?thesis
      using assms(1) by (intro read_records_torn) (auto simp: list_all_iff)
  qed simp
  have "list_all storable (old @ take n new)" "contiguous i (old @ take n new)"
    using assms contiguous_take [of i "old @ new" "length old + n"] by (auto simp: list_all_iff dest: in_set_takeD)
  then have "read_records (frames encode_LogEntry (old @ take n new) @ part) None = (old @ take n new, part \<noteq> [])"
    using read_records_frames [of "old @ take n new" i part True] by (simp add: part)
  moreover have "frames encode_LogEntry (old @ take n new) @ part = frames encode_LogEntry old @ take k (frames encode_LogEntry new)"
    using n(2) by (simp add: frames_def)
  ultimately show ?thesis
    using n(1,4) by (intro exI [of _ n] exI [of _ "part \<noteq> []"]) simp
qed

text \<open>Without failing system calls the operations succeed.\<close>

lemma no_faults_wal_append_batch:
  assumes "no_faults d" and "ws_file w = Some path" and "\<forall>e\<in>set es. frame_fits encode_LogEntry e"
    and "wal_append_batch w es d = (d1, s)"
  shows "s = OK \<and> no_faults d1"
proof -
  have fo: "fw_file (new_FileWriter (Some path)) = Some path"
    by (simp add: new_FileWriter_def)
  obtain fw2 d2 s2 where 2: "fw_encode_crcs encode_LogEntry es (new_FileWriter (Some path)) d = (fw2, d2, s2)"
    by (metis prod_cases3)
  obtain fw3 d3 s3 where 3: "fw_sync fw2 d2 = (fw3, d3, s3)"
    by (metis prod_cases3)
  have "s2 = OK \<and> no_faults d2 \<and> fw_file fw2 = Some path"
    by (rule no_faults_fw_encode_crcs [OF assms(1) fo assms(3) 2])
  moreover from this have "s3 = OK \<and> no_faults d3"
    using no_faults_fw_sync [OF _ _ 3] by blast
  ultimately show ?thesis
    using assms(2,4) 2 3 by (simp add: wal_append_batch_def fail_iff)
qed

lemma no_faults_rewrite_wal:
  assumes nf: "no_faults d" and fits: "\<forall>e\<in>set es. frame_fits encode_LogEntry e"
    and run: "rewrite_wal w es d = (w', d', s)"
  shows "s = OK"
proof -
  let ?p = "ws_path w" and ?tmp = "atomic_replace_temp_path (ws_path w)"
  obtain d1 s1 tmp where 1: "open_for_write ?tmp d = (d1, s1, tmp)" by (metis prod_cases3)
  obtain fw2 d2 s2 where 2: "fw_encode_crcs encode_LogEntry es (new_FileWriter tmp) d1 = (fw2, d2, s2)" by (metis prod_cases3)
  obtain fw3 d3 s3 where 3: "fw_flush fw2 d2 = (fw3, d3, s3)" by (metis prod_cases3)
  obtain fw4 d4 s4 where 4: "fw_sync fw3 d3 = (fw4, d4, s4)" by (metis prod_cases3)
  obtain d5 s5 where 5: "file_close tmp d4 = (d5, s5)" by fastforce
  obtain w6 d6 s6 where 6: "(if ws_file w \<noteq> None then wal_close w d5 else (w, d5, OK)) = (w6, d6, s6)" by (metis prod_cases3)
  obtain d7 s7 where 7: "file_rename ?tmp (ws_path w6) d6 = (d7, s7)" by fastforce
  obtain d8 s8 where 8: "fsync_dir d7 = (d8, s8)" by fastforce
  obtain w9 d9 s9 where 9: "wal_open w6 d8 = (w9, d9, s9)" by (metis prod_cases3)
  have outcome: "(w', d', s) = (if fail s1 then (w, d1, s1) else if fail s2 then (w, d2, s2) else if fail s3 then (w, d3, s3)
      else if fail s4 then (w, d4, s4) else if fail s5 then (w, d5, s5) else if fail s6 then (w6, d6, s6)
      else if fail s7 then (w6, d7, s7) else if fail s8 then (w6, d8, s8) else (w9, d9, s9))"
    using run by (simp only: rewrite_wal_def Let_def 1 2 3 4 5 6 7 8 9 prod.case)
  have ok1: "s1 = OK" "tmp = Some ?tmp" "no_faults d1"
    using no_faults_calls(1) [OF nf 1] by simp_all
  have fo: "fw_file (new_FileWriter tmp) = Some ?tmp"
    by (simp add: new_FileWriter_def ok1(2))
  have ok2: "s2 = OK" "no_faults d2" "fw_file fw2 = Some ?tmp"
    using no_faults_fw_encode_crcs [OF ok1(3) fo fits 2] by simp_all
  have ok3: "s3 = OK" "no_faults d3" "fw_file fw3 = Some ?tmp"
    using no_faults_fw_flush [OF ok2(2,3) 3] by simp_all
  have ok4: "s4 = OK" "no_faults d4"
    using no_faults_fw_sync [OF ok3(2,3) 4] by simp_all
  have ok5: "s5 = OK" "no_faults d5"
    using no_faults_calls(4) [OF ok4(2) 5] by simp_all
  have ok6: "s6 = OK" "no_faults d6"
    using 6 no_faults_calls(4) [OF ok5(2), of "ws_file w"] ok5(2) by (auto simp: wal_close_def split: if_splits prod.splits)
  have "dk_files d4 = dk_files d3" "dk_files d5 = dk_files d4" "dk_files d6 = dk_files d5"
    using written_file(4) [OF _ 2 [unfolded ok1(2) ok2(1)] 3 [unfolded ok3(1)]] open_for_write_result(1) [OF 1 ok1(1)]
      fw_sync_flushed [OF _ 4] quiet_calls(2) [OF 5] 6 wal_close_files by (auto split: if_splits)
  moreover have "dk_files d3 ?tmp = Some (frames encode_LogEntry es)"
    using written_file(1) [OF _ 2 [unfolded ok1(2) ok2(1)] 3 [unfolded ok3(1)]] open_for_write_result(1) [OF 1 ok1(1)] by simp
  ultimately have ok7: "s7 = OK" "no_faults d7"
    using no_faults_calls(8) [OF ok6(2) 7] by simp_all
  have ok8: "s8 = OK" "no_faults d8"
    using no_faults_calls(7) [OF ok7(2) 8] by simp_all
  have "s9 = OK"
    using 9 no_faults_calls(2) [OF ok8(2), of "ws_path w6"] by (auto simp: wal_open_def fail_iff split: if_splits prod.splits)
  then show ?thesis
    using outcome ok1(1) ok2(1) ok3(1) ok4(1) ok5(1) ok6(1) ok7(1) ok8(1) by (simp add: fail_iff)
qed

lemma no_faults_wal_recover:
  assumes "no_faults d" and "read_records (content d (ws_path w)) None = (log, err)"
    and "\<forall>e\<in>set log. frame_fits encode_LogEntry e"
  shows "\<exists>w' d' es need. wal_recover w si d = (w', d', OK, es, need)"
proof -
  obtain d1 s1 c where 0: "open_for_read (ws_path w) d = (d1, s1, c)"
    by (metis prod_cases3)
  have ok1: "s1 = OK" "no_faults d1" "c = dk_files d (ws_path w)"
    using no_faults_calls(3) [OF assms(1) 0] by simp_all
  have 1: "read_wal_from_disk (ws_path w) d = (d1, OK, log, err)"
    using assms(2) by (cases "dk_files d (ws_path w)") (simp_all add: read_wal_from_disk_def 0 ok1(1,3) content_def fail_iff)
  have rw: "\<exists>w' d'. rewrite_wal w es d1 = (w', d', OK)" if "set es \<subseteq> set log" for es
  proof (cases "rewrite_wal w es d1")
    case (fields w' d' s)
    then show ?thesis
      using no_faults_rewrite_wal [OF ok1(2) _ fields] assms(3) that by auto
  qed
  obtain w2 d2 where 2: "rewrite_wal w (filter (\<lambda>e. \<not> le_index e \<le> si) log) d1 = (w2, d2, OK)"
    using rw [of "filter (\<lambda>e. \<not> le_index e \<le> si) log"] by auto
  obtain w3 d3 where 3: "rewrite_wal w [] d1 = (w3, d3, OK)"
    using rw [of "[]"] by auto
  show ?thesis
    by (auto simp: wal_recover_def 1 2 3 fail_iff Let_def)
qed

section \<open>Crash safety of the log\<close>

text \<open>A log file on a disk on which every call succeeds, and an entry.\<close>

definition demo_wal :: WalStore where
  "demo_wal = \<lparr>ws_path = ''wal'', ws_file = Some ''wal''\<rparr>"

definition demo_disk :: Disk where
  "demo_disk = \<lparr>dk_files = (\<lambda>_. None), dk_faults = (\<lambda>_. None), dk_calls = 0\<rparr>"

lemma demo_storable: "storable (demo_entry 1 1)"
  by (simp add: storable_def frame_fits_def demo_entry_def default_LogEntry_def fits_LogEntry_def fits_signed_def
      fits_string_def fits_PeerMember_def fits_Endpoint_def fits_ReplicaID_def default_PeerMember_def
      default_ReplicaID_def encode_LogEntry_def encode_PeerMember_def encode_Endpoint_def encode_ReplicaID_def encode_int64_def
      encode_int32_def encode_string_def encode_WriteOpType_def encode_enum_def K_MAX_FRAMED_PAYLOAD_BYTES_def
      flip: length_0_conv)





section \<open>The stored hard state\<close>

lemma fw_encode_crc_fills:
  "fills (\<lambda>file d. let (fw, d1, s1) = fw_encode_crc enc x (new_FileWriter file) d in
     if fail s1 then (d1, s1) else let (fw2, d2, s2) = fw_flush fw d1 in (d2, s2)) (frame enc x)"
  unfolding fills_def
proof (intro allI impI)
  fix path d d' s
  assume asm: "dk_files d path = Some [] \<and> (let (fw, d1, s1) = fw_encode_crc enc x (new_FileWriter (Some path)) d in
     if fail s1 then (d1, s1) else let (fw2, d2, s2) = fw_flush fw d1 in (d2, s2)) = (d', s)"
  obtain fw d1 s1 where 1: "fw_encode_crc enc x (new_FileWriter (Some path)) d = (fw, d1, s1)"
    by (metis prod_cases3)
  obtain fw2 d2 s2 where 2: "fw_flush fw d1 = (fw2, d2, s2)"
    by (metis prod_cases3)
  have one: "fw_encode_crcs enc [x] (new_FileWriter (Some path)) d = (fw, d1, s1)"
    using 1 by (auto simp: fail_iff)
  have eq: "d' = (if fail s1 then d1 else d2)" "s = (if fail s1 then s1 else s2)"
    using asm 1 2 by (auto split: if_splits)
  have fo: "fw_file (new_FileWriter (Some path)) = Some path"
    by (simp add: new_FileWriter_def)
  have q1: "dk_files d1 q = dk_files d q \<and> fw_file fw = Some path" if "q \<noteq> path" for q
    by (rule fw_step_other_files(1) [OF fo one that])
  have q2: "dk_files d2 q = dk_files d q" if "q \<noteq> path" for q
    using fw_step_other_files(2) [OF conjunct2 [OF q1 [OF that]] 2 that] q1 [OF that] by simp
  have new: "dk_files d2 path = Some (frame enc x)" if "s1 = OK" "s2 = OK"
    using written_file(1) [OF conjunct1 [OF asm] one [unfolded that(1)] 2 [unfolded that(2)]] by simp
  show "(\<forall>q. q \<noteq> path \<longrightarrow> dk_files d' q = dk_files d q) \<and> (s = OK \<longrightarrow> dk_files d' path = Some (frame enc x))"
    using q1 q2 new by (auto simp: eq fail_iff)
qed

lemma RaftMeta_frame_fits: "frame_fits encode_RaftMeta m"
  by (auto simp: frame_fits_def encode_RaftMeta_def encode_ReplicaID_def encode_int64_def encode_int32_def encode_bool_def
      K_MAX_FRAMED_PAYLOAD_BYTES_def split: option.split)

lemma raft_meta_save_result:
  assumes "raft_meta_save path m d = (d', s)"
  shows "dk_files d' path = dk_files d path \<or> dk_files d' path = Some (frame encode_RaftMeta m)"
    "s = OK \<Longrightarrow> dk_files d' path = Some (frame encode_RaftMeta m)"
    "q \<noteq> path \<Longrightarrow> q \<noteq> atomic_replace_temp_path path \<Longrightarrow> dk_files d' q = dk_files d q"
  by (rule atomic_replace_result [OF fw_encode_crc_fills assms [unfolded raft_meta_save_def]]; assumption)+

lemma raft_meta_load_written:
  assumes "content d path = frame encode_RaftMeta m" and "fits_RaftMeta m" and "raft_meta_load path d = (d', OK, m')"
  shows "m' = m"
proof -
  have "decode_crc decode_RaftMeta (frame encode_RaftMeta m) = Inr (m, [])"
    using raft_meta.frame_roundtrip [of m "frame encode_RaftMeta m" "[]"] assms(2)
    by (simp add: encode_crc_frame RaftMeta_frame_fits)
  then show ?thesis
    using assms(1,3) frame_not_Nil [of encode_RaftMeta m, symmetric] by (auto simp: raft_meta_load_def open_for_read_def syscall_def content_def fail_iff Let_def
        split: if_splits option.splits)
qed

end
