(* ===== verification/Snapshot_Store.thy ===== *)
theory Snapshot_Store
  imports File_Store
begin

text \<open>
  Snapshot files (\<^verbatim>\<open>storage/persist/snapshot_store.cpp\<close>, \<^verbatim>\<open>ChecksumWriter\<close> of \<^verbatim>\<open>common/binary/base.h\<close>).  A
  snapshot file is a body and a trailer: the body is a magic number, the header, the pairs and the request
  records; the trailer has the two counts, the checksum of the body, the length of the file and the magic
  number.  The encoding of a structure is handed to the writer in one piece; since a failing call may cut the
  data at any byte, the files that can be left behind are the same.  An open reader keeps the bytes
  of the file it has opened, as an open descriptor does when the name is given to another file.
\<close>

section \<open>Writing\<close>

definition K_SNAPSHOT_MAGIC :: int where
  "K_SNAPSHOT_MAGIC = 0x4B534850"

definition K_SNAPSHOT_TRAILER_BYTES :: nat where
  "K_SNAPSHOT_TRAILER_BYTES = 4 + 4 + 4 + 8 + 4"

definition K_SNAPSHOT_VERIFY_BUFFER_BYTES :: nat where
  "K_SNAPSHOT_VERIFY_BUFFER_BYTES = 64 * 1024"

record ChecksumWriter =
  cw_inner :: FileWriter
  cw_crc :: "32 word"
  cw_bytes :: nat

definition cw_write_raw :: "byte list \<Rightarrow> ChecksumWriter \<Rightarrow> Disk \<Rightarrow> ChecksumWriter \<times> Disk \<times> Status" where
  "cw_write_raw data c d =
    (let (w, d1, s) = fw_write_raw data (cw_inner c) d in
     if fail s then (c\<lparr>cw_inner := w\<rparr>, d1, s)
     else (\<lparr>cw_inner = w, cw_crc = update_crc32 (cw_crc c) data, cw_bytes = cw_bytes c + length data\<rparr>, d1, OK))"

definition cw_write_kv :: "KV \<Rightarrow> ChecksumWriter \<Rightarrow> Disk \<Rightarrow> ChecksumWriter \<times> Disk \<times> Status" where
  "cw_write_kv kv c d =
    (let (c1, d1, s1) = cw_write_raw (encode_string (fst kv)) c d in
     if fail s1 then (c1, d1, s1) else cw_write_raw (encode_string (snd kv)) c1 d1)"

definition cw_write_record :: "RequestRecord \<Rightarrow> ChecksumWriter \<Rightarrow> Disk \<Rightarrow> ChecksumWriter \<times> Disk \<times> Status" where
  "cw_write_record record c d =
    (if rr_request_id record = [] then (c, d, INVALID_ARGUMENT) else cw_write_raw (encode_RequestRecord record) c d)"

text \<open>The two loops: one write for each element, until one fails.\<close>

fun cw_for :: "('a \<Rightarrow> ChecksumWriter \<Rightarrow> Disk \<Rightarrow> ChecksumWriter \<times> Disk \<times> Status) \<Rightarrow> 'a list
    \<Rightarrow> ChecksumWriter \<Rightarrow> Disk \<Rightarrow> ChecksumWriter \<times> Disk \<times> Status" where
  "cw_for f [] c d = (c, d, OK)"
| "cw_for f (x # xs) c d = (let (c1, d1, s1) = f x c d in if fail s1 then (c1, d1, s1) else cw_for f xs c1 d1)"

definition write_snapshot_to_file :: "File \<Rightarrow> SnapshotData \<Rightarrow> RaftMember list \<Rightarrow> Disk \<Rightarrow> Disk \<times> Status" where
  "write_snapshot_to_file f snapshot members d =
    (let c = \<lparr>cw_inner = new_FileWriter f, cw_crc = 0, cw_bytes = 0\<rparr>;
         (c1, d1, s1) = cw_write_raw (encode_int32 K_SNAPSHOT_MAGIC) c d in
     if fail s1 then (d1, s1) else
     let header = (sd_header snapshot)\<lparr>sh_members := members\<rparr>;
         (c2, d2, s2) = cw_write_raw (encode_SnapshotHeader header) c1 d1 in
     if fail s2 then (d2, s2) else
     let (c3, d3, s3) = cw_for cw_write_kv (sd_kvs snapshot) c2 d2 in
     if fail s3 then (d3, s3) else
     let (c4, d4, s4) = cw_for cw_write_record (sd_request_records snapshot) c3 d3 in
     if fail s4 then (d4, s4) else
     let body_crc = cw_crc c4;
         total_len = int (cw_bytes c4 + K_SNAPSHOT_TRAILER_BYTES);
         (w5, d5, s5) = fw_write_all [encode_int32 (int (length (sd_kvs snapshot))),
           encode_int32 (int (length (sd_request_records snapshot))), encode_uint32 body_crc, encode_int64 total_len,
           encode_int32 K_SNAPSHOT_MAGIC] (cw_inner c4) d4 in
     if fail s5 then (d5, s5) else
     let (w6, d6, s6) = fw_sync w5 d5 in (d6, s6))"

section \<open>Reading\<close>

record SnapshotTrailer =
  tr_kv_count :: int
  tr_request_count :: int
  tr_body_crc32 :: "32 word"
  tr_total_len :: int

definition read_snapshot_trailer :: "SnapshotTrailer decoder" where
  "read_snapshot_trailer =
    and_then decode_int32 (\<lambda>kv_count. and_then decode_int32 (\<lambda>request_count. and_then decode_uint32 (\<lambda>body_crc32.
    and_then decode_int64 (\<lambda>total_len. and_then decode_int32 (\<lambda>tail_magic.
      if tail_magic \<noteq> K_SNAPSHOT_MAGIC then dec_fail ERROR
      else if kv_count < 0 \<or> request_count < 0 then dec_fail ERROR
      else dec_return \<lparr>tr_kv_count = kv_count, tr_request_count = request_count, tr_body_crc32 = body_crc32,
        tr_total_len = total_len\<rparr>)))))"

text \<open>The checksum of the body is computed over pieces of the size of the buffer.\<close>

function crc_of_pieces :: "nat \<Rightarrow> 32 word \<Rightarrow> byte list \<Rightarrow> 32 word" where
  "crc_of_pieces n crc data =
    (if data = [] \<or> n = 0 then crc else crc_of_pieces n (update_crc32 crc (take n data)) (drop n data))"
  by pat_completeness auto
termination
  by (relation "measure (\<lambda>(n, crc, data). length data)") (auto simp: Suc_le_eq)

declare crc_of_pieces.simps [simp del]

definition verify_snapshot_file :: "byte list \<Rightarrow> Status + SnapshotTrailer" where
  "verify_snapshot_file data =
    (let file_size = length data in
     if file_size \<le> K_SNAPSHOT_TRAILER_BYTES then Inl ERROR
     else case read_snapshot_trailer (drop (file_size - K_SNAPSHOT_TRAILER_BYTES) data) of
       Inl s \<Rightarrow> Inl s
     | Inr (trailer, _) \<Rightarrow>
         if tr_total_len trailer \<noteq> int file_size then Inl ERROR
         else case decode_int32 data of
           Inl s \<Rightarrow> Inl s
         | Inr (head_magic, rest) \<Rightarrow>
             if head_magic \<noteq> K_SNAPSHOT_MAGIC then Inl ERROR
             else
               let running_crc = crc_of_pieces K_SNAPSHOT_VERIFY_BUFFER_BYTES (update_crc32 0 (encode_int32 head_magic))
                     (take (file_size - K_SNAPSHOT_TRAILER_BYTES - 4) rest) in
               if running_crc \<noteq> tr_body_crc32 trailer then Inl ERROR else Inr trailer)"

text \<open>A reader: the bytes of its file, those behind its position, and what the file says of itself.\<close>

record SnapshotFileReader =
  sr_file :: "byte list option"
  sr_rest :: "byte list"
  sr_header :: SnapshotHeader
  sr_kv_count :: int
  sr_request_count :: int

definition sr_initialize :: "byte list option \<Rightarrow> Status + SnapshotFileReader" where
  "sr_initialize f =
    (case f of None \<Rightarrow> Inl ERROR
     | Some data \<Rightarrow>
        (case verify_snapshot_file data of
           Inl s \<Rightarrow> Inl s
         | Inr trailer \<Rightarrow>
            (case decode_SnapshotHeader (drop 4 data) of
               Inl s \<Rightarrow> Inl s
             | Inr (header, rest) \<Rightarrow> Inr \<lparr>sr_file = Some data, sr_rest = rest, sr_header = header,
                 sr_kv_count = tr_kv_count trailer, sr_request_count = tr_request_count trailer\<rparr>)))"

text \<open>
  The visitors thread the state they change.  A failing read or visitor ends the loop with its status; the
  state keeps what was visited before.
\<close>

fun visit_kvs :: "('s \<Rightarrow> Key \<Rightarrow> Value \<Rightarrow> 's \<times> Status) \<Rightarrow> nat \<Rightarrow> byte list \<Rightarrow> 's \<Rightarrow> byte list \<times> 's \<times> Status" where
  "visit_kvs fn 0 rest st = (rest, st, OK)"
| "visit_kvs fn (Suc n) rest st =
    (case and_then decode_string (\<lambda>k. and_then decode_string (\<lambda>v. dec_return (k, v))) rest of
       Inl s \<Rightarrow> (rest, st, s)
     | Inr ((k, v), rest1) \<Rightarrow>
        (let (st1, s1) = fn st k v in if fail s1 then (rest1, st1, s1) else visit_kvs fn n rest1 st1))"

fun skip_fields :: "nat \<Rightarrow> byte list \<Rightarrow> byte list \<times> Status" where
  "skip_fields 0 rest = (rest, OK)"
| "skip_fields (Suc n) rest =
    (case decode_int32 rest of
       Inl s \<Rightarrow> (rest, s)
     | Inr (len, rest1) \<Rightarrow> if len < 0 then (rest1, ERROR) else skip_fields n (drop (nat len) rest1))"

fun visit_requests :: "('s \<Rightarrow> RequestRecord \<Rightarrow> 's \<times> Status) \<Rightarrow> nat \<Rightarrow> byte list \<Rightarrow> 's \<Rightarrow> byte list \<times> 's \<times> Status" where
  "visit_requests fn 0 rest st = (rest, st, OK)"
| "visit_requests fn (Suc n) rest st =
    (case decode_RequestRecord rest of
       Inl s \<Rightarrow> (rest, st, s)
     | Inr (record, rest1) \<Rightarrow>
        if \<not> is_kv_write_op (rr_op record) then (rest1, st, ERROR)
        else let (st1, s1) = fn st record in if fail s1 then (rest1, st1, s1) else visit_requests fn n rest1 st1)"

definition sr_for_each_kv :: "('s \<Rightarrow> Key \<Rightarrow> Value \<Rightarrow> 's \<times> Status) \<Rightarrow> SnapshotFileReader \<Rightarrow> 's \<Rightarrow> SnapshotFileReader \<times> 's \<times> Status" where
  "sr_for_each_kv fn r st =
    (if sr_file r = None then (r, st, ERROR)
     else let (rest, st1, s) = visit_kvs fn (nat (sr_kv_count r)) (sr_rest r) st in (r\<lparr>sr_rest := rest\<rparr>, st1, s))"

definition sr_skip_kv_region :: "SnapshotFileReader \<Rightarrow> SnapshotFileReader \<times> Status" where
  "sr_skip_kv_region r =
    (if sr_file r = None then (r, ERROR)
     else let (rest, s) = skip_fields (2 * nat (sr_kv_count r)) (sr_rest r) in (r\<lparr>sr_rest := rest\<rparr>, s))"

definition sr_for_each_request :: "('s \<Rightarrow> RequestRecord \<Rightarrow> 's \<times> Status) \<Rightarrow> SnapshotFileReader \<Rightarrow> 's \<Rightarrow> SnapshotFileReader \<times> 's \<times> Status" where
  "sr_for_each_request fn r st =
    (if sr_file r = None then (r, st, ERROR)
     else let (rest, st1, s) = visit_requests fn (nat (sr_request_count r)) (sr_rest r) st in (r\<lparr>sr_rest := rest\<rparr>, st1, s))"

definition sr_read_chunk :: "SnapshotFileReader \<Rightarrow> nat \<Rightarrow> nat \<Rightarrow> Status + (byte list \<times> bool)" where
  "sr_read_chunk r offset max_bytes =
    (case sr_file r of None \<Rightarrow> Inl ERROR
     | Some data \<Rightarrow>
        if offset > length data then Inl ERROR
        else let read_len = min max_bytes (length data - offset) in
          Inr (take read_len (drop offset data), offset + read_len \<ge> length data))"

section \<open>The store\<close>

record SnapshotStore =
  ss_snapshot_path :: string
  ss_dir_path :: string

text \<open>A missing file is no error and gives no reader.\<close>

definition open_reader :: "SnapshotStore \<Rightarrow> Disk \<Rightarrow> Disk \<times> (Status + SnapshotFileReader option)" where
  "open_reader ss d =
    (let (d1, s, f) = open_for_read (ss_snapshot_path ss) d in
     if fail s then (d1, Inl s)
     else if f = None then (d1, Inr None)
     else (d1, map_sum id Some (sr_initialize f)))"

definition verify_header :: "SnapshotFileReader \<Rightarrow> LogIndex \<Rightarrow> Term \<Rightarrow> Status" where
  "verify_header r expected_index expected_term =
    (if sh_apply_index (sr_header r) \<noteq> expected_index \<or> sh_apply_term (sr_header r) \<noteq> expected_term
     then CONDITION_NOT_MET else OK)"

definition load_header :: "SnapshotStore \<Rightarrow> Disk \<Rightarrow> Disk \<times> (Status + SnapshotHeader option)" where
  "load_header ss d = (let (d1, r) = open_reader ss d in (d1, map_sum id (map_option sr_header) r))"

definition append_snapshot_chunk :: "SnapshotStore \<Rightarrow> InstallSnapshotParam \<Rightarrow> Disk \<Rightarrow> Disk \<times> Status" where
  "append_snapshot_chunk ss param d =
    (let session_path = receiving_snapshot_file (ss_dir_path ss) (is_snapshot_index param);
         (d1, s1, f) = (if is_offset param = 0 then open_for_write session_path d else open_for_append session_path d) in
     if fail s1 then (d1, s1) else
     let (d2, s2, current_size) = file_size f d1 in
     if fail s2 then (d2, s2)
     else if current_size \<noteq> is_offset param then (d2, ERROR)
     else
       let (w3, d3, s3) = fw_write_raw (is_data param) (new_FileWriter f) d2 in
       if fail s3 then (d3, s3) else let (w4, d4, s4) = fw_sync w3 d3 in (d4, s4))"

definition publish_tmp_snapshot :: "string \<Rightarrow> string \<Rightarrow> Disk \<Rightarrow> Disk \<times> Status" where
  "publish_tmp_snapshot tmp_path snapshot_path d =
    (let (d1, s1) = file_rename tmp_path snapshot_path d in if fail s1 then (d1, s1) else fsync_dir d1)"

definition finish_snapshot_receive :: "SnapshotStore \<Rightarrow> InstallSnapshotParam \<Rightarrow> Disk \<Rightarrow> Disk \<times> Status" where
  "finish_snapshot_receive ss param d =
    (let session_path = receiving_snapshot_file (ss_dir_path ss) (is_snapshot_index param);
         (d1, s1, f) = open_for_read session_path d in
     if fail s1 then (d1, s1)
     else if f = None then (d1, ERROR)
     else case sr_initialize f of Inl s \<Rightarrow> (d1, s)
       | Inr _ \<Rightarrow> publish_tmp_snapshot session_path (ss_snapshot_path ss) d1)"

definition write_local_snapshot_candidate ::
    "SnapshotStore \<Rightarrow> SnapshotData \<Rightarrow> RaftMember list \<Rightarrow> LogIndex \<Rightarrow> Disk \<Rightarrow> Disk \<times> Status" where
  "write_local_snapshot_candidate ss snapshot members capture_index d =
    (let candidate_path = candidate_snapshot_file (ss_dir_path ss) capture_index;
         (d1, s1, f) = open_for_write candidate_path d in
     if fail s1 then (d1, s1) else
     let (d2, s2) = write_snapshot_to_file f snapshot members d1 in
     if fail s2 then (d2, s2) else file_close f d2)"

text \<open>The result says also whether the snapshot was published.\<close>

definition publish_local_snapshot :: "SnapshotStore \<Rightarrow> LogIndex \<Rightarrow> Disk \<Rightarrow> Disk \<times> Status \<times> bool" where
  "publish_local_snapshot ss capture_index d =
    (let (d1, s1, f) = open_for_read (ss_snapshot_path ss) d in
     if fail s1 then (d1, s1, False)
     else
       let current_index = (if f = None then 0
             else case sr_initialize f of Inl _ \<Rightarrow> 0 | Inr r \<Rightarrow> sh_apply_index (sr_header r));
           candidate_path = candidate_snapshot_file (ss_dir_path ss) capture_index;
           (d2, s2, published) =
             (if capture_index \<le> current_index then (d1, OK, False)
              else let (d2, s2) = publish_tmp_snapshot candidate_path (ss_snapshot_path ss) d1 in
                if fail s2 then (d2, s2, False) else (d2, OK, True))
       in (file_remove candidate_path d2, s2, published))"

section \<open>What a snapshot file holds\<close>

definition snapshot_body :: "SnapshotHeader \<Rightarrow> KV list \<Rightarrow> RequestRecord list \<Rightarrow> byte list" where
  "snapshot_body header kvs records = encode_int32 K_SNAPSHOT_MAGIC @ encode_SnapshotHeader header
    @ concat (map (\<lambda>kv. encode_string (fst kv) @ encode_string (snd kv)) kvs) @ concat (map encode_RequestRecord records)"

definition snapshot_trailer :: "nat \<Rightarrow> nat \<Rightarrow> byte list \<Rightarrow> byte list" where
  "snapshot_trailer kv_count request_count body = encode_int32 (int kv_count) @ encode_int32 (int request_count)
    @ encode_uint32 (compute_crc32 body) @ encode_int64 (int (length body + K_SNAPSHOT_TRAILER_BYTES))
    @ encode_int32 K_SNAPSHOT_MAGIC"

definition snapshot_bytes :: "SnapshotHeader \<Rightarrow> KV list \<Rightarrow> RequestRecord list \<Rightarrow> byte list" where
  "snapshot_bytes header kvs records = snapshot_body header kvs records
    @ snapshot_trailer (length kvs) (length records) (snapshot_body header kvs records)"

lemma crc_of_pieces_whole: "0 < n \<Longrightarrow> crc_of_pieces n crc data = update_crc32 crc data"
proof (induction n crc data rule: crc_of_pieces.induct)
  case (1 n crc data)
  show ?case
  proof (cases "data = []")
    case False
    have "update_crc32 (update_crc32 crc (take n data)) (drop n data) = update_crc32 crc data"
      using update_crc32_append [of crc "take n data" "drop n data"] by simp
    then show ?thesis
      using 1 False by (simp add: crc_of_pieces.simps [of n crc data])
  qed (simp add: crc_of_pieces.simps)
qed

section \<open>The writer\<close>

definition cw_wrote :: "string \<Rightarrow> ChecksumWriter \<Rightarrow> Disk \<Rightarrow> byte list \<Rightarrow> ChecksumWriter \<Rightarrow> Disk \<Rightarrow> Status \<Rightarrow> bool" where
  "cw_wrote path c d data c' d' s \<longleftrightarrow> wrote path (cw_inner c) d data (cw_inner c') d' s
     \<and> (s = OK \<longrightarrow> cw_crc c' = update_crc32 (cw_crc c) data \<and> cw_bytes c' = cw_bytes c + length data)"

lemma cw_wrote_trans:
  "cw_wrote path c d a c1 d1 OK \<Longrightarrow> cw_wrote path c1 d1 b c2 d2 s \<Longrightarrow> cw_wrote path c d (a @ b) c2 d2 s"
  by (auto simp: cw_wrote_def update_crc32_append intro: wrote_trans)

lemma cw_wrote_fail: "cw_wrote path c d a c' d' s \<Longrightarrow> s \<noteq> OK \<Longrightarrow> cw_wrote path c d (a @ b) c' d' s"
  by (simp add: cw_wrote_def wrote_fail_append)

lemma cw_wrote_file: "cw_wrote path c d a c' d' s \<Longrightarrow> fw_file (cw_inner c') = fw_file (cw_inner c)"
  by (simp add: cw_wrote_def wrote_def)

lemma cw_write_raw_wrote:
  assumes "fw_file (cw_inner c) = Some path" and "cw_write_raw data c d = (c', d', s)"
  shows "cw_wrote path c d data c' d' s"
proof -
  obtain w d1 s1 where 1: "fw_write_raw data (cw_inner c) d = (w, d1, s1)"
    by (metis prod_cases3)
  then show ?thesis
    using fw_write_raw_wrote [OF assms(1) 1] assms(2) by (auto simp: cw_write_raw_def cw_wrote_def fail_iff split: if_splits)
qed

lemma cw_write_kv_wrote:
  assumes fo: "fw_file (cw_inner c) = Some path" and run: "cw_write_kv kv c d = (c', d', s)"
  shows "cw_wrote path c d (encode_string (fst kv) @ encode_string (snd kv)) c' d' s"
proof -
  obtain c1 d1 s1 where 1: "cw_write_raw (encode_string (fst kv)) c d = (c1, d1, s1)"
    by (metis prod_cases3)
  note W = cw_write_raw_wrote [OF fo 1]
  show ?thesis
  proof (cases "s1 = OK")
    case True
    have 2: "cw_write_raw (encode_string (snd kv)) c1 d1 = (c', d', s)"
      using run 1 True by (simp add: cw_write_kv_def fail_iff)
    have "cw_wrote path c1 d1 (encode_string (snd kv)) c' d' s"
      by (rule cw_write_raw_wrote [OF _ 2]) (simp add: cw_wrote_file [OF W] fo)
    then show ?thesis
      by (rule cw_wrote_trans [OF W [unfolded True]])
  next
    case False
    then show ?thesis
      using run 1 cw_wrote_fail [OF W] by (simp add: cw_write_kv_def fail_iff)
  qed
qed

lemma cw_write_record_wrote:
  assumes "fw_file (cw_inner c) = Some path" and "cw_write_record r c d = (c', d', s)"
  shows "cw_wrote path c d (encode_RequestRecord r) c' d' s" "s = OK \<Longrightarrow> rr_request_id r \<noteq> []"
proof -
  have "cw_wrote path c d (encode_RequestRecord r) c d INVALID_ARGUMENT"
    unfolding cw_wrote_def
    by (intro conjI wroteI [where p = "[]" and r = "fw_buf (cw_inner c) @ encode_RequestRecord r"]) simp_all
  then show "cw_wrote path c d (encode_RequestRecord r) c' d' s"
    using assms cw_write_raw_wrote [OF assms(1)] by (auto simp: cw_write_record_def split: if_splits)
  show "s = OK \<Longrightarrow> rr_request_id r \<noteq> []"
    using assms(2) by (auto simp: cw_write_record_def)
qed

lemma cw_for_wrote:
  assumes "\<And>x c d c' d' s. fw_file (cw_inner c) = Some path \<Longrightarrow> f x c d = (c', d', s) \<Longrightarrow>
      cw_wrote path c d (enc x) c' d' s \<and> (s = OK \<longrightarrow> good x)"
  shows "fw_file (cw_inner c) = Some path \<Longrightarrow> cw_for f xs c d = (c', d', s) \<Longrightarrow>
    cw_wrote path c d (concat (map enc xs)) c' d' s \<and> (s = OK \<longrightarrow> list_all good xs)"
proof (induction xs arbitrary: c d)
  case Nil
  have "wrote path (cw_inner c) d [] (cw_inner c) d OK"
    by (rule wroteI [of _ _ _ _ _ "[]" "fw_buf (cw_inner c)"]) simp_all
  then show ?case
    using Nil by (auto simp: cw_wrote_def)
next
  case (Cons x xs)
  obtain c1 d1 s1 where 1: "f x c d = (c1, d1, s1)"
    by (metis prod_cases3)
  note W = assms [OF Cons.prems(1) 1]
  have fo: "fw_file (cw_inner c1) = Some path"
    using cw_wrote_file [OF conjunct1 [OF W]] Cons.prems(1) by simp
  show ?case
  proof (cases "s1 = OK")
    case True
    have 2: "cw_for f xs c1 d1 = (c', d', s)"
      using Cons.prems(2) 1 True by (simp add: fail_iff)
    show ?thesis
      using cw_wrote_trans [OF conjunct1 [OF W, unfolded True]] Cons.IH [OF fo 2] W True by auto
  next
    case False
    then show ?thesis
      using Cons.prems(2) 1 cw_wrote_fail [OF conjunct1 [OF W]] by (simp add: fail_iff)
  qed
qed

lemma cw_write_kvs_wrote:
  assumes "fw_file (cw_inner c) = Some path" and "cw_for cw_write_kv kvs c d = (c', d', s)"
  shows "cw_wrote path c d (concat (map (\<lambda>kv. encode_string (fst kv) @ encode_string (snd kv)) kvs)) c' d' s"
  by (rule conjunct1 [OF cw_for_wrote [where good = "\<lambda>_. True", OF _ assms]]) (simp add: cw_write_kv_wrote)

lemma cw_write_records_wrote:
  assumes "fw_file (cw_inner c) = Some path" and "cw_for cw_write_record records c d = (c', d', s)"
  shows "cw_wrote path c d (concat (map encode_RequestRecord records)) c' d' s"
    "s = OK \<Longrightarrow> list_all (\<lambda>r. rr_request_id r \<noteq> []) records"
  using cw_for_wrote [where f = cw_write_record and enc = encode_RequestRecord and good = "\<lambda>r. rr_request_id r \<noteq> []", OF _ assms]
    cw_write_record_wrote by blast+

text \<open>All of a snapshot file: a first part of its bytes, and all of them when the call succeeds.\<close>

definition snapshot_of :: "SnapshotData \<Rightarrow> RaftMember list \<Rightarrow> byte list" where
  "snapshot_of snapshot members =
    snapshot_bytes ((sd_header snapshot)\<lparr>sh_members := members\<rparr>) (sd_kvs snapshot) (sd_request_records snapshot)"

lemma write_snapshot_to_file_wrote:
  assumes run: "write_snapshot_to_file (Some path) snapshot members d = (d', s)"
  shows "\<exists>w. wrote path (new_FileWriter (Some path)) d (snapshot_of snapshot members) w d' s \<and> (s = OK \<longrightarrow> fw_buf w = [])"
    "s = OK \<Longrightarrow> list_all (\<lambda>r. rr_request_id r \<noteq> []) (sd_request_records snapshot)"
proof -
  define c where "c = \<lparr>cw_inner = new_FileWriter (Some path), cw_crc = 0, cw_bytes = 0\<rparr>"
  define header where "header = (sd_header snapshot)\<lparr>sh_members := members\<rparr>"
  define body where "body = snapshot_body header (sd_kvs snapshot) (sd_request_records snapshot)"
  have fo: "fw_file (cw_inner c) = Some path"
    by (simp add: c_def new_FileWriter_def)
  obtain c1 d1 s1 where 1: "cw_write_raw (encode_int32 K_SNAPSHOT_MAGIC) c d = (c1, d1, s1)" by (metis prod_cases3)
  obtain c2 d2 s2 where 2: "cw_write_raw (encode_SnapshotHeader header) c1 d1 = (c2, d2, s2)" by (metis prod_cases3)
  obtain c3 d3 s3 where 3: "cw_for cw_write_kv (sd_kvs snapshot) c2 d2 = (c3, d3, s3)" by (metis prod_cases3)
  obtain c4 d4 s4 where 4: "cw_for cw_write_record (sd_request_records snapshot) c3 d3 = (c4, d4, s4)" by (metis prod_cases3)
  define pieces where "pieces = [encode_int32 (int (length (sd_kvs snapshot))), encode_int32 (int (length (sd_request_records snapshot))),
      encode_uint32 (cw_crc c4), encode_int64 (int (cw_bytes c4 + K_SNAPSHOT_TRAILER_BYTES)), encode_int32 K_SNAPSHOT_MAGIC]"
  obtain w5 d5 s5 where 5: "fw_write_all pieces (cw_inner c4) d4 = (w5, d5, s5)" by (metis prod_cases3)
  obtain w6 d6 s6 where 6: "fw_sync w5 d5 = (w6, d6, s6)" by (metis prod_cases3)
  have outcome: "(d', s) = (if fail s1 then (d1, s1) else if fail s2 then (d2, s2) else if fail s3 then (d3, s3)
      else if fail s4 then (d4, s4) else if fail s5 then (d5, s5) else (d6, s6))"
    using run by (simp only: write_snapshot_to_file_def Let_def 1 2 3 4 5 6 prod.case flip: c_def header_def pieces_def)
  define kvs where "kvs = concat (map (\<lambda>kv. encode_string (fst kv) @ encode_string (snd kv)) (sd_kvs snapshot))"
  define recs where "recs = concat (map encode_RequestRecord (sd_request_records snapshot))"
  define trailer where "trailer = snapshot_trailer (length (sd_kvs snapshot)) (length (sd_request_records snapshot)) body"
  let ?magic = "encode_int32 K_SNAPSHOT_MAGIC" and ?header = "encode_SnapshotHeader header"
  have W1: "cw_wrote path c d ?magic c1 d1 s1"
    by (rule cw_write_raw_wrote [OF fo 1])
  have W2: "cw_wrote path c d (?magic @ ?header) c2 d2 s2" if "s1 = OK"
    using cw_write_raw_wrote [OF _ 2] cw_wrote_file [OF W1] fo by (intro cw_wrote_trans [OF W1 [unfolded that]]) simp
  have W3: "cw_wrote path c d ((?magic @ ?header) @ kvs) c3 d3 s3" if "s1 = OK" "s2 = OK"
    using cw_write_kvs_wrote [OF _ 3] cw_wrote_file [OF W2] fo that
    by (intro cw_wrote_trans [OF W2 [unfolded that(2)]]) (simp_all add: kvs_def)
  have W4: "cw_wrote path c d (((?magic @ ?header) @ kvs) @ recs) c4 d4 s4"
      "s4 = OK \<Longrightarrow> list_all (\<lambda>r. rr_request_id r \<noteq> []) (sd_request_records snapshot)" if "s1 = OK" "s2 = OK" "s3 = OK"
  proof -
    have "fw_file (cw_inner c3) = Some path"
      using cw_wrote_file [OF W3] fo that by simp
    note R = cw_write_records_wrote [OF this 4]
    show "cw_wrote path c d (((?magic @ ?header) @ kvs) @ recs) c4 d4 s4"
      by (rule cw_wrote_trans [OF W3 [unfolded that(3)]]) (simp_all add: that R(1) recs_def)
    show "s4 = OK \<Longrightarrow> list_all (\<lambda>r. rr_request_id r \<noteq> []) (sd_request_records snapshot)"
      by (rule R(2))
  qed
  have body: "body = ((?magic @ ?header) @ kvs) @ recs"
    by (simp add: body_def snapshot_body_def kvs_def recs_def)
  have W5: "wrote path (cw_inner c) d (body @ trailer) w5 d5 s5" if "s1 = OK" "s2 = OK" "s3 = OK" "s4 = OK"
  proof -
    have 4: "cw_wrote path c d body c4 d4 OK"
      using W4(1) [OF that(1-3)] that(4) body by simp
    then have "concat pieces = trailer"
      by (simp add: pieces_def trailer_def snapshot_trailer_def cw_wrote_def c_def compute_crc32_def)
    then show ?thesis
      using fw_write_all_wrote [OF _ 5] cw_wrote_file [OF 4] fo 4 by (auto simp: cw_wrote_def intro: wrote_trans)
  qed
  show "s = OK \<Longrightarrow> list_all (\<lambda>r. rr_request_id r \<noteq> []) (sd_request_records snapshot)"
    using outcome W4(2) by (auto simp: fail_iff split: if_splits)
  have short: "\<exists>w. wrote path (cw_inner c) d (body @ trailer) w d'' s'' \<and> (s'' = OK \<longrightarrow> fw_buf w = [])"
    if "cw_wrote path c d a c' d'' s''" "s'' \<noteq> OK" "body = a @ b" for a b c' d'' s''
    using cw_wrote_fail [OF that(1,2), of "b @ trailer"] that(2,3) by (auto simp: cw_wrote_def)
  consider "s1 \<noteq> OK" | "s1 = OK" "s2 \<noteq> OK" | "s1 = OK" "s2 = OK" "s3 \<noteq> OK" | "s1 = OK" "s2 = OK" "s3 = OK" "s4 \<noteq> OK"
    | "s1 = OK" "s2 = OK" "s3 = OK" "s4 = OK"
    by blast
  then have "\<exists>w. wrote path (cw_inner c) d (body @ trailer) w d' s \<and> (s = OK \<longrightarrow> fw_buf w = [])"
  proof cases
    case 5
    note W = W5 [OF 5]
    have fo5: "fw_file w5 = Some path"
      using W fo by (simp add: wrote_def)
    note S = fw_sync_wrote [OF fo5 6]
    show ?thesis
    proof (cases "s5 = OK")
      case True
      then show ?thesis
        using wrote_trans [OF W [unfolded True] S(1)] S(2) outcome 5 by (auto simp: fail_iff)
    next
      case False
      then show ?thesis
        using W outcome 5 by (auto simp: fail_iff)
    qed
  qed (use outcome short [OF W1] short [OF W2] short [OF W3] short [OF W4(1)] body in \<open>simp_all add: fail_iff\<close>)
  then show "\<exists>w. wrote path (new_FileWriter (Some path)) d (snapshot_of snapshot members) w d' s \<and> (s = OK \<longrightarrow> fw_buf w = [])"
    by (simp add: c_def snapshot_of_def snapshot_bytes_def trailer_def body_def header_def)
qed

section \<open>The reader\<close>

definition fits_kv :: "KV \<Rightarrow> bool" where
  "fits_kv kv \<longleftrightarrow> fits_string (fst kv) \<and> fits_string (snd kv)"

lemma visit_kvs_written:
  assumes "list_all fits_kv kvs"
  shows "snd (visit_kvs fn (length kvs) (concat (map (\<lambda>kv. encode_string (fst kv) @ encode_string (snd kv)) kvs) @ tail) st)
      = visit_all (\<lambda>st kv. fn st (fst kv) (snd kv)) kvs st"
    "snd (visit_all (\<lambda>st kv. fn st (fst kv) (snd kv)) kvs st) = OK \<Longrightarrow>
     fst (visit_kvs fn (length kvs) (concat (map (\<lambda>kv. encode_string (fst kv) @ encode_string (snd kv)) kvs) @ tail) st) = tail"
  using assms
  by (induction kvs arbitrary: st) (auto simp: fits_kv_def codec_simps fail_iff case_prod_beta Let_def)

lemma visit_requests_written:
  assumes "list_all fits_RequestRecord rs" and "list_all (is_kv_write_op \<circ> rr_op) rs"
  shows "snd (visit_requests fn (length rs) (concat (map encode_RequestRecord rs) @ tail) st) = visit_all fn rs st"
  using assms
  by (induction rs arbitrary: st) (auto simp: codec_simps request_record.roundtrip fail_iff case_prod_beta Let_def)

lemma skip_field:
  assumes "fits_string s"
  shows "skip_fields (Suc n) (encode_string s @ rest) = skip_fields n rest"
proof -
  have "fits_signed 32 (int (length s))"
    using assms by (simp add: fits_string_def fits_signed_def)
  then have "decode_int32 (encode_string s @ rest) = Inr (int (length s), map byte_of_char s @ rest)"
    by (simp add: encode_string_def int32_roundtrip)
  then show ?thesis
    by simp
qed

lemma skip_fields_written:
  "list_all fits_kv kvs \<Longrightarrow>
   skip_fields (2 * length kvs) (concat (map (\<lambda>kv. encode_string (fst kv) @ encode_string (snd kv)) kvs) @ tail) = (tail, OK)"
  by (induction kvs) (simp_all add: fits_kv_def skip_field del: skip_fields.simps(2))

text \<open>What is asked of the data so that every count and length fits its field.\<close>

definition fits_snapshot :: "SnapshotHeader \<Rightarrow> KV list \<Rightarrow> RequestRecord list \<Rightarrow> bool" where
  "fits_snapshot header kvs records \<longleftrightarrow> fits_SnapshotHeader header \<and> list_all fits_kv kvs \<and> list_all fits_RequestRecord records
     \<and> list_all (is_kv_write_op \<circ> rr_op) records \<and> length kvs < 2 ^ 31 \<and> length records < 2 ^ 31
     \<and> length (snapshot_bytes header kvs records) < 2 ^ 63"

lemma encode_lengths [simp]: "length (encode_int32 v) = 4" "length (encode_int64 w) = 8" "length (encode_uint32 u) = 4"
  by (simp_all add: encode_int32_def encode_int64_def encode_uint32_def)

lemma snapshot_trailer_length [simp]: "length (snapshot_trailer n m body) = K_SNAPSHOT_TRAILER_BYTES"
  by (simp add: snapshot_trailer_def K_SNAPSHOT_TRAILER_BYTES_def)

lemma read_snapshot_trailer_written:
  assumes "n < 2 ^ 31" and "m < 2 ^ 31" and "length body + K_SNAPSHOT_TRAILER_BYTES < 2 ^ 63"
  shows "read_snapshot_trailer (snapshot_trailer n m body @ rest) = Inr (\<lparr>tr_kv_count = int n, tr_request_count = int m,
    tr_body_crc32 = compute_crc32 body, tr_total_len = int (length body + K_SNAPSHOT_TRAILER_BYTES)\<rparr>, rest)"
proof -
  have "fits_signed 32 (int n)" "fits_signed 32 (int m)" "fits_signed 32 K_SNAPSHOT_MAGIC"
      "fits_signed 64 (int (length body + K_SNAPSHOT_TRAILER_BYTES))"
    using assms by (auto simp: fits_signed_def K_SNAPSHOT_MAGIC_def)
  then show ?thesis
    by (simp add: read_snapshot_trailer_def snapshot_trailer_def codec_simps)
qed

lemma verify_written:
  assumes "fits_snapshot header kvs records"
  shows "verify_snapshot_file (snapshot_bytes header kvs records) = Inr \<lparr>tr_kv_count = int (length kvs),
    tr_request_count = int (length records), tr_body_crc32 = compute_crc32 (snapshot_body header kvs records),
    tr_total_len = int (length (snapshot_bytes header kvs records))\<rparr>"
proof -
  define body where "body = snapshot_body header kvs records"
  obtain tail where tail: "body = encode_int32 K_SNAPSHOT_MAGIC @ tail"
    by (simp add: body_def snapshot_body_def)
  define trailer where "trailer = snapshot_trailer (length kvs) (length records) body"
  have len: "length trailer = K_SNAPSHOT_TRAILER_BYTES" "0 < length body"
    by (simp_all add: trailer_def tail)
  have "read_snapshot_trailer (trailer @ []) = Inr (\<lparr>tr_kv_count = int (length kvs), tr_request_count = int (length records),
      tr_body_crc32 = compute_crc32 body, tr_total_len = int (length body + K_SNAPSHOT_TRAILER_BYTES)\<rparr>, [])"
    unfolding trailer_def using assms
    by (intro read_snapshot_trailer_written) (simp_all add: fits_snapshot_def snapshot_bytes_def flip: body_def)
  moreover have "fits_signed 32 K_SNAPSHOT_MAGIC"
    by (simp add: fits_signed_def K_SNAPSHOT_MAGIC_def)
  then have "decode_int32 (body @ trailer) = Inr (K_SNAPSHOT_MAGIC, tail @ trailer)"
    by (simp add: tail int32_roundtrip)
  moreover have "crc_of_pieces K_SNAPSHOT_VERIFY_BUFFER_BYTES (update_crc32 0 (encode_int32 K_SNAPSHOT_MAGIC)) tail = compute_crc32 body"
    by (simp add: crc_of_pieces_whole K_SNAPSHOT_VERIFY_BUFFER_BYTES_def compute_crc32_def tail flip: update_crc32_append)
  moreover have "length body - 4 = length tail"
    by (simp add: tail)
  ultimately have "verify_snapshot_file (body @ trailer) = Inr \<lparr>tr_kv_count = int (length kvs), tr_request_count = int (length records),
      tr_body_crc32 = compute_crc32 body, tr_total_len = int (length body + K_SNAPSHOT_TRAILER_BYTES)\<rparr>"
    using len by (simp add: verify_snapshot_file_def)
  then show ?thesis
    by (simp add: snapshot_bytes_def len flip: body_def trailer_def)
qed

lemma sr_initialize_written:
  assumes "fits_snapshot header kvs records"
  shows "sr_initialize (Some (snapshot_bytes header kvs records)) = Inr \<lparr>sr_file = Some (snapshot_bytes header kvs records),
    sr_rest = concat (map (\<lambda>kv. encode_string (fst kv) @ encode_string (snd kv)) kvs) @ concat (map encode_RequestRecord records)
      @ snapshot_trailer (length kvs) (length records) (snapshot_body header kvs records),
    sr_header = header, sr_kv_count = int (length kvs), sr_request_count = int (length records)\<rparr>"
proof -
  have "drop 4 (snapshot_bytes header kvs records) = encode_SnapshotHeader header
      @ concat (map (\<lambda>kv. encode_string (fst kv) @ encode_string (snd kv)) kvs) @ concat (map encode_RequestRecord records)
      @ snapshot_trailer (length kvs) (length records) (snapshot_body header kvs records)"
    by (simp add: snapshot_bytes_def [of header] snapshot_body_def [of header kvs records])
  moreover have "fits_SnapshotHeader header"
    using assms by (simp add: fits_snapshot_def)
  ultimately show ?thesis
    by (simp add: sr_initialize_def verify_written [OF assms] snapshot_header.roundtrip)
qed

text \<open>What an opened snapshot gives back.\<close>

definition reads_back :: "SnapshotFileReader \<Rightarrow> SnapshotHeader \<Rightarrow> KV list \<Rightarrow> RequestRecord list \<Rightarrow> ('s \<Rightarrow> Key \<Rightarrow> Value \<Rightarrow> 's \<times> Status)
    \<Rightarrow> ('s \<Rightarrow> RequestRecord \<Rightarrow> 's \<times> Status) \<Rightarrow> bool" where
  "reads_back r header kvs records put add \<longleftrightarrow> sr_header r = header
     \<and> (\<forall>st. snd (sr_for_each_kv put r st) = visit_all (\<lambda>st kv. put st (fst kv) (snd kv)) kvs st)
     \<and> (\<forall>st st' r'. sr_for_each_kv put r st = (r', st', OK) \<longrightarrow> (\<forall>t. snd (sr_for_each_request add r' t) = visit_all add records t))
     \<and> snd (sr_skip_kv_region r) = OK
     \<and> (\<forall>t. snd (sr_for_each_request add (fst (sr_skip_kv_region r)) t) = visit_all add records t)"

lemma sr_reads_back:
  assumes fits: "fits_snapshot header kvs records" and init: "sr_initialize (Some (snapshot_bytes header kvs records)) = Inr r"
  shows "reads_back r header kvs records put add"
proof -
  define kv_bytes where "kv_bytes = concat (map (\<lambda>kv. encode_string (fst kv) @ encode_string (snd kv)) kvs)"
  define tail where "tail = concat (map encode_RequestRecord records)
      @ snapshot_trailer (length kvs) (length records) (snapshot_body header kvs records)"
  have r: "sr_header r = header" "sr_kv_count r = int (length kvs)" "sr_request_count r = int (length records)"
      "sr_rest r = kv_bytes @ tail" "sr_file r = Some (snapshot_bytes header kvs records)"
    using init sr_initialize_written [OF fits] by (auto simp: kv_bytes_def tail_def)
  have kvs: "list_all fits_kv kvs" and records: "list_all fits_RequestRecord records" "list_all (is_kv_write_op \<circ> rr_op) records"
    using fits by (simp_all add: fits_snapshot_def)
  note K = visit_kvs_written [OF kvs, where fn = put and tail = tail, folded kv_bytes_def]
  have R: "snd (sr_for_each_request add (r\<lparr>sr_rest := tail\<rparr>) t) = visit_all add records t" for t
    using visit_requests_written [OF records, of add _ t] r(3,5) by (simp add: sr_for_each_request_def tail_def case_prod_beta)
  have skip: "sr_skip_kv_region r = (r\<lparr>sr_rest := tail\<rparr>, OK)"
    using skip_fields_written [OF kvs, where tail = tail, folded kv_bytes_def] r by (simp add: sr_skip_kv_region_def)
  have kv: "sr_for_each_kv put r st = (r\<lparr>sr_rest := fst (visit_kvs put (length kvs) (kv_bytes @ tail) st)\<rparr>,
      visit_all (\<lambda>st kv. put st (fst kv) (snd kv)) kvs st)" for st
    using K(1) [of st] r by (simp add: sr_for_each_kv_def case_prod_beta)
  have "snd (sr_for_each_request add r' t) = visit_all add records t" if "sr_for_each_kv put r st = (r', st', OK)" for st st' r' t
  proof -
    have "r' = r\<lparr>sr_rest := tail\<rparr>"
      using that K(2) [of st] by (simp add: kv)
    then show ?thesis
      using R by simp
  qed
  then show ?thesis
    using r(1) kv R skip by (auto simp: reads_back_def)
qed

section \<open>Publishing\<close>

text \<open>The store of a replica directory.\<close>

definition new_SnapshotStore :: "string \<Rightarrow> SnapshotStore" where
  "new_SnapshotStore dir = \<lparr>ss_snapshot_path = snapshot_file dir, ss_dir_path = dir\<rparr>"

lemma new_SnapshotStore_simps [simp]:
  "ss_snapshot_path (new_SnapshotStore dir) = snapshot_file dir" "ss_dir_path (new_SnapshotStore dir) = dir"
  by (simp_all add: new_SnapshotStore_def)

lemma write_snapshot_fills: "fills (\<lambda>f. write_snapshot_to_file f snapshot members) (snapshot_of snapshot members)"
  unfolding fills_def
proof (intro allI impI)
  fix path d d' s
  assume asm: "dk_files d path = Some [] \<and> write_snapshot_to_file (Some path) snapshot members d = (d', s)"
  obtain w where w: "wrote path (new_FileWriter (Some path)) d (snapshot_of snapshot members) w d' s" "s = OK \<Longrightarrow> fw_buf w = []"
    using write_snapshot_to_file_wrote(1) [OF conjunct2 [OF asm]] by blast
  have "dk_files d' path = Some (snapshot_of snapshot members)" if "s = OK"
  proof -
    have "content d' path = snapshot_of snapshot members" "dk_files d' path \<noteq> None"
      using w that asm by (auto simp: wrote_def new_FileWriter_def content_def)
    then show ?thesis
      by (auto simp: content_def)
  qed
  then show "(\<forall>q. q \<noteq> path \<longrightarrow> dk_files d' q = dk_files d q) \<and> (s = OK \<longrightarrow> dk_files d' path = Some (snapshot_of snapshot members))"
    using w(1) by (auto simp: wrote_def)
qed

lemma write_local_snapshot_candidate_result:
  assumes run: "write_local_snapshot_candidate ss snapshot members i d = (d', s)"
  shows "q \<noteq> candidate_snapshot_file (ss_dir_path ss) i \<Longrightarrow> dk_files d' q = dk_files d q"
    "s = OK \<Longrightarrow> dk_files d' (candidate_snapshot_file (ss_dir_path ss) i) = Some (snapshot_of snapshot members)"
    "s = OK \<Longrightarrow> list_all (\<lambda>r. rr_request_id r \<noteq> []) (sd_request_records snapshot)"
proof -
  let ?p = "candidate_snapshot_file (ss_dir_path ss) i"
  obtain d1 s1 f where 1: "open_for_write ?p d = (d1, s1, f)" by (metis prod_cases3)
  obtain d2 s2 where 2: "write_snapshot_to_file f snapshot members d1 = (d2, s2)" by fastforce
  obtain d3 s3 where 3: "file_close f d2 = (d3, s3)" by fastforce
  have outcome: "(d', s) = (if fail s1 then (d1, s1) else if fail s2 then (d2, s2) else (d3, s3))"
    using run by (simp only: write_local_snapshot_candidate_def Let_def 1 2 3 prod.case)
  note O = open_for_write_result [OF 1]
  have W: "q \<noteq> ?p \<Longrightarrow> dk_files d2 q = dk_files d q" "s2 = OK \<Longrightarrow> dk_files d2 ?p = Some (snapshot_of snapshot members)"
      "s2 = OK \<Longrightarrow> list_all (\<lambda>r. rr_request_id r \<noteq> []) (sd_request_records snapshot)" if "s1 = OK" for q
    using write_snapshot_fills [unfolded fills_def, rule_format, of d1 ?p snapshot members d2 s2] O(1) [OF that] 2
      write_snapshot_to_file_wrote(2) [of ?p snapshot members d1 d2 s2] by auto
  show "q \<noteq> ?p \<Longrightarrow> dk_files d' q = dk_files d q"
    using outcome W(1) O(2) quiet_calls(2) [OF 3] by (auto simp: fail_iff split: if_splits)
  show "s = OK \<Longrightarrow> dk_files d' ?p = Some (snapshot_of snapshot members)"
    using outcome W(2) quiet_calls(2) [OF 3] by (auto simp: fail_iff split: if_splits)
  show "s = OK \<Longrightarrow> list_all (\<lambda>r. rr_request_id r \<noteq> []) (sd_request_records snapshot)"
    using outcome W(3) by (auto simp: fail_iff split: if_splits)
qed

lemma publish_tmp_snapshot_result:
  assumes "publish_tmp_snapshot tmp path d = (d', s)" and "tmp \<noteq> path"
  shows "dk_files d' = dk_files d \<and> s \<noteq> OK \<or> dk_files d' = (dk_files d)(path := dk_files d tmp, tmp := None) \<and> dk_files d tmp \<noteq> None"
proof -
  obtain d1 s1 where 1: "file_rename tmp path d = (d1, s1)" by fastforce
  obtain d2 s2 where 2: "fsync_dir d1 = (d2, s2)" by fastforce
  show ?thesis
    using assms(1) 1 2 file_rename_result [OF 1 assms(2)] quiet_calls(3) [OF 2]
    by (auto simp: publish_tmp_snapshot_def fail_iff split: if_splits)
qed

text \<open>The index of the snapshot a file holds, 0 when there is none that can be read.\<close>

definition index_of_snapshot :: "byte list option \<Rightarrow> LogIndex" where
  "index_of_snapshot f = (case sr_initialize f of Inl _ \<Rightarrow> 0 | Inr r \<Rightarrow> sh_apply_index (sr_header r))"

lemma publish_local_snapshot_result:
  assumes run: "publish_local_snapshot ss i d = (d', s, published)"
    and neq: "candidate_snapshot_file (ss_dir_path ss) i \<noteq> ss_snapshot_path ss"
  shows "dk_files d' (ss_snapshot_path ss) = dk_files d (ss_snapshot_path ss) \<and> \<not> published
      \<or> dk_files d' (ss_snapshot_path ss) = dk_files d (candidate_snapshot_file (ss_dir_path ss) i)
        \<and> dk_files d (candidate_snapshot_file (ss_dir_path ss) i) \<noteq> None \<and> index_of_snapshot (dk_files d (ss_snapshot_path ss)) < i"
    "published \<Longrightarrow> s = OK"
    "s = OK \<Longrightarrow> \<not> published \<Longrightarrow> i \<le> index_of_snapshot (dk_files d (ss_snapshot_path ss))"
    "q \<noteq> ss_snapshot_path ss \<Longrightarrow> q \<noteq> candidate_snapshot_file (ss_dir_path ss) i \<Longrightarrow> dk_files d' q = dk_files d q"
proof -
  let ?p = "ss_snapshot_path ss" and ?c = "candidate_snapshot_file (ss_dir_path ss) i"
  obtain d1 s1 f where 1: "open_for_read ?p d = (d1, s1, f)" by (metis prod_cases3)
  have r1: "dk_files d1 = dk_files d" "s1 = OK \<Longrightarrow> f = dk_files d ?p"
    using 1 by (auto simp: open_for_read_def syscall_def Let_def split: if_splits)
  obtain d2 s2 where 2: "publish_tmp_snapshot ?c ?p d1 = (d2, s2)" by fastforce
  note P = publish_tmp_snapshot_result [OF 2 neq]
  have cur: "(if f = None then 0 else case sr_initialize f of Inl _ \<Rightarrow> 0 | Inr r \<Rightarrow> sh_apply_index (sr_header r)) = index_of_snapshot f"
    by (auto simp: index_of_snapshot_def sr_initialize_def)
  have outcome: "(d', s, published) = (if fail s1 then (d1, s1, False)
      else if i \<le> index_of_snapshot f then (file_remove ?c d1, OK, False)
      else if fail s2 then (file_remove ?c d2, s2, False) else (file_remove ?c d2, OK, True))"
    using run 1 2 unfolding publish_local_snapshot_def by (auto simp: Let_def cur split: if_splits)
  have rm: "dk_files (file_remove ?c x) q = dk_files x q" if "q \<noteq> ?c" for x q
    using that by (rule file_remove_files)
  consider "d' = d1" "fail s1" "\<not> published" "s = s1" | "s1 = OK" "d' = file_remove ?c d1" "i \<le> index_of_snapshot f" "\<not> published"
    | "s1 = OK" "d' = file_remove ?c d2" "index_of_snapshot f < i" "s = (if fail s2 then s2 else OK)" "published = (\<not> fail s2)"
    using outcome by (auto simp: fail_iff split: if_splits)
  then have all: "(dk_files d' ?p = dk_files d ?p \<and> \<not> published
      \<or> dk_files d' ?p = dk_files d ?c \<and> dk_files d ?c \<noteq> None \<and> index_of_snapshot (dk_files d ?p) < i)
    \<and> (s = OK \<longrightarrow> \<not> published \<longrightarrow> i \<le> index_of_snapshot (dk_files d ?p)) \<and> (\<forall>q. q \<noteq> ?p \<and> q \<noteq> ?c \<longrightarrow> dk_files d' q = dk_files d q)"
    by cases (use r1 P neq rm in \<open>auto simp: fail_iff split: if_splits\<close>)
  then show "dk_files d' ?p = dk_files d ?p \<and> \<not> published
      \<or> dk_files d' ?p = dk_files d ?c \<and> dk_files d ?c \<noteq> None \<and> index_of_snapshot (dk_files d ?p) < i"
    "s = OK \<Longrightarrow> \<not> published \<Longrightarrow> i \<le> index_of_snapshot (dk_files d ?p)"
    "q \<noteq> ?p \<Longrightarrow> q \<noteq> ?c \<Longrightarrow> dk_files d' q = dk_files d q"
    by blast+
  show "published \<Longrightarrow> s = OK"
    using outcome by (auto split: if_splits)
qed

end
