(* ===== verification/Snapshot_Safety.thy ===== *)
theory Snapshot_Safety
  imports Snapshot_Store
begin

text \<open>
  What the snapshot store guarantees: a snapshot that was written and published is read back as it was, a
  stale snapshot never replaces a newer one, a received snapshot is the sent one, and damage to a
  snapshot file is found when it is opened.
\<close>

section \<open>Progress\<close>

lemma no_faults_cw_write_raw:
  assumes "no_faults d" and "fw_file (cw_inner c) = Some path" and "cw_write_raw data c d = (c', d', s)"
  shows "s = OK \<and> no_faults d' \<and> fw_file (cw_inner c') = Some path"
proof -
  obtain w d1 s1 where 1: "fw_write_raw data (cw_inner c) d = (w, d1, s1)"
    by (metis prod_cases3)
  then show ?thesis
    using no_faults_fw_write_raw [OF assms(1,2) 1] assms(3) by (auto simp: cw_write_raw_def fail_iff)
qed

lemma no_faults_cw_write_kv:
  assumes "no_faults d" and "fw_file (cw_inner c) = Some path" and "cw_write_kv kv c d = (c', d', s)"
  shows "s = OK \<and> no_faults d' \<and> fw_file (cw_inner c') = Some path"
proof -
  obtain c1 d1 s1 where 1: "cw_write_raw (encode_string (fst kv)) c d = (c1, d1, s1)"
    by (metis prod_cases3)
  have ok1: "s1 = OK \<and> no_faults d1 \<and> fw_file (cw_inner c1) = Some path"
    by (rule no_faults_cw_write_raw [OF assms(1,2) 1])
  then have "cw_write_raw (encode_string (snd kv)) c1 d1 = (c', d', s)"
    using assms(3) 1 by (simp add: cw_write_kv_def fail_iff)
  then show ?thesis
    using no_faults_cw_write_raw ok1 by blast
qed

lemma no_faults_cw_for:
  assumes "\<And>x c d c' d' s. P x \<Longrightarrow> no_faults d \<Longrightarrow> fw_file (cw_inner c) = Some path \<Longrightarrow> f x c d = (c', d', s) \<Longrightarrow>
      s = OK \<and> no_faults d' \<and> fw_file (cw_inner c') = Some path"
  shows "list_all P xs \<Longrightarrow> no_faults d \<Longrightarrow> fw_file (cw_inner c) = Some path \<Longrightarrow> cw_for f xs c d = (c', d', s) \<Longrightarrow>
    s = OK \<and> no_faults d' \<and> fw_file (cw_inner c') = Some path"
proof (induction xs arbitrary: c d)
  case (Cons x xs)
  obtain c1 d1 s1 where 1: "f x c d = (c1, d1, s1)"
    by (metis prod_cases3)
  have "s1 = OK \<and> no_faults d1 \<and> fw_file (cw_inner c1) = Some path"
    using assms [OF _ Cons.prems(2,3) 1] Cons.prems(1) by simp
  then show ?case
    using Cons.IH [of d1 c1] Cons.prems(1,4) 1 by (simp add: fail_iff)
qed simp

lemma no_faults_cw_write_kvs:
  assumes "no_faults d" and "fw_file (cw_inner c) = Some path" and "cw_for cw_write_kv kvs c d = (c', d', s)"
  shows "s = OK \<and> no_faults d' \<and> fw_file (cw_inner c') = Some path"
  by (rule no_faults_cw_for [where P = "\<lambda>_. True", OF _ _ assms])
    (rule no_faults_cw_write_kv, assumption+, simp add: list_all_iff)

lemma no_faults_cw_write_records:
  assumes "list_all (\<lambda>r. rr_request_id r \<noteq> []) rs" and "no_faults d" and "fw_file (cw_inner c) = Some path"
    and "cw_for cw_write_record rs c d = (c', d', s)"
  shows "s = OK \<and> no_faults d' \<and> fw_file (cw_inner c') = Some path"
proof (rule no_faults_cw_for [OF _ assms])
  fix r c d c' d' s
  assume r: "rr_request_id r \<noteq> []" and d: "no_faults d" "fw_file (cw_inner c) = Some path" and run: "cw_write_record r c d = (c', d', s)"
  have "cw_write_raw (encode_RequestRecord r) c d = (c', d', s)"
    using r run by (simp add: cw_write_record_def)
  then show "s = OK \<and> no_faults d' \<and> fw_file (cw_inner c') = Some path"
    by (rule no_faults_cw_write_raw [OF d])
qed

lemma no_faults_write_snapshot_to_file:
  assumes nf: "no_faults d" and ids: "list_all (\<lambda>r. rr_request_id r \<noteq> []) (sd_request_records snapshot)"
    and run: "write_snapshot_to_file (Some path) snapshot members d = (d', s)"
  shows "s = OK \<and> no_faults d'"
proof -
  define c where "c = \<lparr>cw_inner = new_FileWriter (Some path), cw_crc = 0, cw_bytes = 0\<rparr>"
  define header where "header = (sd_header snapshot)\<lparr>sh_members := members\<rparr>"
  have fo: "fw_file (cw_inner c) = Some path"
    by (simp add: c_def new_FileWriter_def)
  obtain c1 d1 s1 where 1: "cw_write_raw (encode_int32 K_SNAPSHOT_MAGIC) c d = (c1, d1, s1)" by (metis prod_cases3)
  obtain c2 d2 s2 where 2: "cw_write_raw (encode_SnapshotHeader header) c1 d1 = (c2, d2, s2)" by (metis prod_cases3)
  obtain c3 d3 s3 where 3: "cw_for cw_write_kv (sd_kvs snapshot) c2 d2 = (c3, d3, s3)" by (metis prod_cases3)
  obtain c4 d4 s4 where 4: "cw_for cw_write_record (sd_request_records snapshot) c3 d3 = (c4, d4, s4)" by (metis prod_cases3)
  define pieces where "pieces = [encode_int32 (int (length (sd_kvs snapshot))), encode_int32 (int (length (sd_request_records snapshot))),
      encode_uint32 (cw_crc c4), encode_int64 (int (cw_bytes c4 + K_SNAPSHOT_TRAILER_BYTES)), encode_int32 K_SNAPSHOT_MAGIC]"
  obtain w5 d5 s5 where 5: "fw_write_all pieces (cw_inner c4) d4 = (w5, d5, s5)" by (metis prod_cases3)
  obtain w6 d6 s6 where 6: "fw_sync w5 d5 = (w6, d6, s6)" by (metis prod_cases3)
  have outcome: "(d', s) = (if fail s1 then (d1, s1) else if fail s2 then (d2, s2) else if fail s3 then (d3, s3)
      else if fail s4 then (d4, s4) else if fail s5 then (d5, s5) else (d6, s6))"
    using run by (simp only: write_snapshot_to_file_def Let_def 1 2 3 4 5 6 prod.case flip: c_def header_def pieces_def)
  have ok1: "s1 = OK" "no_faults d1" "fw_file (cw_inner c1) = Some path"
    using no_faults_cw_write_raw [OF nf fo 1] by simp_all
  have ok2: "s2 = OK" "no_faults d2" "fw_file (cw_inner c2) = Some path"
    using no_faults_cw_write_raw [OF ok1(2,3) 2] by simp_all
  have ok3: "s3 = OK" "no_faults d3" "fw_file (cw_inner c3) = Some path"
    using no_faults_cw_write_kvs [OF ok2(2,3) 3] by simp_all
  have ok4: "s4 = OK" "no_faults d4" "fw_file (cw_inner c4) = Some path"
    using no_faults_cw_write_records [OF ids ok3(2,3) 4] by simp_all
  have ok5: "s5 = OK" "no_faults d5" "fw_file w5 = Some path"
    using no_faults_fw_write_all [OF ok4(2,3) 5] by simp_all
  have "s6 = OK" "no_faults d6"
    using no_faults_fw_sync [OF ok5(2,3) 6] by simp_all
  then show ?thesis
    using outcome ok1(1) ok2(1) ok3(1) ok4(1) ok5(1) by (simp add: fail_iff)
qed

lemma no_faults_write_local_snapshot_candidate:
  assumes "no_faults d" and "list_all (\<lambda>r. rr_request_id r \<noteq> []) (sd_request_records snapshot)"
    and "write_local_snapshot_candidate ss snapshot members i d = (d', s)"
  shows "s = OK \<and> no_faults d'"
proof -
  let ?p = "candidate_snapshot_file (ss_dir_path ss) i"
  obtain d1 s1 f where 1: "open_for_write ?p d = (d1, s1, f)" by (metis prod_cases3)
  have ok1: "s1 = OK" "f = Some ?p" "no_faults d1"
    using no_faults_calls(1) [OF assms(1) 1] by simp_all
  obtain d2 s2 where 2: "write_snapshot_to_file (Some ?p) snapshot members d1 = (d2, s2)" by fastforce
  have ok2: "s2 = OK \<and> no_faults d2"
    by (rule no_faults_write_snapshot_to_file [OF ok1(3) assms(2) 2])
  then show ?thesis
    using assms(3) 1 2 ok1 no_faults_calls(4) [of d2 "Some ?p"] by (auto simp: write_local_snapshot_candidate_def fail_iff)
qed

lemma no_faults_publish_local_snapshot:
  assumes "no_faults d" and "dk_files d (candidate_snapshot_file (ss_dir_path ss) i) \<noteq> None"
    and "publish_local_snapshot ss i d = (d', s, published)"
  shows "s = OK \<and> no_faults d'"
proof -
  let ?p = "ss_snapshot_path ss" and ?c = "candidate_snapshot_file (ss_dir_path ss) i"
  obtain d1 s1 f where 1: "open_for_read ?p d = (d1, s1, f)" by (metis prod_cases3)
  have ok1: "s1 = OK" "no_faults d1" "dk_files d1 = dk_files d"
    using no_faults_calls(3) [OF assms(1) 1] by simp_all
  obtain d2 s2 where 2: "file_rename ?c ?p d1 = (d2, s2)" by fastforce
  have ok2: "s2 = OK" "no_faults d2"
    using no_faults_calls(8) [OF ok1(2) 2] assms(2) ok1(3) by simp_all
  obtain d3 s3 where 3: "fsync_dir d2 = (d3, s3)" by fastforce
  have ok3: "s3 = OK" "no_faults d3"
    using no_faults_calls(7) [OF ok2(2) 3] by simp_all
  have "publish_tmp_snapshot ?c ?p d1 = (d3, OK)"
    by (simp add: publish_tmp_snapshot_def 2 3 ok2(1) ok3(1) fail_iff)
  then show ?thesis
    using assms(3) 1 ok1 ok3(2) no_faults_calls(9)
    unfolding publish_local_snapshot_def by (auto simp: fail_iff Let_def split: if_splits)
qed

section \<open>A snapshot that was published\<close>

text \<open>A small snapshot for the witnesses.\<close>

definition demo_snapshot :: SnapshotData where
  "demo_snapshot = \<lparr>sd_header = \<lparr>sh_apply_index = 7, sh_apply_term = 2, sh_members = []\<rparr>, sd_kvs = [(''k'', ''v'')],
     sd_request_records = []\<rparr>"

definition demo_snapshot_disk :: Disk where
  "demo_snapshot_disk = \<lparr>dk_files = Map.empty, dk_faults = (\<lambda>_. None), dk_calls = 0\<rparr>"

lemma demo_snapshot_fits: "fits_snapshot (sd_header demo_snapshot) (sd_kvs demo_snapshot) (sd_request_records demo_snapshot)"
  by (simp add: demo_snapshot_def fits_snapshot_def fits_SnapshotHeader_def fits_signed_def fits_kv_def fits_string_def
      snapshot_bytes_def snapshot_body_def encode_SnapshotHeader_def encode_vector_def encode_string_def K_SNAPSHOT_TRAILER_BYTES_def)

lemma empty_disk_publishes:
  assumes "list_all (\<lambda>r. rr_request_id r \<noteq> []) (sd_request_records snapshot)" and "0 < i"
  obtains d1 d2 where "write_local_snapshot_candidate (new_SnapshotStore ''r'') snapshot members i demo_snapshot_disk = (d1, OK)"
    "publish_local_snapshot (new_SnapshotStore ''r'') i d1 = (d2, OK, True)" "no_faults d2"
proof -
  obtain d1 s1 where 1: "write_local_snapshot_candidate (new_SnapshotStore ''r'') snapshot members i demo_snapshot_disk = (d1, s1)"
    by fastforce
  obtain d2 s2 b where 2: "publish_local_snapshot (new_SnapshotStore ''r'') i d1 = (d2, s2, b)"
    by (metis prod_cases3)
  have "no_faults demo_snapshot_disk"
    by (simp add: no_faults_def demo_snapshot_disk_def)
  then have ok1: "s1 = OK" "no_faults d1"
    using no_faults_write_local_snapshot_candidate [OF _ assms(1) 1] by simp_all
  note W = write_local_snapshot_candidate_result [OF 1]
  have ok2: "s2 = OK" "no_faults d2"
    using no_faults_publish_local_snapshot [OF ok1(2) _ 2] W(2) ok1(1) by simp_all
  have "dk_files d1 (snapshot_file ''r'') = None"
    using W(1) [of "snapshot_file ''r''"] snapshot_temp_files_differ(2) [of "''r''" i, symmetric]
    by (simp add: demo_snapshot_disk_def)
  then have b
    using publish_local_snapshot_result(3) [OF 2] ok2(1) assms(2) by (auto simp: index_of_snapshot_def sr_initialize_def)
  then show thesis
    using that 1 2 ok1(1) ok2 by simp
qed

lemma demo_snapshot_published:
  obtains d1 d2 where "write_local_snapshot_candidate (new_SnapshotStore ''r'') demo_snapshot [] 7 demo_snapshot_disk = (d1, OK)"
    "publish_local_snapshot (new_SnapshotStore ''r'') 7 d1 = (d2, OK, True)" "no_faults d2"
  by (rule empty_disk_publishes [of demo_snapshot 7 "[]"]) (simp_all add: demo_snapshot_def)

text \<open>Opening the file of a store gives the reader of its bytes.\<close>

lemma open_reader_reads:
  assumes "open_reader ss d = (d', Inr (Some r))" and "dk_files d (ss_snapshot_path ss) = Some bytes"
  shows "sr_initialize (Some bytes) = Inr r"
  using assms by (cases "sr_initialize (Some bytes)")
    (auto simp: open_reader_def open_for_read_def syscall_def fail_iff Let_def split: option.splits if_splits)

lemma open_reader_opens:
  assumes "no_faults d" and "dk_files d (ss_snapshot_path ss) = Some bytes" and "sr_initialize (Some bytes) = Inr r"
  shows "\<exists>d'. open_reader ss d = (d', Inr (Some r))"
  using assms by (auto simp: open_reader_def open_for_read_def syscall_def no_faults_def fail_iff Let_def)

lemma published_file:
  assumes "write_local_snapshot_candidate (new_SnapshotStore dir) snapshot members i d = (d1, OK)"
    and "publish_local_snapshot (new_SnapshotStore dir) i d1 = (d2, OK, True)"
  shows "dk_files d2 (snapshot_file dir) = Some (snapshot_of snapshot members)"
  using publish_local_snapshot_result(1) [OF assms(2)] write_local_snapshot_candidate_result(2) [OF assms(1)] by simp

text \<open>
  C20. A captured snapshot that was written as a candidate and then published, with any failures in between that the
  calls did not report: opening the snapshot succeeds, the header is the captured one with the members
  given, and reading visits exactly the captured pairs and then exactly the captured request records, also
  when the pairs are skipped.
\<close>

theorem snapshot_reads_back:
  assumes "fits_snapshot ((sd_header snapshot)\<lparr>sh_members := members\<rparr>) (sd_kvs snapshot) (sd_request_records snapshot)"
    and "write_local_snapshot_candidate (new_SnapshotStore dir) snapshot members i d = (d1, OK)"
    and "publish_local_snapshot (new_SnapshotStore dir) i d1 = (d2, OK, True)"
    and "open_reader (new_SnapshotStore dir) d2 = (d3, res)" and "dk_faults d2 (dk_calls d2) = None"
  shows "\<exists>r. res = Inr (Some r) \<and> reads_back r ((sd_header snapshot)\<lparr>sh_members := members\<rparr>) (sd_kvs snapshot)
    (sd_request_records snapshot) put add"
proof -
  have "dk_files d2 (snapshot_file dir) = Some (snapshot_of snapshot members)"
    by (rule published_file [OF assms(2,3)])
  then have "res = map_sum id Some (sr_initialize (Some (snapshot_of snapshot members)))"
    using assms(4,5) by (auto simp: open_reader_def open_for_read_def syscall_def fail_iff Let_def)
  moreover obtain r where r: "sr_initialize (Some (snapshot_of snapshot members)) = Inr r"
    using sr_initialize_written [OF assms(1)] by (simp add: snapshot_of_def)
  ultimately show ?thesis
    using sr_reads_back [OF assms(1) r [unfolded snapshot_of_def]] by simp
qed

theorem snapshot_reads_back_witness:
  "\<exists>d1 d2 d3 r. write_local_snapshot_candidate (new_SnapshotStore ''r'') demo_snapshot [] 7 demo_snapshot_disk = (d1, OK)
     \<and> publish_local_snapshot (new_SnapshotStore ''r'') 7 d1 = (d2, OK, True)
     \<and> open_reader (new_SnapshotStore ''r'') d2 = (d3, Inr (Some r))
     \<and> snd (sr_for_each_kv (\<lambda>st k v. (st @ [(k, v)], OK)) r []) = ([(''k'', ''v'')], OK)"
proof -
  obtain d1 d2 where 1: "write_local_snapshot_candidate (new_SnapshotStore ''r'') demo_snapshot [] 7 demo_snapshot_disk = (d1, OK)"
      and 2: "publish_local_snapshot (new_SnapshotStore ''r'') 7 d1 = (d2, OK, True)" and nf: "no_faults d2"
    by (rule demo_snapshot_published)
  obtain d3 res where 3: "open_reader (new_SnapshotStore ''r'') d2 = (d3, res)"
    by fastforce
  have h: "(sd_header demo_snapshot)\<lparr>sh_members := []\<rparr> = sd_header demo_snapshot"
    by (simp add: demo_snapshot_def)
  obtain r where r: "res = Inr (Some r)" "reads_back r (sd_header demo_snapshot) (sd_kvs demo_snapshot) (sd_request_records demo_snapshot)
      (\<lambda>st k v. (st @ [(k, v)], OK)) (\<lambda>st _. (st, OK))"
    using snapshot_reads_back [OF _ 1 2 3, unfolded h, OF demo_snapshot_fits, where put = "\<lambda>st k v. (st @ [(k, v)], OK)"
        and add = "\<lambda>st _. (st, OK)"] nf
    by (auto simp: no_faults_def)
  then have "snd (sr_for_each_kv (\<lambda>st k v. (st @ [(k, v)], OK)) r []) = ([(''k'', ''v'')], OK)"
    by (simp add: reads_back_def demo_snapshot_def)
  then show ?thesis
    using 1 2 3 r(1) by blast
qed



section \<open>Errors of the decoders\<close>

text \<open>A decoder that fails gives an error.\<close>

definition reports :: "'a decoder \<Rightarrow> bool" where
  "reports d \<longleftrightarrow> (\<forall>data. d data \<noteq> Inl OK)"

lemma reports_basic [simp]: "reports (read_raw n)" "reports (dec_return x)" "s \<noteq> OK \<Longrightarrow> reports (dec_fail s)"
  by (auto simp: reports_def read_raw_def)

lemma reports_and_then [intro!]: "reports d \<Longrightarrow> (\<And>x. reports (f x)) \<Longrightarrow> reports (and_then d f)"
  by (auto simp: reports_def and_then_def split: sum.splits prod.splits)

lemma reports_if [intro!]: "(c \<Longrightarrow> reports a) \<Longrightarrow> (\<not> c \<Longrightarrow> reports b) \<Longrightarrow> reports (if c then a else b)"
  by simp

lemma reports_times: "reports d \<Longrightarrow> reports (decode_times d n)"
  by (induction n) (auto simp: Let_def)

lemma reports_vector: "reports d \<Longrightarrow> reports (decode_vector d)"
  by (auto simp: decode_vector_def decode_int32_def intro: reports_times)

lemma reports_SnapshotHeader: "reports decode_SnapshotHeader"
  unfolding decode_SnapshotHeader_def decode_int64_def
  by (auto intro!: reports_vector
      simp: decode_RaftMember_def decode_PeerMember_def decode_ReplicaID_def decode_Endpoint_def decode_string_def
      decode_RaftMemberType_def decode_enum_def decode_int32_def)

lemma sr_initialize_error: "sr_initialize f = Inl e \<Longrightarrow> e \<noteq> OK"
proof -
  have "reports read_snapshot_trailer" "reports decode_int32"
    by (auto simp: read_snapshot_trailer_def decode_int32_def decode_uint32_def decode_int64_def)
  then have "verify_snapshot_file data \<noteq> Inl OK" for data
    by (auto simp: verify_snapshot_file_def reports_def Let_def split: sum.splits)
  then show "sr_initialize f = Inl e \<Longrightarrow> e \<noteq> OK"
    using reports_SnapshotHeader by (auto simp: sr_initialize_def reports_def split: option.splits sum.splits)
qed

lemma byte_of_multiple: "word_of_int (v + 256 * k) = (word_of_int v :: byte)"
proof -
  have "(256 :: byte) = 0"
    by simp
  then have "(256 :: byte) * word_of_int k = 0"
    by (simp only: mult_zero_left)
  then show ?thesis
    by simp
qed

lemma le_bytes_le_int: "le_bytes (length bs) (le_int bs) = bs"
proof (induction bs)
  case (Cons b bs)
  have "uint b div 256 = 0"
    using uint_lt2p [of b] by simp
  then show ?case
    using Cons byte_of_multiple [of "uint b" "le_int bs"] by simp
qed simp

lemma le_bytes_wrap: "le_bytes n (v - 256 ^ n) = le_bytes n v"
proof (induction n arbitrary: v)
  case (Suc n)
  have "v - 256 ^ Suc n = v + 256 * (- (256 ^ n))"
    by simp
  moreover have "(v + 256 * (- (256 ^ n))) div 256 = v div 256 - 256 ^ n"
    by (subst div_mult_self2) simp_all
  ultimately show ?case
    using Suc byte_of_multiple [of v "- (256 ^ n)"] by simp
qed simp

lemma decode_int32_exact:
  assumes "decode_int32 data = Inr (v, rest)"
  shows "data = encode_int32 v @ rest"
proof -
  obtain bs where bs: "length bs = 4" "data = bs @ rest" "v = as_signed 32 (le_int bs)"
    using assms by (auto simp: decode_int32_def read_raw_def and_then_def split: if_splits) 
      (metis append_take_drop_id length_take min.absorb2 not_less)
  then show ?thesis
    using le_bytes_le_int [of bs] le_bytes_wrap [of 4 "le_int bs"] by (simp add: encode_int32_def as_signed_def)
qed

section \<open>A snapshot that was received\<close>

lemma append_snapshot_chunk_result:
  assumes run: "append_snapshot_chunk ss param d = (d', OK)"
  defines "p \<equiv> receiving_snapshot_file (ss_dir_path ss) (is_snapshot_index param)"
  defines "old \<equiv> (if is_offset param = 0 then [] else content d p)"
  shows "length old = is_offset param" "dk_files d' p = Some (old @ is_data param)" "q \<noteq> p \<Longrightarrow> dk_files d' q = dk_files d q"
proof -
  obtain d1 s1 f where 1: "(if is_offset param = 0 then open_for_write p d else open_for_append p d) = (d1, s1, f)"
    by (metis prod_cases3)
  obtain d2 s2 n where 2: "file_size f d1 = (d2, s2, n)" by (metis prod_cases3)
  obtain w3 d3 s3 where 3: "fw_write_raw (is_data param) (new_FileWriter f) d2 = (w3, d3, s3)" by (metis prod_cases3)
  obtain w4 d4 s4 where 4: "fw_sync w3 d3 = (w4, d4, s4)" by (metis prod_cases3)
  have "(d', OK) = (if fail s1 then (d1, s1) else if fail s2 then (d2, s2) else if n \<noteq> is_offset param then (d2, ERROR)
      else if fail s3 then (d3, s3) else (d4, s4))"
    using run by (simp only: append_snapshot_chunk_def Let_def 1 2 3 4 prod.case flip: p_def)
  then have ok: "s1 = OK" "s2 = OK" "n = is_offset param" "s3 = OK" "s4 = OK" "d' = d4"
    by (auto simp: fail_iff split: if_splits)
  have f: "f = Some p" "dk_files d1 = (dk_files d)(p \<mapsto> old)"
    using 1 ok(1) by (auto simp: open_for_write_def open_for_append_def syscall_def Let_def old_def content_def split: if_splits option.splits)
  have d2: "dk_files d2 = dk_files d1" "n = length old"
    using 2 ok(2) f by (auto simp: file_size_def syscall_def Let_def content_def split: if_splits)
  have fo: "fw_file (new_FileWriter (Some p)) = Some p"
    by (simp add: new_FileWriter_def)
  have W: "wrote p (new_FileWriter (Some p)) d2 (is_data param) w3 d3 OK"
    using fw_write_raw_wrote [OF fo 3 [unfolded f(1)]] ok(4) by simp
  have "fw_file w3 = Some p"
    using W fo by (simp add: wrote_def)
  note S = fw_sync_wrote [OF this 4 [unfolded ok(5)]]
  have all: "wrote p (new_FileWriter (Some p)) d2 (is_data param) w4 d4 OK"
    using wrote_trans [OF W S(1)] by simp
  then have "content d4 p = content d2 p @ is_data param" "dk_files d4 p \<noteq> None"
    using S(2) d2(1) f(2) by (auto simp: wrote_def new_FileWriter_def)
  then show "dk_files d' p = Some (old @ is_data param)"
    using ok(6) d2(1) f(2) by (auto simp: content_def)
  show "length old = is_offset param"
    using ok(3) d2(2) by simp
  show "q \<noteq> p \<Longrightarrow> dk_files d' q = dk_files d q"
    using all ok(6) d2(1) f(2) by (simp add: wrote_def)
qed

text \<open>The receiver's side of a transfer: chunks are appended one after the other until one fails.\<close>

fun receive_chunks :: "SnapshotStore \<Rightarrow> InstallSnapshotParam list \<Rightarrow> Disk \<Rightarrow> Disk \<times> Status" where
  "receive_chunks ss [] d = (d, OK)"
| "receive_chunks ss (p # ps) d = (let (d1, s1) = append_snapshot_chunk ss p d in
    if fail s1 then (d1, s1) else receive_chunks ss ps d1)"

text \<open>The sender's side: each message carries the chunk read at its offset, and the next offset is behind it.\<close>

fun sent_from :: "SnapshotFileReader \<Rightarrow> nat \<Rightarrow> LogIndex \<Rightarrow> nat \<Rightarrow> InstallSnapshotParam list \<Rightarrow> bool" where
  "sent_from r max_bytes idx offset [] \<longleftrightarrow> False"
| "sent_from r max_bytes idx offset (p # ps) \<longleftrightarrow> is_snapshot_index p = idx \<and> is_offset p = offset
     \<and> (case sr_read_chunk r offset max_bytes of Inl _ \<Rightarrow> False
        | Inr (data, eof) \<Rightarrow> is_data p = data \<and> (if eof then ps = [] else sent_from r max_bytes idx (offset + length data) ps))"

lemma receive_chunks_result:
  assumes "sr_file r = Some data" and "sent_from r max_bytes idx offset ps" and "receive_chunks ss ps d = (d', OK)"
  defines "p \<equiv> receiving_snapshot_file (ss_dir_path ss) idx"
  assumes "offset = 0 \<or> content d p = take offset data"
  shows "dk_files d' p = Some data \<and> (\<forall>q. q \<noteq> p \<longrightarrow> dk_files d' q = dk_files d q)"
  using assms(2,3,5)
proof (induction ps arbitrary: offset d)
  case (Cons m ps)
  have m: "is_snapshot_index m = idx" "is_offset m = offset"
    using Cons.prems(1) by simp_all
  have le: "offset \<le> length data"
    using Cons.prems(1) assms(1) by (auto simp: sr_read_chunk_def split: if_splits)
  define n where "n = min max_bytes (length data - offset)"
  have chunk: "is_data m = take n (drop offset data)"
      "if offset + n \<ge> length data then ps = [] else sent_from r max_bytes idx (offset + n) ps"
    using Cons.prems(1) assms(1) le by (auto simp: sr_read_chunk_def n_def Let_def split: if_splits)
  obtain d1 where 1: "append_snapshot_chunk ss m d = (d1, OK)" "receive_chunks ss ps d1 = (d', OK)"
    using Cons.prems(2) by (auto simp: fail_iff split: prod.splits if_splits)
  note A = append_snapshot_chunk_result [OF 1(1), unfolded m, folded p_def]
  have "(if offset = 0 then [] else content d p) = take offset data"
    using Cons.prems(3) by auto
  then have d1: "dk_files d1 p = Some (take (offset + n) data)"
    using A(2) chunk(1) by (simp add: take_add)
  show ?case
  proof (cases "offset + n \<ge> length data")
    case True
    then show ?thesis
      using chunk(2) 1(2) d1 A(3) by simp
  next
    case False
    then have "dk_files d' p = Some data \<and> (\<forall>q. q \<noteq> p \<longrightarrow> dk_files d' q = dk_files d1 q)"
      using chunk(2) 1(2) d1 by (intro Cons.IH [of "offset + n" d1]) (simp_all add: content_def)
    then show ?thesis
      using A(3) by simp
  qed
qed simp

lemma finish_snapshot_receive_result:
  assumes run: "finish_snapshot_receive (new_SnapshotStore dir) param d = (d', s)"
  defines "p \<equiv> receiving_snapshot_file dir (is_snapshot_index param)"
  shows "dk_files d' (snapshot_file dir) = dk_files d (snapshot_file dir) \<and> s \<noteq> OK
    \<or> dk_files d' (snapshot_file dir) = dk_files d p \<and> (\<exists>r. sr_initialize (dk_files d p) = Inr r)"
proof -
  obtain d1 s1 f where 1: "open_for_read p d = (d1, s1, f)" by (metis prod_cases3)
  have r1: "dk_files d1 = dk_files d" "s1 = OK \<Longrightarrow> f = dk_files d p"
    using 1 by (auto simp: open_for_read_def syscall_def Let_def split: if_splits)
  obtain d2 s2 where 2: "publish_tmp_snapshot p (snapshot_file dir) d1 = (d2, s2)" by fastforce
  have "p \<noteq> snapshot_file dir"
    by (simp add: p_def)
  note P = publish_tmp_snapshot_result [OF 2 this]
  have "(d', s) = (if fail s1 then (d1, s1) else if f = None then (d1, ERROR)
      else case sr_initialize f of Inl e \<Rightarrow> (d1, e) | Inr _ \<Rightarrow> (d2, s2))"
    using run by (simp only: finish_snapshot_receive_def new_SnapshotStore_simps Let_def 1 2 prod.case flip: p_def)
  moreover have "e \<noteq> OK" if "sr_initialize f = Inl e" for e
    using that by (rule sr_initialize_error)
  ultimately show ?thesis
    using r1 P \<open>p \<noteq> snapshot_file dir\<close> by (auto simp: fail_iff split: if_splits sum.splits)
qed

text \<open>
  C22. A snapshot sent in chunks of any size and received completely: when the last step of the receiver
  succeeds, its snapshot file is byte for byte the file the sender has opened, and it opens as a
  snapshot with the same header.
\<close>

theorem snapshot_transfer:
  assumes "sr_initialize (Some data) = Inr r" and "sent_from r max_bytes idx 0 ps"
    and "receive_chunks (new_SnapshotStore dir) ps d = (d1, OK)"
    and "is_snapshot_index param = idx" and "finish_snapshot_receive (new_SnapshotStore dir) param d1 = (d2, OK)"
  shows "dk_files d2 (snapshot_file dir) = Some data \<and> sr_initialize (dk_files d2 (snapshot_file dir)) = Inr r"
proof -
  have "sr_file r = Some data"
    using assms(1) by (auto simp: sr_initialize_def split: sum.splits)
  then have "dk_files d1 (receiving_snapshot_file dir idx) = Some data"
    using receive_chunks_result [OF _ assms(2,3)] by simp
  then show ?thesis
    using finish_snapshot_receive_result [OF assms(5)] assms(1,4) by simp
qed

lemma no_faults_first_chunk:
  assumes nf: "no_faults d" and off: "is_offset param = 0" and run: "append_snapshot_chunk ss param d = (d', s)"
  shows "s = OK \<and> no_faults d'"
proof -
  define p where "p = receiving_snapshot_file (ss_dir_path ss) (is_snapshot_index param)"
  obtain d1 s1 f where 1: "open_for_write p d = (d1, s1, f)" by (metis prod_cases3)
  have ok1: "s1 = OK" "f = Some p" "no_faults d1" "content d1 p = []"
    using no_faults_calls(1) [OF nf 1] open_for_write_result(1) [OF 1] by (simp_all add: content_def)
  obtain d2 s2 n where 2: "file_size (Some p) d1 = (d2, s2, n)" by (metis prod_cases3)
  have ok2: "s2 = OK" "n = 0" "no_faults d2"
    using 2 ok1(3,4) by (auto simp: file_size_def syscall_def no_faults_def content_def Let_def)
  have fo: "fw_file (new_FileWriter (Some p)) = Some p"
    by (simp add: new_FileWriter_def)
  obtain w3 d3 s3 where 3: "fw_write_raw (is_data param) (new_FileWriter (Some p)) d2 = (w3, d3, s3)" by (metis prod_cases3)
  have ok3: "s3 = OK" "no_faults d3" "fw_file w3 = Some p"
    using no_faults_fw_write_raw [OF ok2(3) fo 3] by simp_all
  obtain w4 d4 s4 where 4: "fw_sync w3 d3 = (w4, d4, s4)" by (metis prod_cases3)
  have "s4 = OK" "no_faults d4"
    using no_faults_fw_sync [OF ok3(2,3) 4] by simp_all
  then show ?thesis
    using run off 1 2 3 4 ok1(1,2) ok2(1,2) ok3(1) by (simp add: append_snapshot_chunk_def fail_iff flip: p_def)
qed

lemma no_faults_finish:
  assumes nf: "no_faults d" and session: "sr_initialize (dk_files d (receiving_snapshot_file (ss_dir_path ss) (is_snapshot_index param))) = Inr r"
    and run: "finish_snapshot_receive ss param d = (d', s)"
  shows "s = OK"
proof -
  define p where "p = receiving_snapshot_file (ss_dir_path ss) (is_snapshot_index param)"
  obtain d1 s1 f where 1: "open_for_read p d = (d1, s1, f)" by (metis prod_cases3)
  have ok1: "s1 = OK" "f = dk_files d p" "no_faults d1" "dk_files d1 = dk_files d"
    using no_faults_calls(3) [OF nf 1] by simp_all
  have f: "f \<noteq> None" "sr_initialize f = Inr r"
    using session ok1(2) by (auto simp: sr_initialize_def p_def split: option.splits)
  obtain d2 s2 where 2: "file_rename p (ss_snapshot_path ss) d1 = (d2, s2)" by fastforce
  have ok2: "s2 = OK" "no_faults d2"
    using no_faults_calls(8) [OF ok1(3) 2] f(1) ok1(2,4) by simp_all
  obtain d3 s3 where 3: "fsync_dir d2 = (d3, s3)" by fastforce
  have "s3 = OK"
    using no_faults_calls(7) [OF ok2(2) 3] by simp
  then show ?thesis
    using run 1 2 3 f ok1(1) ok2(1) by (simp add: finish_snapshot_receive_def publish_tmp_snapshot_def fail_iff flip: p_def)
qed

theorem snapshot_transfer_witness:
  "\<exists>data r p d1 d2. sr_initialize (Some data) = Inr r \<and> sent_from r 1000 7 0 [p]
     \<and> receive_chunks (new_SnapshotStore ''q'') [p] demo_snapshot_disk = (d1, OK)
     \<and> finish_snapshot_receive (new_SnapshotStore ''q'') p d1 = (d2, OK) \<and> dk_files d2 (snapshot_file ''q'') = Some data"
proof -
  define data where "data = snapshot_bytes (sd_header demo_snapshot) (sd_kvs demo_snapshot) (sd_request_records demo_snapshot)"
  obtain r where r: "sr_initialize (Some data) = Inr r" "sr_file r = Some data"
    using sr_initialize_written [OF demo_snapshot_fits] by (simp add: data_def)
  define p where "p = \<lparr>is_from = default_ReplicaID, is_to = default_ReplicaID, is_term = 2, is_snapshot_index = 7,
    is_snapshot_term = 2, is_offset = 0, is_data = data, is_done = True\<rparr>"
  have "length data < 1000"
    by (simp add: data_def demo_snapshot_def snapshot_bytes_def snapshot_body_def encode_SnapshotHeader_def encode_vector_def
        encode_string_def K_SNAPSHOT_TRAILER_BYTES_def)
  then have sent: "sent_from r 1000 7 0 [p]"
    using r(2) by (simp add: sr_read_chunk_def p_def)
  have nf: "no_faults demo_snapshot_disk"
    by (simp add: no_faults_def demo_snapshot_disk_def)
  obtain d1 s1 where 1: "append_snapshot_chunk (new_SnapshotStore ''q'') p demo_snapshot_disk = (d1, s1)" by fastforce
  have ok1: "s1 = OK" "no_faults d1"
    using no_faults_first_chunk [OF nf _ 1] by (simp_all add: p_def)
  have rec: "receive_chunks (new_SnapshotStore ''q'') [p] demo_snapshot_disk = (d1, OK)"
    using 1 ok1(1) by (simp add: fail_iff)
  obtain d2 s2 where 2: "finish_snapshot_receive (new_SnapshotStore ''q'') p d1 = (d2, s2)" by fastforce
  have "dk_files d1 (receiving_snapshot_file ''q'' 7) = Some data"
    using receive_chunks_result [OF r(2) sent rec] by simp
  then have "s2 = OK"
    using no_faults_finish [OF ok1(2) _ 2] r(1) by (simp add: p_def)
  then show ?thesis
    using snapshot_transfer [OF r(1) sent rec _ 2 [unfolded \<open>s2 = OK\<close>]] r(1) sent rec 2
    by (intro exI [of _ data] exI [of _ r] exI [of _ p] exI [of _ d1] exI [of _ d2]) (simp add: p_def)
qed

text \<open>
  C23. A snapshot file in which up to four neighbouring bytes of the body were changed does not open,
  whatever the bytes are.
\<close>

theorem damaged_snapshot_rejected:
  assumes "fits_snapshot header kvs records" and "snapshot_body header kvs records = xs @ us @ ys"
    and "us \<noteq> vs" and "length us = length vs" and "length us \<le> 4"
  shows "\<exists>e. e \<noteq> OK \<and> sr_initialize (Some (xs @ vs @ ys
      @ snapshot_trailer (length kvs) (length records) (snapshot_body header kvs records))) = Inl e"
proof -
  define body where "body = snapshot_body header kvs records"
  define bad where "bad = xs @ vs @ ys"
  define trailer where "trailer = snapshot_trailer (length kvs) (length records) body"
  have "4 \<le> length body"
    by (simp add: body_def snapshot_body_def)
  moreover have "length bad = length body" "length trailer = K_SNAPSHOT_TRAILER_BYTES"
    using assms(2,4) by (simp_all add: bad_def body_def trailer_def)
  ultimately have len: "length bad = length body" "length trailer = K_SNAPSHOT_TRAILER_BYTES" "4 \<le> length body"
    by simp_all
  have "read_snapshot_trailer (trailer @ []) = Inr (\<lparr>tr_kv_count = int (length kvs), tr_request_count = int (length records),
      tr_body_crc32 = compute_crc32 body, tr_total_len = int (length body + K_SNAPSHOT_TRAILER_BYTES)\<rparr>, [])"
    unfolding trailer_def using assms(1)
    by (intro read_snapshot_trailer_written) (simp_all add: fits_snapshot_def snapshot_bytes_def flip: body_def)
  then have tr: "read_snapshot_trailer trailer = Inr (\<lparr>tr_kv_count = int (length kvs), tr_request_count = int (length records),
      tr_body_crc32 = compute_crc32 body, tr_total_len = int (length body + K_SNAPSHOT_TRAILER_BYTES)\<rparr>, [])"
    by simp
  have crc: "compute_crc32 bad \<noteq> compute_crc32 body"
    using crc32_burst_differs [OF assms(3-5), of 0 xs ys] assms(2) by (simp add: compute_crc32_def body_def bad_def)
  have "\<not> (\<exists>t. verify_snapshot_file (bad @ trailer) = Inr t)"
  proof
    assume "\<exists>t. verify_snapshot_file (bad @ trailer) = Inr t"
    then obtain m rest where m: "decode_int32 (bad @ trailer) = Inr (m, rest)" "m = K_SNAPSHOT_MAGIC"
        "update_crc32 (update_crc32 0 (encode_int32 m)) (take (length body - 4) rest) = compute_crc32 body"
      using len tr by (auto simp: verify_snapshot_file_def Let_def crc_of_pieces_whole K_SNAPSHOT_VERIFY_BUFFER_BYTES_def
          split: sum.splits if_splits prod.splits)
    have "bad @ trailer = encode_int32 m @ rest"
      using decode_int32_exact [OF m(1)] .
    then have "bad = take (length body) (encode_int32 m @ rest)"
      using len(1) by (metis append_eq_conv_conj)
    then have "bad = encode_int32 m @ take (length body - 4) rest"
      using len(3) by simp
    then show False
      using m(3) crc by (simp add: compute_crc32_def flip: update_crc32_append)
  qed
  then obtain e where e: "verify_snapshot_file (bad @ trailer) = Inl e"
    by (metis obj_sumE)
  then have "sr_initialize (Some (bad @ trailer)) = Inl e"
    by (simp add: sr_initialize_def)
  then show ?thesis
    using sr_initialize_error by (auto simp: bad_def trailer_def body_def)
qed

theorem damaged_snapshot_rejected_witness:
  "\<exists>e rest. snapshot_body (sd_header demo_snapshot) (sd_kvs demo_snapshot) [] = encode_int32 K_SNAPSHOT_MAGIC @ rest
     \<and> e \<noteq> OK \<and> sr_initialize (Some (encode_int32 0 @ rest
         @ snapshot_trailer 1 0 (snapshot_body (sd_header demo_snapshot) (sd_kvs demo_snapshot) []))) = Inl e"
proof -
  obtain rest where rest: "snapshot_body (sd_header demo_snapshot) (sd_kvs demo_snapshot) [] = [] @ encode_int32 K_SNAPSHOT_MAGIC @ rest"
    by (simp add: snapshot_body_def)
  have neq: "encode_int32 K_SNAPSHOT_MAGIC \<noteq> encode_int32 0"
    using int32_roundtrip [of K_SNAPSHOT_MAGIC "[]"] int32_roundtrip [of 0 "[]"]
    by (auto simp: fits_signed_def K_SNAPSHOT_MAGIC_def)
  have "fits_snapshot (sd_header demo_snapshot) (sd_kvs demo_snapshot) []"
    using demo_snapshot_fits by (simp add: demo_snapshot_def)
  then show ?thesis
    using damaged_snapshot_rejected [OF _ rest neq] rest by (simp add: demo_snapshot_def)
qed

end
