(* ===== verification/Raft_Election.thy ===== *)
theory Raft_Election
  imports Model
begin

text \<open>
  The election state of a replica (\<^verbatim>\<open>storage/raft/raft_election.cpp\<close>): its role, its term, the vote it
  cast in that term and the votes it has collected.  The assertion of \<^verbatim>\<open>become_follower\<close> is a
  precondition, discharged where the Raft core calls it.
\<close>

section \<open>Operations\<close>

record RaftElection =
  el_self_id :: ReplicaID
  el_role :: ReplicaRole
  el_current_term :: Term
  el_voted_for :: "ReplicaID option"
  el_granted_voters :: "ReplicaID set"
  el_pre_vote_granted_voters :: "ReplicaID set"

definition new_RaftElection :: "ReplicaID \<Rightarrow> RaftElection" where
  "new_RaftElection self = \<lparr>el_self_id = self, el_role = FOLLOWER, el_current_term = 0, el_voted_for = None,
    el_granted_voters = {}, el_pre_vote_granted_voters = {}\<rparr>"

definition is_follower :: "RaftElection \<Rightarrow> bool" where
  "is_follower e \<longleftrightarrow> el_role e = FOLLOWER"

definition is_pre_candidate :: "RaftElection \<Rightarrow> bool" where
  "is_pre_candidate e \<longleftrightarrow> el_role e = PRE_CANDIDATE"

definition is_candidate :: "RaftElection \<Rightarrow> bool" where
  "is_candidate e \<longleftrightarrow> el_role e = CANDIDATE"

definition is_leader :: "RaftElection \<Rightarrow> bool" where
  "is_leader e \<longleftrightarrow> el_role e = LEADER"

definition granted_vote_count :: "RaftElection \<Rightarrow> int" where
  "granted_vote_count e = int (card (el_granted_voters e))"

definition pre_vote_granted_count :: "RaftElection \<Rightarrow> int" where
  "pre_vote_granted_count e = int (card (el_pre_vote_granted_voters e))"

definition hard_state :: "RaftElection \<Rightarrow> RaftMeta" where
  "hard_state e = \<lparr>rmeta_current_term = el_current_term e, rmeta_voted_for = el_voted_for e\<rparr>"

definition update_meta :: "RaftElection \<Rightarrow> RaftMeta \<Rightarrow> RaftElection" where
  "update_meta e m = e\<lparr>el_current_term := rmeta_current_term m, el_voted_for := rmeta_voted_for m\<rparr>"

definition become_candidate :: "RaftElection \<Rightarrow> RaftElection" where
  "become_candidate e = e\<lparr>el_pre_vote_granted_voters := {}, el_role := CANDIDATE,
    el_current_term := el_current_term e + 1, el_voted_for := Some (el_self_id e),
    el_granted_voters := {el_self_id e}\<rparr>"

text \<open>The result is whether the term changed.\<close>

definition become_follower :: "RaftElection \<Rightarrow> Term \<Rightarrow> RaftElection \<times> bool" where
  "become_follower e later_term =
    (let e' = e\<lparr>el_role := FOLLOWER, el_granted_voters := {}, el_pre_vote_granted_voters := {}\<rparr> in
     if later_term = el_current_term e then (e', False)
     else (e'\<lparr>el_current_term := later_term, el_voted_for := None\<rparr>, True))"

definition become_leader :: "RaftElection \<Rightarrow> RaftElection" where
  "become_leader e = e\<lparr>el_role := LEADER, el_granted_voters := {}\<rparr>"

definition become_pre_candidate :: "RaftElection \<Rightarrow> RaftElection" where
  "become_pre_candidate e = e\<lparr>el_role := PRE_CANDIDATE, el_granted_voters := {},
    el_pre_vote_granted_voters := {el_self_id e}\<rparr>"

definition can_grant_vote_to :: "RaftElection \<Rightarrow> ReplicaID \<Rightarrow> bool" where
  "can_grant_vote_to e candidate \<longleftrightarrow> el_voted_for e = None \<or> el_voted_for e = Some candidate"

definition grant_vote_to :: "RaftElection \<Rightarrow> ReplicaID \<Rightarrow> RaftElection \<times> bool" where
  "grant_vote_to e candidate =
    (if \<not> can_grant_vote_to e candidate then (e, False)
     else (e\<lparr>el_voted_for := Some candidate\<rparr>, True))"

text \<open>The result is whether the set insertion was new.\<close>

definition record_vote_granted_from :: "RaftElection \<Rightarrow> ReplicaID \<Rightarrow> RaftElection \<times> bool" where
  "record_vote_granted_from e voter =
    (e\<lparr>el_granted_voters := insert voter (el_granted_voters e)\<rparr>, voter \<notin> el_granted_voters e)"

definition record_pre_vote_granted_from :: "RaftElection \<Rightarrow> ReplicaID \<Rightarrow> RaftElection \<times> bool" where
  "record_pre_vote_granted_from e voter =
    (e\<lparr>el_pre_vote_granted_voters := insert voter (el_pre_vote_granted_voters e)\<rparr>,
     voter \<notin> el_pre_vote_granted_voters e)"

definition pre_vote_term :: "RaftElection \<Rightarrow> Term" where
  "pre_vote_term e = el_current_term e + 1"

lemmas election_defs = is_follower_def is_pre_candidate_def is_candidate_def is_leader_def
  become_candidate_def become_follower_def become_leader_def become_pre_candidate_def
  grant_vote_to_def can_grant_vote_to_def record_vote_granted_from_def record_pre_vote_granted_from_def
  update_meta_def hard_state_def pre_vote_term_def

section \<open>Invariant\<close>

text \<open>
  Terms are never negative.  A candidate or leader has voted for itself in its term; only a candidate
  holds collected votes, its own among them; only a pre-candidate or a leader that came from one holds
  collected pre-votes, which no rule reads in another role.
\<close>

definition election_wf :: "RaftElection \<Rightarrow> bool" where
  "election_wf e \<longleftrightarrow> 0 \<le> el_current_term e
     \<and> finite (el_granted_voters e) \<and> finite (el_pre_vote_granted_voters e)
     \<and> (el_role e \<in> {CANDIDATE, LEADER} \<longrightarrow> el_voted_for e = Some (el_self_id e))
     \<and> (el_role e = CANDIDATE \<longrightarrow> el_self_id e \<in> el_granted_voters e)
     \<and> (el_role e \<noteq> CANDIDATE \<longrightarrow> el_granted_voters e = {})
     \<and> (el_role e = PRE_CANDIDATE \<longrightarrow> el_self_id e \<in> el_pre_vote_granted_voters e)"

lemma new_RaftElection_wf [intro, simp]: "election_wf (new_RaftElection self)"
  by (simp add: election_wf_def new_RaftElection_def)

lemma become_candidate_wf [intro]: "election_wf e \<Longrightarrow> election_wf (become_candidate e)"
  by (simp add: election_wf_def become_candidate_def)

lemma become_follower_wf [intro]:
  "election_wf e \<Longrightarrow> el_current_term e \<le> t \<Longrightarrow> election_wf (fst (become_follower e t))"
  by (simp add: election_wf_def become_follower_def Let_def)

lemma become_leader_wf [intro]: "election_wf e \<Longrightarrow> el_role e = CANDIDATE \<Longrightarrow> election_wf (become_leader e)"
  by (simp add: election_wf_def become_leader_def)

lemma become_pre_candidate_wf [intro]: "election_wf e \<Longrightarrow> election_wf (become_pre_candidate e)"
  by (simp add: election_wf_def become_pre_candidate_def)

lemma grant_vote_to_wf [intro]: "election_wf e \<Longrightarrow> election_wf (fst (grant_vote_to e c))"
  by (auto simp: election_wf_def grant_vote_to_def can_grant_vote_to_def)

lemma record_vote_granted_from_wf [intro]:
  "election_wf e \<Longrightarrow> el_role e = CANDIDATE \<Longrightarrow> election_wf (fst (record_vote_granted_from e v))"
  by (simp add: election_wf_def record_vote_granted_from_def)

lemma record_pre_vote_granted_from_wf [intro]:
  "election_wf e \<Longrightarrow> election_wf (fst (record_pre_vote_granted_from e v))"
  by (auto simp: election_wf_def record_pre_vote_granted_from_def)

end
