(* ===== verification/Raft_Membership.thy ===== *)
theory Raft_Membership
  imports Model
begin

text \<open>
  The members of a Raft group (\<^verbatim>\<open>storage/raft/raft_membership.cpp\<close>): the list of voters and learners,
  the configuration changes applied to it, and the quorum rule.  The state of the class is its one
  vector \<^verbatim>\<open>members_\<close>.  The theory gives the invariant that a replica is listed once, and the quorum
  interface the election argument relies on: quorums of one configuration, and of two configurations
  one change apart, have a common voter.
\<close>

section \<open>Operations\<close>

type_synonym RaftMembership = "RaftMember list"

definition member_id :: "RaftMember \<Rightarrow> ReplicaID" where
  "member_id m = pm_replica_id (rm_peer m)"

primrec reset_voters :: "PeerMember list \<Rightarrow> RaftMembership" where
  "reset_voters [] = []"
| "reset_voters (p # ps) = \<lparr>rm_peer = p, rm_member_type = VOTER\<rparr> # reset_voters ps"

definition peer_members :: "RaftMembership \<Rightarrow> PeerMember list" where
  "peer_members ms = map rm_peer ms"

definition voters :: "RaftMembership \<Rightarrow> PeerMember list" where
  "voters ms = map rm_peer (filter (\<lambda>m. is_raft_voter (rm_member_type m)) ms)"

definition learners :: "RaftMembership \<Rightarrow> PeerMember list" where
  "learners ms = map rm_peer (filter (\<lambda>m. rm_member_type m = LEARNER) ms)"

definition find_raft_member :: "RaftMembership \<Rightarrow> ReplicaID \<Rightarrow> RaftMember option" where
  "find_raft_member ms r = find (\<lambda>m. member_id m = r) ms"

definition contains_member :: "RaftMembership \<Rightarrow> ReplicaID \<Rightarrow> bool" where
  "contains_member ms r \<longleftrightarrow> find_raft_member ms r \<noteq> None"

definition member_type :: "RaftMembership \<Rightarrow> ReplicaID \<Rightarrow> RaftMemberType" where
  "member_type ms r =
    (case find_raft_member ms r of None \<Rightarrow> NON_MEMBER | Some m \<Rightarrow> rm_member_type m)"

definition is_voter :: "RaftMembership \<Rightarrow> ReplicaID \<Rightarrow> bool" where
  "is_voter ms r \<longleftrightarrow> is_raft_voter (member_type ms r)"

definition add_learner :: "RaftMembership \<Rightarrow> PeerMember \<Rightarrow> Status \<times> RaftMembership" where
  "add_learner ms p =
    (case find_raft_member ms (pm_replica_id p) of
       Some _ \<Rightarrow> (OK, ms)
     | None \<Rightarrow> (OK, ms @ [\<lparr>rm_peer = p, rm_member_type = LEARNER\<rparr>]))"

text \<open>The assignment through the iterator of \<^verbatim>\<open>std::find_if\<close> changes the first member found.\<close>

fun promote_first :: "RaftMembership \<Rightarrow> ReplicaID \<Rightarrow> RaftMembership option" where
  "promote_first [] r = None"
| "promote_first (m # ms) r =
    (if member_id m = r then Some (m\<lparr>rm_member_type := VOTER\<rparr> # ms)
     else map_option (Cons m) (promote_first ms r))"

definition promote_voter :: "RaftMembership \<Rightarrow> ReplicaID \<Rightarrow> Status \<times> RaftMembership" where
  "promote_voter ms r =
    (case promote_first ms r of Some ms' \<Rightarrow> (OK, ms') | None \<Rightarrow> (INVALID_ARGUMENT, ms))"

definition remove_member :: "RaftMembership \<Rightarrow> ReplicaID \<Rightarrow> Status \<times> RaftMembership" where
  "remove_member ms r = (OK, filter (\<lambda>m. member_id m \<noteq> r) ms)"

definition quorum_size :: "RaftMembership \<Rightarrow> int" where
  "quorum_size ms = int (length (voters ms)) div 2 + 1"

definition has_quorum :: "RaftMembership \<Rightarrow> int \<Rightarrow> bool" where
  "has_quorum ms ack_count \<longleftrightarrow> ack_count \<ge> quorum_size ms"

section \<open>Invariant\<close>

text \<open>No replica is listed twice.\<close>

definition members_wf :: "RaftMembership \<Rightarrow> bool" where
  "members_wf ms \<longleftrightarrow> distinct (map member_id ms)"

definition voter_ids :: "RaftMembership \<Rightarrow> ReplicaID set" where
  "voter_ids ms = {member_id m | m. m \<in> set ms \<and> is_raft_voter (rm_member_type m)}"

lemma voter_ids_conv: "voter_ids ms = pm_replica_id ` set (voters ms)"
  by (auto simp: voter_ids_def voters_def member_id_def)

lemma finite_voter_ids [simp]: "finite (voter_ids ms)"
  by (simp add: voter_ids_conv)

lemma voter_ids_simps [simp]:
  "voter_ids [] = {}"
  "voter_ids (m # ms) = (if is_raft_voter (rm_member_type m) then insert (member_id m) (voter_ids ms)
                         else voter_ids ms)"
  "voter_ids (ms @ ms') = voter_ids ms \<union> voter_ids ms'"
  by (auto simp: voter_ids_def)

lemma voter_ids_subset: "voter_ids ms \<subseteq> member_id ` set ms"
  by (auto simp: voter_ids_def)

lemma length_voters: "members_wf ms \<Longrightarrow> length (voters ms) = card (voter_ids ms)"
proof (induction ms)
  case (Cons m ms)
  then have "member_id m \<notin> voter_ids ms"
    using voter_ids_subset by (auto simp: members_wf_def)
  then show ?case
    using Cons by (simp add: members_wf_def voters_def)
qed (simp add: voters_def)

lemma quorum_size_card: "members_wf ms \<Longrightarrow> quorum_size ms = int (card (voter_ids ms) div 2 + 1)"
  by (simp add: quorum_size_def length_voters zdiv_int)

lemma find_raft_member_SomeD:
  "find_raft_member ms r = Some m \<Longrightarrow> m \<in> set ms \<and> member_id m = r"
  unfolding find_raft_member_def using find_SomeD by fastforce

lemma find_raft_member_None: "find_raft_member ms r = None \<longleftrightarrow> r \<notin> member_id ` set ms"
  by (auto simp: find_raft_member_def find_None_conv)

lemma contains_member_iff: "contains_member ms r \<longleftrightarrow> r \<in> member_id ` set ms"
  by (simp add: contains_member_def find_raft_member_None)

lemma is_voter_iff: "members_wf ms \<Longrightarrow> is_voter ms r \<longleftrightarrow> r \<in> voter_ids ms"
proof (induction ms)
  case (Cons m ms)
  then show ?case
    using voter_ids_subset [of ms]
    by (auto simp: members_wf_def is_voter_def member_type_def find_raft_member_def is_raft_voter_def)
qed (simp add: is_voter_def member_type_def find_raft_member_def is_raft_voter_def)

lemma member_id_promoted [simp]: "member_id (m\<lparr>rm_member_type := t\<rparr>) = member_id m"
  by (simp add: member_id_def)

lemma member_id_make [simp]: "member_id \<lparr>rm_peer = p, rm_member_type = t\<rparr> = pm_replica_id p"
  by (simp add: member_id_def)

lemma promote_first_Some:
  "promote_first ms r = Some ms' \<Longrightarrow> map member_id ms' = map member_id ms \<and> r \<in> member_id ` set ms
    \<and> (members_wf ms \<longrightarrow> voter_ids ms' = insert r (voter_ids ms))"
proof (induction ms arbitrary: ms')
  case (Cons m ms)
  then show ?case
    by (auto simp: members_wf_def is_raft_voter_def split: if_splits)
qed simp

lemma promote_first_None: "promote_first ms r = None \<longleftrightarrow> r \<notin> member_id ` set ms"
  by (induction ms) auto

text \<open>What each operation does to the invariant and to the set of voters.\<close>

lemma reset_voters_ids [simp]:
  "map member_id (reset_voters ps) = map pm_replica_id ps"
  "voter_ids (reset_voters ps) = pm_replica_id ` set ps"
  by (induction ps) (auto simp: is_raft_voter_def)

lemma reset_voters_wf: "members_wf (reset_voters ps) \<longleftrightarrow> distinct (map pm_replica_id ps)"
  by (simp add: members_wf_def)

lemma add_learner_wf:
  "members_wf ms \<Longrightarrow> members_wf (snd (add_learner ms p)) \<and> voter_ids (snd (add_learner ms p)) = voter_ids ms"
  by (auto simp: add_learner_def members_wf_def find_raft_member_None is_raft_voter_def
      split: option.splits)

lemma promote_voter_wf:
  assumes "members_wf ms"
  shows "members_wf (snd (promote_voter ms r))
    \<and> voter_ids (snd (promote_voter ms r)) = (if contains_member ms r then insert r (voter_ids ms) else voter_ids ms)"
proof (cases "promote_first ms r")
  case (Some ms')
  then show ?thesis
    using promote_first_Some [OF Some] assms
    by (simp add: promote_voter_def members_wf_def contains_member_iff)
next
  case None
  then show ?thesis
    using assms promote_first_None [of ms r] by (simp add: promote_voter_def contains_member_iff)
qed

lemma remove_member_wf:
  "members_wf ms \<Longrightarrow> members_wf (snd (remove_member ms r)) \<and> voter_ids (snd (remove_member ms r)) = voter_ids ms - {r}"
  by (auto simp: remove_member_def members_wf_def voter_ids_def distinct_map
      intro: inj_on_subset)

section \<open>Quorums\<close>

text \<open>
  What the users of a membership rely on: a quorum consists of voters, and a quorum of one
  configuration shares a member with every quorum of an adjacent one.
\<close>

locale quorum_system =
  fixes config_ok :: "'c \<Rightarrow> bool"
    and quorum :: "'c \<Rightarrow> 'p set \<Rightarrow> bool"
    and adjacent :: "'c \<Rightarrow> 'c \<Rightarrow> bool"
  assumes adjacent_refl: "config_ok c \<Longrightarrow> adjacent c c"
    and quorums_meet: "config_ok c \<Longrightarrow> adjacent c d \<Longrightarrow> quorum c A \<Longrightarrow> quorum d B \<Longrightarrow> A \<inter> B \<noteq> {}"
begin

lemma same_config_meet: "config_ok c \<Longrightarrow> quorum c A \<Longrightarrow> quorum c B \<Longrightarrow> A \<inter> B \<noteq> {}"
  by (rule quorums_meet [OF _ adjacent_refl])

text \<open>When every voter names at most one winner, two quorums name the same one.\<close>

lemma unique_choice:
  assumes "config_ok c" "adjacent c d" "quorum c A" "quorum d B"
    and "\<And>p. p \<in> A \<Longrightarrow> voted p = Some x" "\<And>p. p \<in> B \<Longrightarrow> voted p = Some y"
  shows "x = y"
  using quorums_meet [OF assms(1-4)] assms(5,6) by fastforce

end

text \<open>One configuration change of the group.\<close>

inductive config_change :: "RaftMembership \<Rightarrow> RaftMembership \<Rightarrow> bool" where
  no_change: "config_change ms ms"
| learner_added: "config_change ms (snd (add_learner ms p))"
| voter_promoted: "config_change ms (snd (promote_voter ms r))"
| member_removed: "config_change ms (snd (remove_member ms r))"

definition voter_quorum :: "RaftMembership \<Rightarrow> ReplicaID set \<Rightarrow> bool" where
  "voter_quorum ms A \<longleftrightarrow> A \<subseteq> voter_ids ms \<and> has_quorum ms (int (card A))"

lemma config_change_wf: "config_change ms ms' \<Longrightarrow> members_wf ms \<Longrightarrow> members_wf ms'"
  by (induction rule: config_change.induct) (auto simp: add_learner_wf promote_voter_wf remove_member_wf)

lemma config_change_voters:
  "config_change ms ms' \<Longrightarrow> members_wf ms \<Longrightarrow> \<exists>r. voter_ids ms' = voter_ids ms
    \<or> voter_ids ms' = insert r (voter_ids ms) \<or> voter_ids ms' = voter_ids ms - {r}"
  by (induction rule: config_change.induct) (auto simp: add_learner_wf promote_voter_wf remove_member_wf)

lemma one_voter_apart_meet:
  assumes "finite V" and "A \<subseteq> V" "B \<subseteq> insert r V"
    and "card V div 2 + 1 \<le> card A" "card (insert r V) div 2 + 1 \<le> card B"
  shows "A \<inter> B \<noteq> {}"
proof
  assume "A \<inter> B = {}"
  have fin: "finite (insert r V)" "finite A" "finite B"
    using assms finite_subset [of B "insert r V"] finite_subset [of A V] by auto
  then have "card A + card B = card (A \<union> B)"
    using \<open>A \<inter> B = {}\<close> by (simp add: card_Un_disjoint)
  also have "\<dots> \<le> card (insert r V)"
    using assms(2,3) by (intro card_mono fin) auto
  finally have *: "card A + card B \<le> card (insert r V)" .
  show False
  proof (cases "r \<in> V")
    case True
    then show False
      using * assms(4,5) by (simp add: insert_absorb)
  next
    case False
    then show False
      using * assms(1,4,5) by simp
  qed
qed

lemma config_change_quorums_meet:
  assumes wf: "members_wf ms" and ch: "config_change ms ms'"
    and A: "voter_quorum ms A" and B: "voter_quorum ms' B"
  shows "A \<inter> B \<noteq> {}"
proof -
  note wf' = config_change_wf [OF ch wf]
  have card: "card (voter_ids ms) div 2 + 1 \<le> card A" "card (voter_ids ms') div 2 + 1 \<le> card B"
    using A B by (simp_all add: voter_quorum_def has_quorum_def quorum_size_card wf wf')
  have sub: "A \<subseteq> voter_ids ms" "B \<subseteq> voter_ids ms'"
    using A B by (simp_all add: voter_quorum_def)
  obtain r where "voter_ids ms' = voter_ids ms \<or> voter_ids ms' = insert r (voter_ids ms)
      \<or> voter_ids ms' = voter_ids ms - {r}"
    using config_change_voters [OF ch wf] by blast
  then consider "voter_ids ms' = voter_ids ms" | "voter_ids ms' = insert r (voter_ids ms)"
    | "voter_ids ms = insert r (voter_ids ms')"
    by blast
  then show ?thesis
  proof cases
    case 1
    then show ?thesis
      using sub card majorities_meet [of "voter_ids ms" A B] by simp
  next
    case 2
    then show ?thesis
      using sub card one_voter_apart_meet [of "voter_ids ms" A B r] by simp
  next
    case 3
    then show ?thesis
      using sub card one_voter_apart_meet [of "voter_ids ms'" B A r] by (simp add: Int_commute)
  qed
qed

interpretation membership: quorum_system members_wf voter_quorum config_change
  by unfold_locales (auto intro: no_change dest: config_change_quorums_meet)

section \<open>Properties\<close>

text \<open>
  C5. Changing the members one at a time is safe: two quorums of voters, one counted with the
  configuration before and one with the configuration after a single added learner, promoted voter or
  removed member, always have a voter in common.
\<close>

theorem single_change_quorums_meet:
  assumes "members_wf ms" and "config_change ms ms'"
    and "A \<subseteq> voter_ids ms" "has_quorum ms (int (card A))"
    and "B \<subseteq> voter_ids ms'" "has_quorum ms' (int (card B))"
  shows "A \<inter> B \<noteq> {}"
  using assms by (intro membership.quorums_meet) (auto simp: voter_quorum_def)

definition demo_peer :: "int \<Rightarrow> PeerMember" where
  "demo_peer n = default_PeerMember\<lparr>pm_replica_id := \<lparr>rid_table_id = 1, rid_shard_index = 1, rid_replica_seq = n\<rparr>\<rparr>"

definition demo_id :: "int \<Rightarrow> ReplicaID" where
  "demo_id n = \<lparr>rid_table_id = 1, rid_shard_index = 1, rid_replica_seq = n\<rparr>"

lemma demo_id_simps [simp]: "pm_replica_id (demo_peer n) = demo_id n" "demo_id m = demo_id n \<longleftrightarrow> m = n"
  by (simp_all add: demo_peer_def demo_id_def)

theorem single_change_quorums_meet_witness:
  "{demo_id 1, demo_id 2} \<inter> {demo_id 2, demo_id 3} \<noteq> {}"
proof (rule single_change_quorums_meet)
  let ?ms = "reset_voters [demo_peer 1, demo_peer 2, demo_peer 3]"
  show "members_wf ?ms"
    by (simp add: members_wf_def)
  show "config_change ?ms (snd (remove_member ?ms (demo_id 1)))"
    by (rule member_removed)
  show "{demo_id 1, demo_id 2} \<subseteq> voter_ids ?ms" "has_quorum ?ms (int (card {demo_id 1, demo_id 2}))"
    by (simp_all add: has_quorum_def quorum_size_def voters_def is_raft_voter_def)
  show "{demo_id 2, demo_id 3} \<subseteq> voter_ids (snd (remove_member ?ms (demo_id 1)))"
      "has_quorum (snd (remove_member ?ms (demo_id 1))) (int (card {demo_id 2, demo_id 3}))"
    by (simp_all add: has_quorum_def quorum_size_def voters_def is_raft_voter_def remove_member_def)
qed

end
