(* ===== verification/Raft_Apply.thy ===== *)
theory Raft_Apply
  imports Raft_Log
begin

text \<open>
  The commit and apply positions of a replica (\<^verbatim>\<open>storage/raft/raft_apply.cpp\<close>).  The reference to the
  log that the class holds is an argument of the operations that read it.
\<close>

section \<open>Operations\<close>

record RaftApply =
  ap_commit_index :: LogIndex
  ap_last_applied :: LogIndex

definition new_RaftApply :: RaftApply where
  "new_RaftApply = \<lparr>ap_commit_index = 0, ap_last_applied = 0\<rparr>"

definition set_commit_index :: "RaftApply \<Rightarrow> LogIndex \<Rightarrow> RaftApply" where
  "set_commit_index a i = a\<lparr>ap_commit_index := i\<rparr>"

definition advance_commit_index_from_leader :: "RaftLog \<Rightarrow> RaftApply \<Rightarrow> LogIndex \<Rightarrow> RaftApply" where
  "advance_commit_index_from_leader l a leader_commit =
    (if leader_commit > ap_commit_index a
     then a\<lparr>ap_commit_index := min leader_commit (last_log_index l)\<rparr> else a)"

definition apply_advance_last_applied :: "RaftApply \<Rightarrow> LogIndex \<Rightarrow> RaftApply" where
  "apply_advance_last_applied a applied =
    (if applied > ap_last_applied a then a\<lparr>ap_last_applied := applied\<rparr> else a)"

definition apply_install_snapshot :: "RaftApply \<Rightarrow> LogIndex \<Rightarrow> RaftApply" where
  "apply_install_snapshot a i =
    (let a1 = (if ap_commit_index a < i then a\<lparr>ap_commit_index := i\<rparr> else a) in
     if ap_last_applied a1 < i then a1\<lparr>ap_last_applied := i\<rparr> else a1)"

text \<open>
  The loop of \<^verbatim>\<open>extract_committed_entries\<close> over the indices after \<^verbatim>\<open>last_applied_\<close>: the counters
  \<^verbatim>\<open>kv_count\<close> and \<^verbatim>\<open>kv_bytes\<close>, the flag \<^verbatim>\<open>budget_exhausted\<close> and the flag \<^verbatim>\<open>has_more\<close> are
  arguments; the entries pushed are the first component of the result.
\<close>

definition entry_bytes :: "LogEntry \<Rightarrow> nat" where
  "entry_bytes e = length (le_key e) + length (le_value e)"

fun extract_loop :: "RaftLog \<Rightarrow> nat \<Rightarrow> nat \<Rightarrow> LogIndex list \<Rightarrow> nat \<Rightarrow> nat \<Rightarrow> bool \<Rightarrow> bool
    \<Rightarrow> LogEntry list \<times> bool" where
  "extract_loop l budget_entries budget_bytes [] kv_count kv_bytes exhausted has_more = ([], has_more)"
| "extract_loop l budget_entries budget_bytes (i # is) kv_count kv_bytes exhausted has_more =
    (case entry_at l i of
       None \<Rightarrow> extract_loop l budget_entries budget_bytes is kv_count kv_bytes exhausted has_more
     | Some e \<Rightarrow>
       if is_config_change_op (le_op_type e) then
         (let (es, m) = extract_loop l budget_entries budget_bytes is kv_count kv_bytes exhausted has_more
          in (e # es, m))
       else if exhausted then ([], True)
       else if kv_count \<ge> budget_entries then
         extract_loop l budget_entries budget_bytes is kv_count kv_bytes True True
       else if kv_count > 0 \<and> budget_bytes > 0 \<and> kv_bytes + entry_bytes e > budget_bytes then ([], True)
       else
         (let (es, m) = extract_loop l budget_entries budget_bytes is (kv_count + 1) (kv_bytes + entry_bytes e)
                          exhausted has_more
          in (e # es, m)))"

definition apply_extract_committed_entries ::
    "RaftLog \<Rightarrow> RaftApply \<Rightarrow> nat \<Rightarrow> nat \<Rightarrow> LogEntry list \<times> bool" where
  "apply_extract_committed_entries l a budget_entries budget_bytes =
    extract_loop l budget_entries budget_bytes [ap_last_applied a + 1..ap_commit_index a] 0 0 False False"

text \<open>The backward loop of \<^verbatim>\<open>has_committed_current_term_entry\<close> reads the indices above the snapshot.\<close>

definition apply_has_committed_current_term_entry :: "RaftLog \<Rightarrow> RaftApply \<Rightarrow> Term \<Rightarrow> bool" where
  "apply_has_committed_current_term_entry l a current_term \<longleftrightarrow>
    (rl_snapshot_index l > 0 \<and> rl_snapshot_index l \<le> ap_commit_index a \<and> rl_snapshot_term l = current_term)
    \<or> list_ex (\<lambda>i. term_at l i = current_term) (rev [rl_snapshot_index l + 1..ap_commit_index a])"

section \<open>Invariant\<close>

text \<open>
  The snapshot is applied, only committed entries are applied and only entries of the log are
  committed; the first inequality is the assertion of \<^verbatim>\<open>extract_committed_entries\<close>.
\<close>

definition apply_wf :: "RaftLog \<Rightarrow> RaftApply \<Rightarrow> bool" where
  "apply_wf l a \<longleftrightarrow> rl_snapshot_index l \<le> ap_last_applied a \<and> ap_last_applied a \<le> ap_commit_index a
     \<and> ap_commit_index a \<le> last_log_index l"

lemma new_RaftApply_wf [simp]: "apply_wf new_RaftLog new_RaftApply"
  by (simp add: apply_wf_def new_RaftApply_def new_RaftLog_def last_log_index_def)

lemma advance_commit_index_from_leader_wf:
  "apply_wf l a \<Longrightarrow> apply_wf l (advance_commit_index_from_leader l a c)"
  by (auto simp: apply_wf_def advance_commit_index_from_leader_def)

lemma advance_commit_index_from_leader_mono:
  "apply_wf l a \<Longrightarrow> ap_commit_index a \<le> ap_commit_index (advance_commit_index_from_leader l a c)"
  by (auto simp: apply_wf_def advance_commit_index_from_leader_def)

lemma apply_advance_last_applied_wf:
  "apply_wf l a \<Longrightarrow> i \<le> ap_commit_index a \<Longrightarrow> apply_wf l (apply_advance_last_applied a i)"
  by (auto simp: apply_wf_def apply_advance_last_applied_def)

section \<open>What is handed to the state machine\<close>

definition committed_unapplied :: "RaftLog \<Rightarrow> RaftApply \<Rightarrow> LogEntry list" where
  "committed_unapplied l a = List.map_filter (entry_at l) [ap_last_applied a + 1..ap_commit_index a]"

lemma map_filter_simps' [simp]:
  "List.map_filter f [] = []"
  "List.map_filter f (x # xs) = (case f x of None \<Rightarrow> List.map_filter f xs | Some y \<Rightarrow> y # List.map_filter f xs)"
  by (simp_all add: List.map_filter_def split: option.splits)

text \<open>The loop sees the log only through the entries it finds.\<close>

fun extract_entries :: "nat \<Rightarrow> nat \<Rightarrow> LogEntry list \<Rightarrow> nat \<Rightarrow> nat \<Rightarrow> bool \<Rightarrow> bool \<Rightarrow> LogEntry list \<times> bool" where
  "extract_entries be bb [] n b ex m = ([], m)"
| "extract_entries be bb (e # es) n b ex m =
    (if is_config_change_op (le_op_type e) then apfst (Cons e) (extract_entries be bb es n b ex m)
     else if ex then ([], True)
     else if n \<ge> be then extract_entries be bb es n b True True
     else if n > 0 \<and> bb > 0 \<and> b + entry_bytes e > bb then ([], True)
     else apfst (Cons e) (extract_entries be bb es (n + 1) (b + entry_bytes e) ex m))"

lemma extract_loop_entries:
  "extract_loop l be bb is n b ex m = extract_entries be bb (List.map_filter (entry_at l) is) n b ex m"
  by (induction "is" arbitrary: n b ex m) (auto split: option.splits prod.splits)

lemma apply_extract_entries:
  "apply_extract_committed_entries l a be bb = extract_entries be bb (committed_unapplied l a) 0 0 False False"
  by (simp add: apply_extract_committed_entries_def extract_loop_entries committed_unapplied_def)

text \<open>With a budget that is never reached, everything is handed out.\<close>

lemma extract_entries_unlimited:
  "n + length es \<le> be \<Longrightarrow> extract_entries be 0 es n b False False = (es, False)"
  by (induction es arbitrary: n b) auto

text \<open>
  Without configuration entries the result is a prefix within the budget; it is not empty when the
  budget allows an entry.
\<close>

lemma extract_entries_exhausted:
  "\<forall>e \<in> set es. \<not> is_config_change_op (le_op_type e) \<Longrightarrow> extract_entries be bb es n b True True = ([], True)"
  by (cases es) auto

lemma extract_entries_prefix:
  "\<forall>e \<in> set es. \<not> is_config_change_op (le_op_type e) \<Longrightarrow> n \<le> be \<Longrightarrow>
   extract_entries be bb es n b False False = (xs, m) \<Longrightarrow>
   \<exists>rest. es = xs @ rest \<and> (m \<longleftrightarrow> rest \<noteq> []) \<and> length xs + n \<le> be"
proof (induction es arbitrary: n b xs m)
  case (Cons e es)
  obtain xs1 m1 where rec: "extract_entries be bb es (n + 1) (b + entry_bytes e) False False = (xs1, m1)"
    by fastforce
  show ?case
  proof (cases "n \<ge> be \<or> n > 0 \<and> bb > 0 \<and> b + entry_bytes e > bb")
    case True
    then show ?thesis
      using Cons.prems extract_entries_exhausted [of es be bb n b] by (auto split: if_splits)
  next
    case False
    then have "xs = e # xs1" "m = m1"
      using Cons.prems rec by (auto split: if_splits)
    then show ?thesis
      using Cons.IH [OF _ _ rec] Cons.prems(1) False by auto
  qed
qed simp

lemma extract_entries_progress:
  "0 < be \<Longrightarrow> es \<noteq> [] \<Longrightarrow> fst (extract_entries be bb es 0 b False False) \<noteq> []"
  by (cases es) auto

text \<open>A configuration entry is handed out even when a write before it is not.\<close>

lemma extract_entries_overtake:
  "n + length ws = be \<Longrightarrow> \<forall>e \<in> set ws. \<not> is_config_change_op (le_op_type e) \<Longrightarrow>
   \<not> is_config_change_op (le_op_type w) \<Longrightarrow> is_config_change_op (le_op_type c) \<Longrightarrow>
   fst (extract_entries be 0 (ws @ [w, c]) n b False False) = ws @ [c]"
  by (induction ws arbitrary: n b) auto

lemma map_filter_total:
  "\<forall>k \<in> set ks. \<exists>e. f k = Some e \<and> g e = k \<Longrightarrow> map g (List.map_filter f ks) = ks"
  by (induction ks) auto

lemma map_filter_entry_at_indices:
  assumes "log_wf l" "rl_snapshot_index l \<le> i" "j \<le> last_log_index l"
  shows "map le_index (List.map_filter (entry_at l) [i + 1..j]) = [i + 1..j]"
proof (rule map_filter_total, safe)
  fix k
  assume "k \<in> set [i + 1..j]"
  then obtain e where "entry_at l k = Some e"
    using assms entry_at_Some_iff [OF assms(1), of k] by auto
  then show "\<exists>e. entry_at l k = Some e \<and> le_index e = k"
    using entry_at_SomeD(1) [OF assms(1)] by blast
qed

section \<open>Properties\<close>

text \<open>
  C6. Between configuration changes, the entries handed to the state machine follow the last applied
  entry without a gap: they are a prefix of the committed entries not yet applied, as many as the entry
  budget at most, at least one when there is one, and \<^verbatim>\<open>has_more\<close> says whether any is left.
\<close>

theorem extract_committed_prefix:
  assumes wf: "log_wf l" "apply_wf l a" and budget: "0 < budget_entries"
    and kv: "\<forall>e \<in> set (committed_unapplied l a). \<not> is_config_change_op (le_op_type e)"
    and ex: "apply_extract_committed_entries l a budget_entries budget_bytes = (es, has_more)"
  shows "map le_index es = [ap_last_applied a + 1..ap_last_applied a + int (length es)]
    \<and> (\<forall>e \<in> set es. entry_at l (le_index e) = Some e)
    \<and> length es \<le> budget_entries
    \<and> (ap_last_applied a < ap_commit_index a \<longrightarrow> es \<noteq> [])
    \<and> (has_more \<longleftrightarrow> ap_last_applied a + int (length es) < ap_commit_index a)"
proof -
  let ?is = "[ap_last_applied a + 1..ap_commit_index a]"
  have idx: "map le_index (committed_unapplied l a) = ?is"
    unfolding committed_unapplied_def
    using wf by (intro map_filter_entry_at_indices) (auto simp: apply_wf_def)
  obtain rest where rest: "committed_unapplied l a = es @ rest" "has_more \<longleftrightarrow> rest \<noteq> []"
      and 3: "length es \<le> budget_entries"
    using extract_entries_prefix [OF kv _ ex [unfolded apply_extract_entries]] by auto
  have len: "length es + length rest = nat (ap_commit_index a - ap_last_applied a)"
    using arg_cong [OF idx, of length] rest(1) by simp
  have le: "ap_last_applied a \<le> ap_commit_index a"
    using wf(2) by (simp add: apply_wf_def)
  have "map le_index es = take (length es) ?is"
    using rest(1) by (simp flip: idx)
  also have "\<dots> = [ap_last_applied a + 1..ap_last_applied a + int (length es)]"
    using len le take_upto [of "length es" "ap_commit_index a" "ap_last_applied a + 1"] by (simp add: algebra_simps)
  finally have 1: "map le_index es = [ap_last_applied a + 1..ap_last_applied a + int (length es)]" .
  have "\<forall>e \<in> set (committed_unapplied l a). entry_at l (le_index e) = Some e"
    using entry_at_SomeD(1) [OF wf(1)] by (auto simp: committed_unapplied_def List.map_filter_def)
  then have 2: "\<forall>e \<in> set es. entry_at l (le_index e) = Some e"
    using rest(1) by simp
  have 4: "es \<noteq> []" if "ap_last_applied a < ap_commit_index a"
  proof -
    have "committed_unapplied l a \<noteq> []"
      using that idx by auto
    then show ?thesis
      using extract_entries_progress [OF budget] ex [unfolded apply_extract_entries] by (metis fst_conv)
  qed
  have 5: "has_more \<longleftrightarrow> ap_last_applied a + int (length es) < ap_commit_index a"
    using rest(2) len le by (cases rest) auto
  show ?thesis
    using 1 2 3 4 5 by blast
qed

theorem extract_committed_prefix_witness:
  "map le_index (fst (apply_extract_committed_entries (demo_log [demo_entry 1 1, demo_entry 1 2, demo_entry 1 3])
      \<lparr>ap_commit_index = 3, ap_last_applied = 0\<rparr> 2 0)) = [1, 2]
   \<and> snd (apply_extract_committed_entries (demo_log [demo_entry 1 1, demo_entry 1 2, demo_entry 1 3])
      \<lparr>ap_commit_index = 3, ap_last_applied = 0\<rparr> 2 0)"
proof -
  let ?l = "demo_log [demo_entry 1 1, demo_entry 1 2, demo_entry 1 3]"
    and ?a = "\<lparr>ap_commit_index = 3, ap_last_applied = 0\<rparr>"
  have wf: "log_wf ?l" "apply_wf ?l ?a"
    by (simp_all add: demo_defs apply_wf_def)
  have upto: "[1..3::int] = [1, 2, 3]"
    by (simp add: upto.simps)
  have kv: "\<forall>e \<in> set (committed_unapplied ?l ?a). \<not> is_config_change_op (le_op_type e)"
    by (simp add: committed_unapplied_def upto entry_at_def Let_def index_to_offset_def demo_defs)
  have ex: "apply_extract_committed_entries ?l ?a 2 0 = ([demo_entry 1 1, demo_entry 1 2], True)"
    by (simp add: apply_extract_committed_entries_def upto entry_at_def Let_def index_to_offset_def demo_defs
        entry_bytes_def)
  show ?thesis
    using extract_committed_prefix [OF wf _ kv ex] by (simp add: ex upto.simps)
qed

text \<open>
  C7. A configuration change after the entry budget is used up overtakes a write: when the committed
  entries not yet applied are \<^verbatim>\<open>budget + 1\<close> writes followed by a configuration change, the write at
  \<^verbatim>\<open>budget + 1\<close> is left out and the configuration entry behind it is handed out.  Applying the result
  moves \<^verbatim>\<open>last_applied_\<close> past the write, so a later extraction no longer yields it.
\<close>

theorem extract_overtakes_write:
  assumes un: "committed_unapplied l a = ws @ [w, c]" and wf: "log_wf l" "apply_wf l a"
    and ws: "length ws = budget_entries" "\<forall>e \<in> set (ws @ [w]). \<not> is_config_change_op (le_op_type e)"
    and c: "is_config_change_op (le_op_type c)"
  shows "fst (apply_extract_committed_entries l a budget_entries 0) = ws @ [c]
    \<and> committed_unapplied l (apply_advance_last_applied a (le_index c)) = []"
proof -
  have "map le_index (ws @ [w, c]) = [ap_last_applied a + 1..ap_commit_index a]"
    unfolding un [symmetric] committed_unapplied_def
    using wf by (intro map_filter_entry_at_indices) (auto simp: apply_wf_def)
  then have "le_index c = ap_commit_index a"
    by (cases "ap_last_applied a + 1 \<le> ap_commit_index a") (auto simp: upto_snoc)
  then have "committed_unapplied l (apply_advance_last_applied a (le_index c)) = []"
    by (auto simp: apply_advance_last_applied_def committed_unapplied_def)
  then show ?thesis
    using extract_entries_overtake [of 0 ws budget_entries w c 0] ws c
    by (simp add: apply_extract_entries un)
qed


definition demo_config :: "Term \<Rightarrow> LogIndex \<Rightarrow> LogEntry" where
  "demo_config t i = (demo_entry t i)\<lparr>le_op_type := REMOVE_MEMBER\<rparr>"

theorem extract_overtakes_write_witness:
  "fst (apply_extract_committed_entries (demo_log [demo_put 1 ''a'', demo_put 2 ''b'', demo_config 1 3])
      \<lparr>ap_commit_index = 3, ap_last_applied = 0\<rparr> 1 0) = [demo_put 1 ''a'', demo_config 1 3]"
proof -
  let ?l = "demo_log [demo_put 1 ''a'', demo_put 2 ''b'', demo_config 1 3]"
    and ?a = "\<lparr>ap_commit_index = 3, ap_last_applied = 0\<rparr>"
  have wf: "log_wf ?l" "apply_wf ?l ?a"
    by (simp_all add: demo_defs apply_wf_def demo_put_def demo_config_def)
  have upto: "[1..3::int] = [1, 2, 3]"
    by (simp add: upto.simps)
  have un: "committed_unapplied ?l ?a = [demo_put 1 ''a''] @ [demo_put 2 ''b'', demo_config 1 3]"
    by (simp add: committed_unapplied_def upto entry_at_def Let_def index_to_offset_def demo_log_def
        update_entries_def rebuild_request_index_def new_RaftLog_def)
  show ?thesis
    using extract_overtakes_write [OF un wf, of 1]
    by (simp add: demo_put_def demo_config_def demo_entry_def is_config_change_op_def)
qed

end
