(* ===== verification/Raft_Replication.thy ===== *)
theory Raft_Replication
  imports Raft_Log Raft_Membership Raft_Apply
begin

text \<open>
  The leader's view of its peers and the messages it builds for them
  (\<^verbatim>\<open>storage/raft/raft_replication.cpp\<close>).  The references to the membership, the log and the apply
  state that the class holds are arguments of the operations.  The four \<^verbatim>\<open>unordered_map\<close>s from
  replica to index are maps.
\<close>

section \<open>Progress of the peers\<close>

definition K_RAFT_MAX_APPEND_ENTRIES_PER_MESSAGE :: int where
  "K_RAFT_MAX_APPEND_ENTRIES_PER_MESSAGE = 256"

record RaftReplication =
  rp_self_id :: ReplicaID
  rp_next_index :: "ReplicaID \<rightharpoonup> LogIndex"
  rp_match_index :: "ReplicaID \<rightharpoonup> LogIndex"
  rp_snapshot_watermark :: "ReplicaID \<rightharpoonup> LogIndex"
  rp_inflight_snapshot_index :: "ReplicaID \<rightharpoonup> LogIndex"

definition or_zero :: "('k \<rightharpoonup> LogIndex) \<Rightarrow> 'k \<Rightarrow> LogIndex" where
  "or_zero m k = (case m k of None \<Rightarrow> 0 | Some i \<Rightarrow> i)"

definition zero_if_absent :: "('k \<rightharpoonup> LogIndex) \<Rightarrow> 'k \<Rightarrow> ('k \<rightharpoonup> LogIndex)" where
  "zero_if_absent m k = (if m k = None then m(k \<mapsto> 0) else m)"

fun add_peers :: "RaftReplication \<Rightarrow> PeerMember list \<Rightarrow> RaftReplication" where
  "add_peers rp [] = rp"
| "add_peers rp (p # ps) =
    (let r = pm_replica_id p in
     if r = rp_self_id rp then add_peers rp ps
     else add_peers (rp\<lparr>rp_match_index := zero_if_absent (rp_match_index rp) r,
                        rp_snapshot_watermark := zero_if_absent (rp_snapshot_watermark rp) r,
                        rp_inflight_snapshot_index := zero_if_absent (rp_inflight_snapshot_index rp) r\<rparr>) ps)"

definition new_RaftReplication :: "ReplicaID \<Rightarrow> RaftMembership \<Rightarrow> RaftReplication" where
  "new_RaftReplication self ms =
    add_peers \<lparr>rp_self_id = self, rp_next_index = Map.empty, rp_match_index = Map.empty,
               rp_snapshot_watermark = Map.empty, rp_inflight_snapshot_index = Map.empty\<rparr> (peer_members ms)"

definition get_next_index :: "RaftReplication \<Rightarrow> ReplicaID \<Rightarrow> LogIndex" where
  "get_next_index rp r = or_zero (rp_next_index rp) r"

definition update_next_index :: "RaftReplication \<Rightarrow> ReplicaID \<Rightarrow> LogIndex \<Rightarrow> RaftReplication" where
  "update_next_index rp r i = rp\<lparr>rp_next_index := (rp_next_index rp)(r \<mapsto> i)\<rparr>"

definition get_match_index :: "RaftReplication \<Rightarrow> ReplicaID \<Rightarrow> LogIndex" where
  "get_match_index rp r = or_zero (rp_match_index rp) r"

definition update_match_index :: "RaftReplication \<Rightarrow> ReplicaID \<Rightarrow> LogIndex \<Rightarrow> RaftReplication" where
  "update_match_index rp r i = rp\<lparr>rp_match_index := (rp_match_index rp)(r \<mapsto> i)\<rparr>"

fun reset_peers :: "RaftReplication \<Rightarrow> LogIndex \<Rightarrow> PeerMember list \<Rightarrow> RaftReplication" where
  "reset_peers rp last_index [] = rp"
| "reset_peers rp last_index (p # ps) =
    (let r = pm_replica_id p in
     if r = rp_self_id rp then reset_peers rp last_index ps
     else reset_peers (rp\<lparr>rp_next_index := (rp_next_index rp)(r \<mapsto> last_index + 1),
                          rp_match_index := (rp_match_index rp)(r \<mapsto> 0),
                          rp_snapshot_watermark := (rp_snapshot_watermark rp)(r \<mapsto> 0),
                          rp_inflight_snapshot_index := (rp_inflight_snapshot_index rp)(r \<mapsto> 0)\<rparr>) last_index ps)"

definition reset_peer_progress_for_leader :: "RaftReplication \<Rightarrow> RaftMembership \<Rightarrow> LogIndex \<Rightarrow> RaftReplication" where
  "reset_peer_progress_for_leader rp ms last_index =
    reset_peers (rp\<lparr>rp_next_index := Map.empty, rp_match_index := Map.empty,
                    rp_snapshot_watermark := Map.empty, rp_inflight_snapshot_index := Map.empty\<rparr>)
      last_index (peer_members ms)"

definition reset_for_leader :: "RaftReplication \<Rightarrow> RaftMembership \<Rightarrow> RaftLog \<Rightarrow> RaftReplication" where
  "reset_for_leader rp ms l = reset_peer_progress_for_leader rp ms (last_log_index l)"

definition get_snapshot_watermark :: "RaftReplication \<Rightarrow> ReplicaID \<Rightarrow> LogIndex" where
  "get_snapshot_watermark rp r = or_zero (rp_snapshot_watermark rp) r"

definition get_inflight_snapshot_index :: "RaftReplication \<Rightarrow> ReplicaID \<Rightarrow> LogIndex" where
  "get_inflight_snapshot_index rp r = or_zero (rp_inflight_snapshot_index rp) r"

definition update_snapshot_watermark :: "RaftReplication \<Rightarrow> ReplicaID \<Rightarrow> LogIndex \<Rightarrow> RaftReplication" where
  "update_snapshot_watermark rp r watermark =
    rp\<lparr>rp_snapshot_watermark := (rp_snapshot_watermark rp)(r \<mapsto> max (get_snapshot_watermark rp r) watermark),
       rp_match_index := (rp_match_index rp)(r \<mapsto> max (get_match_index rp r) watermark),
       rp_next_index := (rp_next_index rp)(r \<mapsto> max (get_next_index rp r) (watermark + 1))\<rparr>"

definition mark_snapshot_inflight :: "RaftReplication \<Rightarrow> ReplicaID \<Rightarrow> LogIndex \<Rightarrow> RaftReplication \<times> bool" where
  "mark_snapshot_inflight rp r i =
    (if get_inflight_snapshot_index rp r > 0 then (rp, False)
     else (rp\<lparr>rp_inflight_snapshot_index := (rp_inflight_snapshot_index rp)(r \<mapsto> i)\<rparr>, True))"

definition clear_snapshot_inflight :: "RaftReplication \<Rightarrow> ReplicaID \<Rightarrow> LogIndex \<Rightarrow> RaftReplication" where
  "clear_snapshot_inflight rp r i =
    (case rp_inflight_snapshot_index rp r of
       None \<Rightarrow> rp
     | Some j \<Rightarrow> if j = i then rp\<lparr>rp_inflight_snapshot_index := (rp_inflight_snapshot_index rp)(r \<mapsto> 0)\<rparr> else rp)"

definition handle_append_ok :: "RaftReplication \<Rightarrow> ReplicaID \<Rightarrow> LogIndex \<Rightarrow> nat \<Rightarrow> RaftReplication" where
  "handle_append_ok rp r prev_log_index entries_size =
    (let matched = prev_log_index + int entries_size;
         rp1 = (if matched > get_match_index rp r then update_match_index rp r matched else rp)
     in update_next_index rp1 r (get_match_index rp1 r + 1))"

definition handle_peer_append_failed ::
    "RaftReplication \<Rightarrow> ReplicaID \<Rightarrow> LogIndex \<Rightarrow> LogIndex \<Rightarrow> RaftReplication" where
  "handle_peer_append_failed rp r follower_last leader_last =
    (let current_next = get_next_index rp r;
         new_next = min follower_last leader_last + 1;
         new_next = (if new_next \<ge> current_next \<and> current_next > 1 then current_next - 1 else new_next);
         new_next = max new_next (get_match_index rp r + 1)
     in update_next_index rp r new_next)"

definition handle_append_failed :: "RaftReplication \<Rightarrow> RaftLog \<Rightarrow> ReplicaID \<Rightarrow> LogIndex \<Rightarrow> RaftReplication" where
  "handle_append_failed rp l r follower_last = handle_peer_append_failed rp r follower_last (last_log_index l)"

definition is_stale_append_response :: "RaftReplication \<Rightarrow> ReplicaID \<Rightarrow> AppendEntriesParam \<Rightarrow> bool" where
  "is_stale_append_response rp r sent \<longleftrightarrow> ae_prev_log_index sent + 1 \<noteq> get_next_index rp r"

definition match_index_at_least :: "RaftReplication \<Rightarrow> ReplicaID \<Rightarrow> LogIndex \<Rightarrow> bool" where
  "match_index_at_least rp r i \<longleftrightarrow> get_match_index rp r \<ge> i"

section \<open>Messages\<close>

definition build_append_entries_message :: "RaftReplication \<Rightarrow> RaftLog \<Rightarrow> RaftApply \<Rightarrow> PeerMember \<Rightarrow> LogIndex \<Rightarrow> Term
    \<Rightarrow> RaftReplication \<times> RaftMessage option" where
  "build_append_entries_message rp l a p next current_term =
    (let prev = next - 1; r = pm_replica_id p in
     if prev < rl_snapshot_index l then
       (let snapshot_index = rl_snapshot_index l;
            (rp1, marked) = mark_snapshot_inflight rp r snapshot_index
        in if \<not> marked then (rp1, None)
           else (rp1, Some (InstallSnapshotMsg p
              \<lparr>is_from = rp_self_id rp, is_to = r, is_term = current_term,
               is_snapshot_index = snapshot_index, is_snapshot_term = rl_snapshot_term l,
               is_offset = 0, is_data = [], is_done = False\<rparr>)))
     else
       (rp, Some (AppendEntriesMsg p
         \<lparr>ae_from = rp_self_id rp, ae_to = r, ae_term = current_term,
          ae_entries = entries_from_max l next K_RAFT_MAX_APPEND_ENTRIES_PER_MESSAGE,
          ae_prev_log_index = prev, ae_prev_log_term = term_at l prev,
          ae_leader_commit = ap_commit_index a, ae_read_quorum_seq = 0\<rparr>)))"

fun broadcast_loop :: "RaftReplication \<Rightarrow> RaftLog \<Rightarrow> RaftApply \<Rightarrow> Term \<Rightarrow> RaftMember list \<Rightarrow> RaftEffects
    \<Rightarrow> RaftReplication \<times> RaftEffects" where
  "broadcast_loop rp l a t [] eff = (rp, eff)"
| "broadcast_loop rp l a t (m # ms) eff =
    (let p = rm_peer m; r = pm_replica_id p in
     if r = rp_self_id rp then broadcast_loop rp l a t ms eff
     else
       let rp1 = (if get_next_index rp r = 0 then update_next_index rp r (last_log_index l + 1) else rp);
           (rp2, msg) = build_append_entries_message rp1 l a p (get_next_index rp1 r) t
       in broadcast_loop rp2 l a t ms (case msg of None \<Rightarrow> eff | Some m \<Rightarrow> push_message m eff))"

definition replication_broadcast :: "RaftReplication \<Rightarrow> RaftMembership \<Rightarrow> RaftLog \<Rightarrow> RaftApply \<Rightarrow> Term \<Rightarrow> RaftEffects
    \<Rightarrow> RaftReplication \<times> RaftEffects" where
  "replication_broadcast rp ms l a t eff = broadcast_loop rp l a t ms eff"

section \<open>Commit rule\<close>

record CommitAdvanceResult =
  car_advanced :: bool
  car_old_commit_index :: LogIndex
  car_new_commit_index :: LogIndex

fun count_acks :: "RaftReplication \<Rightarrow> LogIndex \<Rightarrow> PeerMember list \<Rightarrow> int \<Rightarrow> int" where
  "count_acks rp i [] cnt = cnt"
| "count_acks rp i (p # ps) cnt =
    (if pm_replica_id p = rp_self_id rp then count_acks rp i ps cnt
     else if match_index_at_least rp (pm_replica_id p) i then count_acks rp i ps (cnt + 1)
     else count_acks rp i ps cnt)"

fun commit_loop :: "RaftReplication \<Rightarrow> RaftMembership \<Rightarrow> RaftLog \<Rightarrow> Term \<Rightarrow> LogIndex list \<Rightarrow> RaftApply \<Rightarrow> RaftApply" where
  "commit_loop rp ms l t [] a = a"
| "commit_loop rp ms l t (i # is) a =
    (if term_at l i \<noteq> t then commit_loop rp ms l t is a
     else if has_quorum ms (count_acks rp i (voters ms) 1)
     then commit_loop rp ms l t is (set_commit_index a i)
     else commit_loop rp ms l t is a)"

definition try_advance_commit_index :: "RaftReplication \<Rightarrow> RaftMembership \<Rightarrow> RaftLog \<Rightarrow> RaftApply \<Rightarrow> Term
    \<Rightarrow> RaftApply \<times> CommitAdvanceResult" where
  "try_advance_commit_index rp ms l a t =
    (let a' = commit_loop rp ms l t [ap_commit_index a + 1..last_log_index l] a
     in (a', \<lparr>car_advanced = ap_commit_index a' > ap_commit_index a,
              car_old_commit_index = ap_commit_index a, car_new_commit_index = ap_commit_index a'\<rparr>))"

section \<open>Facts\<close>

text \<open>The replica id of the owner never changes.\<close>

lemma self_id_simps [simp, frame_simps]:
  "rp_self_id (update_next_index rp r i) = rp_self_id rp"
  "rp_self_id (update_match_index rp r i) = rp_self_id rp"
  "rp_self_id (update_snapshot_watermark rp r i) = rp_self_id rp"
  "rp_self_id (clear_snapshot_inflight rp r i) = rp_self_id rp"
  "rp_self_id (handle_append_ok rp r i n) = rp_self_id rp"
  "rp_self_id (handle_append_failed rp l r i) = rp_self_id rp"
  "rp_self_id (fst (mark_snapshot_inflight rp r i)) = rp_self_id rp"
  "rp_self_id (fst (build_append_entries_message rp l a p i t)) = rp_self_id rp"
  by (auto simp: update_next_index_def update_match_index_def update_snapshot_watermark_def
      clear_snapshot_inflight_def handle_append_ok_def handle_append_failed_def handle_peer_append_failed_def
      mark_snapshot_inflight_def build_append_entries_message_def Let_def split: option.splits prod.splits)

lemma reset_peers_self_id [simp]: "rp_self_id (reset_peers rp i ps) = rp_self_id rp"
  by (induction ps arbitrary: rp) (simp_all add: Let_def)

lemma reset_for_leader_self_id [simp]: "rp_self_id (reset_for_leader rp ms l) = rp_self_id rp"
  by (simp add: reset_for_leader_def reset_peer_progress_for_leader_def)

lemma add_peers_self_id [simp]: "rp_self_id (add_peers rp ps) = rp_self_id rp"
  by (induction ps arbitrary: rp) (simp_all add: Let_def)

lemma new_RaftReplication_self_id [simp]: "rp_self_id (new_RaftReplication self ms) = self"
  by (simp add: new_RaftReplication_def)

lemma or_zero_simps [simp]:
  "or_zero Map.empty k = 0" "or_zero (m(k \<mapsto> i)) k' = (if k' = k then i else or_zero m k')"
  by (simp_all add: or_zero_def)

lemma progress_simps [simp]:
  "get_next_index (update_next_index rp r i) r' = (if r' = r then i else get_next_index rp r')"
  "get_match_index (update_next_index rp r i) r' = get_match_index rp r'"
  "get_match_index (update_match_index rp r i) r' = (if r' = r then i else get_match_index rp r')"
  "get_next_index (update_match_index rp r i) r' = get_next_index rp r'"
  by (simp_all add: get_next_index_def get_match_index_def update_next_index_def update_match_index_def)

text \<open>A fresh leader knows nothing of its peers and starts them at the end of its log.\<close>

lemma reset_peers_progress:
  "get_match_index (reset_peers rp i ps) r =
     (if r \<noteq> rp_self_id rp \<and> r \<in> pm_replica_id ` set ps then 0 else get_match_index rp r)"
  "get_next_index (reset_peers rp i ps) r =
     (if r \<noteq> rp_self_id rp \<and> r \<in> pm_replica_id ` set ps then i + 1 else get_next_index rp r)"
  by (induction ps arbitrary: rp) (auto simp: Let_def get_match_index_def get_next_index_def)

lemma reset_for_leader_match [simp]: "get_match_index (reset_for_leader rp ms l) r = 0"
  by (simp add: reset_for_leader_def reset_peer_progress_for_leader_def reset_peers_progress)
    (simp add: get_match_index_def)

text \<open>What a leader knows of a peer only grows while it leads.\<close>

lemma match_index_mono:
  "get_match_index rp r' \<le> get_match_index (handle_append_ok rp r i n) r'"
  "get_match_index (handle_append_failed rp l r i) r' = get_match_index rp r'"
  "get_match_index rp r' \<le> get_match_index (update_snapshot_watermark rp r i) r'"
  "get_match_index (clear_snapshot_inflight rp r i) r' = get_match_index rp r'"
  by (auto simp: handle_append_ok_def handle_append_failed_def handle_peer_append_failed_def Let_def
      update_snapshot_watermark_def clear_snapshot_inflight_def get_match_index_def get_next_index_def
      update_match_index_def update_next_index_def or_zero_def split: option.splits)

lemma handle_append_ok_match:
  "get_match_index (handle_append_ok rp r i n) r' =
    (if r' = r then max (get_match_index rp r) (i + int n) else get_match_index rp r')"
  by (auto simp: handle_append_ok_def Let_def)

text \<open>After every answer of a peer the next index is above what the peer is known to have.\<close>

lemma next_above_match:
  "get_match_index (handle_append_ok rp r i n) r < get_next_index (handle_append_ok rp r i n) r"
  "get_match_index (handle_append_failed rp l r i) r < get_next_index (handle_append_failed rp l r i) r"
  by (auto simp: handle_append_ok_def handle_append_failed_def handle_peer_append_failed_def Let_def)

lemma broadcast_match [simp]:
  "get_match_index (fst (build_append_entries_message rp l a p i t)) r = get_match_index rp r"
  by (auto simp: build_append_entries_message_def mark_snapshot_inflight_def Let_def get_match_index_def)

lemma broadcast_loop_frame [simp]:
  "rp_self_id (fst (broadcast_loop rp l a t ms eff)) = rp_self_id rp"
  "get_match_index (fst (broadcast_loop rp l a t ms eff)) r = get_match_index rp r"
  "ef_hard_state (snd (broadcast_loop rp l a t ms eff)) = ef_hard_state eff"
  "ef_entries_to_append (snd (broadcast_loop rp l a t ms eff)) = ef_entries_to_append eff"
  "ef_entries_to_rewrite (snd (broadcast_loop rp l a t ms eff)) = ef_entries_to_rewrite eff"
proof (induction ms arbitrary: rp eff)
  case (Cons m ms)
  {
    case 1 show ?case by (simp add: Let_def case_prod_beta Cons.IH)
  next
    case 2 show ?case by (simp add: Let_def case_prod_beta Cons.IH)
  next
    case 3 show ?case by (simp add: Let_def case_prod_beta Cons.IH push_message_def split: option.splits)
  next
    case 4 show ?case by (simp add: Let_def case_prod_beta Cons.IH push_message_def split: option.splits)
  next
    case 5 show ?case by (simp add: Let_def case_prod_beta Cons.IH push_message_def split: option.splits)
  }
qed simp_all

section \<open>Messages are cut out of the log\<close>

text \<open>What every message a leader builds for its followers satisfies with respect to its own log.\<close>

definition message_from_log :: "ReplicaID \<Rightarrow> RaftLog \<Rightarrow> LogIndex \<Rightarrow> Term \<Rightarrow> RaftMessage \<Rightarrow> bool" where
  "message_from_log self l commit t m =
    (case m of
       AppendEntriesMsg p ae \<Rightarrow>
         ae_from ae = self \<and> ae_to ae = pm_replica_id p \<and> ae_term ae = t
         \<and> rl_snapshot_index l \<le> ae_prev_log_index ae
         \<and> ae_prev_log_term ae = term_at l (ae_prev_log_index ae) \<and> ae_leader_commit ae = commit
         \<and> contiguous (ae_prev_log_index ae + 1) (ae_entries ae)
         \<and> (\<forall>e \<in> set (ae_entries ae). entry_at l (le_index e) = Some e)
         \<and> int (length (ae_entries ae)) \<le> K_RAFT_MAX_APPEND_ENTRIES_PER_MESSAGE
     | InstallSnapshotMsg p i \<Rightarrow>
         is_from i = self \<and> is_to i = pm_replica_id p \<and> is_term i = t
         \<and> is_snapshot_index i = rl_snapshot_index l \<and> is_snapshot_term i = rl_snapshot_term l
     | _ \<Rightarrow> False)"

lemma build_append_entries_message_from_log:
  assumes "log_wf l" and "build_append_entries_message rp l a p next t = (rp', Some m)"
  shows "message_from_log (rp_self_id rp) l (ap_commit_index a) t m"
proof (cases "next - 1 < rl_snapshot_index l")
  case True
  then show ?thesis
    using assms(2) by (auto simp: build_append_entries_message_def message_from_log_def Let_def
        split: prod.splits if_splits)
next
  case False
  then show ?thesis
    using assms(2) entries_from_max_slice [OF assms(1), of "next" K_RAFT_MAX_APPEND_ENTRIES_PER_MESSAGE]
    by (auto simp: build_append_entries_message_def message_from_log_def Let_def
        K_RAFT_MAX_APPEND_ENTRIES_PER_MESSAGE_def)
qed

lemma broadcast_loop_messages:
  "log_wf l \<Longrightarrow> m \<in> set (ef_messages (snd (broadcast_loop rp l a t ms eff))) \<Longrightarrow>
   m \<in> set (ef_messages eff) \<or> message_from_log (rp_self_id rp) l (ap_commit_index a) t m"
proof (induction ms arbitrary: rp eff)
  case (Cons x ms)
  let ?p = "rm_peer x" let ?r = "pm_replica_id ?p"
  let ?rp1 = "if get_next_index rp ?r = 0 then update_next_index rp ?r (last_log_index l + 1) else rp"
  obtain rp2 msg where b: "build_append_entries_message ?rp1 l a ?p (get_next_index ?rp1 ?r) t = (rp2, msg)"
    by fastforce
  have id: "rp_self_id rp2 = rp_self_id rp" "rp_self_id ?rp1 = rp_self_id rp"
    using arg_cong [OF b, of "rp_self_id \<circ> fst"] by (simp_all split: if_splits)
  show ?case
  proof (cases "?r = rp_self_id rp")
    case True
    then show ?thesis
      using Cons by (simp add: Let_def)
  next
    case False
    let ?eff = "case msg of None \<Rightarrow> eff | Some m \<Rightarrow> push_message m eff"
    have "m \<in> set (ef_messages (snd (broadcast_loop rp2 l a t ms ?eff)))"
      using Cons.prems(2) False b by (simp add: Let_def)
    then have "m \<in> set (ef_messages ?eff) \<or> message_from_log (rp_self_id rp) l (ap_commit_index a) t m"
      using Cons.IH [OF Cons.prems(1)] id(1) by metis
    then show ?thesis
      using build_append_entries_message_from_log [OF Cons.prems(1), of ?rp1 a ?p "get_next_index ?rp1 ?r" t rp2] b id(2)
      by (auto simp: push_message_def split: option.splits)
  qed
qed simp

section \<open>Commit rule\<close>

lemma count_acks_filter:
  "count_acks rp i ps cnt =
    cnt + int (length (filter (\<lambda>p. pm_replica_id p \<noteq> rp_self_id rp \<and> match_index_at_least rp (pm_replica_id p) i) ps))"
  by (induction ps arbitrary: cnt) simp_all

definition acked_voters :: "RaftReplication \<Rightarrow> RaftMembership \<Rightarrow> LogIndex \<Rightarrow> ReplicaID set" where
  "acked_voters rp ms i = {r \<in> voter_ids ms. r = rp_self_id rp \<or> i \<le> get_match_index rp r}"

lemma distinct_voters: "members_wf ms \<Longrightarrow> distinct (map pm_replica_id (voters ms))"
  by (auto simp: members_wf_def voters_def member_id_def [abs_def] distinct_map comp_def
      intro: inj_on_subset dest: distinct_filter)

lemma image_Collect_filter: "f ` {x \<in> A. P (f x)} = {y \<in> f ` A. P y}"
  by blast

lemma count_acks_card:
  assumes "members_wf ms" "rp_self_id rp \<in> voter_ids ms"
  shows "count_acks rp i (voters ms) 1 = int (card (acked_voters rp ms i))"
proof -
  let ?Q = "\<lambda>r. r \<noteq> rp_self_id rp \<and> match_index_at_least rp r i"
  let ?P = "\<lambda>p. ?Q (pm_replica_id p)"
  have "distinct (map pm_replica_id (filter ?P (voters ms)))"
    by (rule distinct_map_filter [OF distinct_voters [OF assms(1)]])
  from distinct_card [OF this]
  have "length (filter ?P (voters ms)) = card (pm_replica_id ` {p \<in> set (voters ms). ?Q (pm_replica_id p)})"
    by simp
  also have "pm_replica_id ` {p \<in> set (voters ms). ?Q (pm_replica_id p)} = {r \<in> pm_replica_id ` set (voters ms). ?Q r}"
    by (rule image_Collect_filter)
  also have "\<dots> = acked_voters rp ms i - {rp_self_id rp}"
    unfolding acked_voters_def voter_ids_conv match_index_at_least_def by blast
  finally have "length (filter ?P (voters ms)) = card (acked_voters rp ms i - {rp_self_id rp})" .
  moreover have "finite (acked_voters rp ms i)" "rp_self_id rp \<in> acked_voters rp ms i"
    using assms(2) by (simp_all add: acked_voters_def)
  ultimately show ?thesis
    using card.remove [of "acked_voters rp ms i" "rp_self_id rp"] unfolding count_acks_filter by linarith
qed

lemma sorted_last_ge: "sorted (xs :: int list) \<Longrightarrow> x \<in> set xs \<Longrightarrow> x \<le> last xs"
  by (induction xs) auto

lemma commit_loop_last:
  "ap_commit_index (commit_loop rp ms l t is a) =
    (case filter (\<lambda>i. term_at l i = t \<and> has_quorum ms (count_acks rp i (voters ms) 1)) is of
       [] \<Rightarrow> ap_commit_index a | js \<Rightarrow> last js)"
  by (induction "is" arbitrary: a) (auto simp: set_commit_index_def split: list.splits)

lemma commit_loop_last_applied [simp]: "ap_last_applied (commit_loop rp ms l t is a) = ap_last_applied a"
  by (induction "is" arbitrary: a) (auto simp: set_commit_index_def)

text \<open>The new commit index is the greatest index the rule accepts, or the old one.\<close>

lemma commit_loop_upto:
  assumes "a' = commit_loop rp ms l t [ap_commit_index a + 1..last_log_index l] a"
  defines "P \<equiv> \<lambda>i. term_at l i = t \<and> has_quorum ms (count_acks rp i (voters ms) 1)"
  shows "ap_commit_index a' = ap_commit_index a
      \<or> ap_commit_index a < ap_commit_index a' \<and> ap_commit_index a' \<le> last_log_index l \<and> P (ap_commit_index a')"
    and "ap_commit_index a' < i \<Longrightarrow> i \<le> last_log_index l \<Longrightarrow> \<not> P i"
proof -
  let ?js = "filter P [ap_commit_index a + 1..last_log_index l]"
  have c: "ap_commit_index a' = (case ?js of [] \<Rightarrow> ap_commit_index a | js \<Rightarrow> last js)"
    unfolding assms P_def by (rule commit_loop_last)
  have last: "last ?js \<in> set ?js" if "?js \<noteq> []"
    using that by (rule last_in_set)
  show "ap_commit_index a' = ap_commit_index a
      \<or> ap_commit_index a < ap_commit_index a' \<and> ap_commit_index a' \<le> last_log_index l \<and> P (ap_commit_index a')"
    using c last by (cases "?js = []") (auto split: list.splits)
  assume i: "ap_commit_index a' < i" "i \<le> last_log_index l"
  show "\<not> P i"
  proof
    assume "P i"
    have "ap_commit_index a \<le> ap_commit_index a'"
      using c last by (cases "?js = []") (fastforce split: list.splits)+
    then have mem: "i \<in> set ?js"
      using i \<open>P i\<close> by simp
    have "sorted ?js"
      by (intro sorted_wrt_filter) (rule sorted_upto)
    then have "i \<le> last ?js"
      using mem by (rule sorted_last_ge)
    moreover have "ap_commit_index a' = last ?js"
      using c mem by (cases ?js) auto
    ultimately show False
      using i(1) by simp
  qed
qed

section \<open>Properties\<close>

text \<open>
  C8. The commit rule: advancing the commit index never moves it back nor past the log; when it moves, the
  entry at the new index is of the leader's current term and the voters known to hold it, the leader
  included, are a quorum; and no later entry of the current term has such a quorum.
\<close>

theorem commit_rule:
  assumes wf: "members_wf ms" and self: "rp_self_id rp \<in> voter_ids ms"
    and adv: "try_advance_commit_index rp ms l a t = (a', res)"
  shows "ap_commit_index a \<le> ap_commit_index a' \<and> ap_last_applied a' = ap_last_applied a
    \<and> (car_advanced res \<longleftrightarrow> ap_commit_index a < ap_commit_index a')
    \<and> (ap_commit_index a < ap_commit_index a' \<longrightarrow>
         ap_commit_index a' \<le> last_log_index l \<and> term_at l (ap_commit_index a') = t
         \<and> voter_quorum ms (acked_voters rp ms (ap_commit_index a')))
    \<and> (\<forall>i. ap_commit_index a' < i \<and> i \<le> last_log_index l \<and> term_at l i = t
         \<longrightarrow> \<not> voter_quorum ms (acked_voters rp ms i))"
proof -
  have a': "a' = commit_loop rp ms l t [ap_commit_index a + 1..last_log_index l] a"
    and res: "car_advanced res \<longleftrightarrow> ap_commit_index a < ap_commit_index a'"
    using adv by (auto simp: try_advance_commit_index_def Let_def)
  have q: "voter_quorum ms (acked_voters rp ms i) \<longleftrightarrow> has_quorum ms (count_acks rp i (voters ms) 1)" for i
    by (auto simp: voter_quorum_def count_acks_card [OF wf self] acked_voters_def)
  show ?thesis
    using commit_loop_upto [OF a'] res commit_loop_last_applied [of rp ms l t _ a] by (auto simp: q a')
qed

definition demo_members :: RaftMembership where
  "demo_members = reset_voters [demo_peer 1, demo_peer 2, demo_peer 3]"

definition demo_progress :: RaftReplication where
  "demo_progress = \<lparr>rp_self_id = demo_id 1, rp_next_index = Map.empty, rp_match_index = [demo_id 2 \<mapsto> 2],
     rp_snapshot_watermark = Map.empty, rp_inflight_snapshot_index = Map.empty\<rparr>"

lemma demo_members_simps [simp]:
  "members_wf demo_members" "voter_ids demo_members = {demo_id 1, demo_id 2, demo_id 3}"
  "quorum_size demo_members = 2" "rp_self_id demo_progress = demo_id 1"
  by (simp_all add: demo_members_def members_wf_def is_raft_voter_def quorum_size_def voters_def demo_progress_def)

theorem commit_rule_witness:
  "ap_commit_index (fst (try_advance_commit_index demo_progress demo_members demo_leader new_RaftApply 2)) = 2"
proof -
  obtain a' res where adv: "try_advance_commit_index demo_progress demo_members demo_leader new_RaftApply 2 = (a', res)"
    by fastforce
  have "acked_voters demo_progress demo_members 2 = {demo_id 1, demo_id 2}"
      "acked_voters demo_progress demo_members 3 = {demo_id 1}"
    by (auto simp: acked_voters_def get_match_index_def demo_progress_def)
  then have q: "voter_quorum demo_members (acked_voters demo_progress demo_members 2)"
      "\<not> voter_quorum demo_members (acked_voters demo_progress demo_members 3)"
    by (simp_all add: voter_quorum_def has_quorum_def)
  have log: "last_log_index demo_leader = 3" "term_at demo_leader 2 = 2"
    by (simp_all add: demo_leader_def demo_defs term_at_def Let_def index_to_offset_def)
  have "rp_self_id demo_progress \<in> voter_ids demo_members"
    by simp
  note c = commit_rule [OF demo_members_simps(1) this adv]
  have "2 \<le> ap_commit_index a'"
  proof (rule ccontr)
    assume "\<not> 2 \<le> ap_commit_index a'"
    then show False
      using c q(1) log by auto
  qed
  moreover have "ap_commit_index a' \<le> 2"
  proof (rule ccontr)
    assume "\<not> ap_commit_index a' \<le> 2"
    then have "ap_commit_index a' = 3"
      using c log by (auto simp: new_RaftApply_def)
    then show False
      using c q(2) by (simp add: new_RaftApply_def)
  qed
  ultimately show ?thesis
    using adv by simp
qed

end
