(* ===== verification/Tick_Trigger.thy ===== *)
theory Tick_Trigger
  imports Prelude
begin

text \<open>
  The counting trigger behind elections and heartbeats (\<^verbatim>\<open>common/tick_trigger.h\<close>).  A limit function
  draws a random number; it is a sequence of draws here and the trigger carries the position in it.
  The assertion that a limit is not negative is a precondition.
\<close>

section \<open>Operations\<close>

record TickTrigger =
  tt_stop_flag :: bool
  tt_cur_cnt :: int
  tt_limit_func :: "(nat \<Rightarrow> int) option"
  tt_draws :: nat
  tt_limit_cnt :: int

definition make_next_limit :: "TickTrigger \<Rightarrow> TickTrigger" where
  "make_next_limit t =
    (case tt_limit_func t of
       None \<Rightarrow> t
     | Some f \<Rightarrow> t\<lparr>tt_limit_cnt := f (tt_draws t), tt_draws := tt_draws t + 1\<rparr>)"

definition new_TickTrigger :: "int \<Rightarrow> TickTrigger" where
  "new_TickTrigger limit = \<lparr>tt_stop_flag = False, tt_cur_cnt = 0, tt_limit_func = None, tt_draws = 0, tt_limit_cnt = limit\<rparr>"

definition new_TickTrigger_func :: "(nat \<Rightarrow> int) \<Rightarrow> TickTrigger" where
  "new_TickTrigger_func f =
    make_next_limit \<lparr>tt_stop_flag = False, tt_cur_cnt = 0, tt_limit_func = Some f, tt_draws = 0, tt_limit_cnt = 0\<rparr>"

definition is_catch_up_limit :: "TickTrigger \<Rightarrow> TickTrigger \<times> bool" where
  "is_catch_up_limit t =
    (if tt_cur_cnt t < tt_limit_cnt t then (t, False)
     else (make_next_limit (t\<lparr>tt_cur_cnt := 0\<rparr>), True))"

definition trigger_tick :: "TickTrigger \<Rightarrow> TickTrigger \<times> bool" where
  "trigger_tick t =
    (if tt_stop_flag t then (t, False)
     else is_catch_up_limit (t\<lparr>tt_cur_cnt := tt_cur_cnt t + 1\<rparr>))"

definition trigger_reset :: "TickTrigger \<Rightarrow> TickTrigger \<times> bool" where
  "trigger_reset t = is_catch_up_limit (make_next_limit (t\<lparr>tt_stop_flag := False, tt_cur_cnt := 0\<rparr>))"

definition trigger_reset_limit :: "TickTrigger \<Rightarrow> int \<Rightarrow> TickTrigger \<times> bool" where
  "trigger_reset_limit t limit = trigger_reset (t\<lparr>tt_limit_func := None, tt_limit_cnt := limit\<rparr>)"

definition trigger_clear :: "TickTrigger \<Rightarrow> TickTrigger \<times> bool" where
  "trigger_clear t = (if tt_stop_flag t then (t, False) else trigger_reset t)"

definition trigger_stop :: "TickTrigger \<Rightarrow> TickTrigger" where
  "trigger_stop t = t\<lparr>tt_stop_flag := True\<rparr>"

text \<open>A number of consecutive ticks, and whether each of them fired.\<close>

primrec ticks :: "nat \<Rightarrow> TickTrigger \<Rightarrow> TickTrigger \<times> bool list" where
  "ticks 0 t = (t, [])"
| "ticks (Suc n) t = (let (t1, b) = trigger_tick t; (t2, bs) = ticks n t1 in (t2, b # bs))"

section \<open>Invariant\<close>

text \<open>The limits lie between two bounds and the counter stays below the limit.\<close>

definition trigger_wf :: "int \<Rightarrow> int \<Rightarrow> TickTrigger \<Rightarrow> bool" where
  "trigger_wf lo hi t \<longleftrightarrow> 0 < lo \<and> lo \<le> tt_limit_cnt t \<and> tt_limit_cnt t \<le> hi
     \<and> (\<forall>f. tt_limit_func t = Some f \<longrightarrow> (\<forall>n. lo \<le> f n \<and> f n \<le> hi))
     \<and> 0 \<le> tt_cur_cnt t \<and> tt_cur_cnt t < tt_limit_cnt t"

lemma new_TickTrigger_wf: "0 < n \<Longrightarrow> trigger_wf n n (new_TickTrigger n)"
  by (simp add: trigger_wf_def new_TickTrigger_def)

lemma new_TickTrigger_func_wf:
  "0 < lo \<Longrightarrow> \<forall>n. lo \<le> f n \<and> f n \<le> hi \<Longrightarrow> trigger_wf lo hi (new_TickTrigger_func f)"
  by (simp add: trigger_wf_def new_TickTrigger_func_def make_next_limit_def less_le_trans [of 0 lo])

lemma make_next_limit_wf:
  "trigger_wf lo hi t \<Longrightarrow> trigger_wf lo hi (make_next_limit (t\<lparr>tt_cur_cnt := 0\<rparr>))"
  by (simp add: trigger_wf_def make_next_limit_def less_le_trans [of 0 lo] split: option.splits)

lemma trigger_tick_wf: "trigger_wf lo hi t \<Longrightarrow> trigger_wf lo hi (fst (trigger_tick t))"
  using make_next_limit_wf [of lo hi t]
  by (auto simp: trigger_tick_def is_catch_up_limit_def) (auto simp: trigger_wf_def)

text \<open>A reset trigger waits for a fresh limit and does not fire at once.\<close>

lemma trigger_reset_simps:
  assumes "trigger_wf lo hi t"
  shows "trigger_reset t = (make_next_limit (t\<lparr>tt_stop_flag := False, tt_cur_cnt := 0\<rparr>), False)"
    and "trigger_wf lo hi (fst (trigger_reset t))" and "tt_cur_cnt (fst (trigger_reset t)) = 0"
    and "\<not> tt_stop_flag (fst (trigger_reset t))"
proof -
  let ?t = "make_next_limit (t\<lparr>tt_stop_flag := False, tt_cur_cnt := 0\<rparr>)"
  have "trigger_wf lo hi (t\<lparr>tt_stop_flag := False\<rparr>)"
    using assms by (simp add: trigger_wf_def)
  from make_next_limit_wf [OF this] have wf: "trigger_wf lo hi ?t"
    by simp
  then show eq: "trigger_reset t = (?t, False)"
    by (simp add: trigger_reset_def is_catch_up_limit_def trigger_wf_def)
  show "trigger_wf lo hi (fst (trigger_reset t))"
    using wf by (simp add: eq)
  show "tt_cur_cnt (fst (trigger_reset t)) = 0" "\<not> tt_stop_flag (fst (trigger_reset t))"
    by (simp_all add: eq make_next_limit_def split: option.splits)
qed

lemma trigger_clear_wf: "trigger_wf lo hi t \<Longrightarrow> trigger_wf lo hi (fst (trigger_clear t))"
  using trigger_reset_simps(2) by (simp add: trigger_clear_def)

lemma trigger_stop_wf [simp]: "trigger_wf lo hi (trigger_stop t) = trigger_wf lo hi t"
  by (simp add: trigger_wf_def trigger_stop_def)

section \<open>Properties\<close>

lemma ticks_until_limit:
  "trigger_wf lo hi t \<Longrightarrow> \<not> tt_stop_flag t \<Longrightarrow> int n = tt_limit_cnt t - tt_cur_cnt t - 1 \<Longrightarrow>
   snd (ticks (Suc n) t) = replicate n False @ [True]"
proof (induction n arbitrary: t)
  case 0
  then show ?case
    by (simp add: trigger_tick_def is_catch_up_limit_def)
next
  case (Suc n)
  let ?t = "t\<lparr>tt_cur_cnt := tt_cur_cnt t + 1\<rparr>"
  have "trigger_tick t = (?t, False)"
    using Suc.prems by (simp add: trigger_tick_def is_catch_up_limit_def)
  moreover have "snd (ticks (Suc n) ?t) = replicate n False @ [True]"
    using Suc.prems by (intro Suc.IH) (auto simp: trigger_wf_def)
  ultimately show ?case
    using ticks.simps(2) [of "Suc n" t] by (simp add: case_prod_beta Let_def del: ticks.simps)
qed

end
