(* ===== verification/Raft_Core.thy ===== *)
theory Raft_Core
  imports Raft_Election Raft_Replication Tick_Trigger
begin

text \<open>
  The Raft state machine of a replica (\<^verbatim>\<open>storage/raft/core\<close>).  A handler takes the state and the
  effects collected so far and gives the new state and effects; the reference parameters for results
  are further components.  The random election timeout is the sequence of draws given to the
  constructor.  Log output and metrics are left out.
\<close>

section \<open>State\<close>

record RaftCore =
  co_self_id :: ReplicaID
  co_election :: RaftElection
  co_log :: RaftLog
  co_apply :: RaftApply
  co_membership :: RaftMembership
  co_replication :: RaftReplication
  co_election_tick :: TickTrigger
  co_heartbeat_tick :: TickTrigger
  co_recent_leader_active :: bool
  co_recovering :: bool

definition K_RAFT_HEARTBEAT_INTERVAL_TICKS :: int where
  "K_RAFT_HEARTBEAT_INTERVAL_TICKS = 3"

definition K_RAFT_ELECTION_TIMEOUT_MIN_TICKS :: int where
  "K_RAFT_ELECTION_TIMEOUT_MIN_TICKS = 15"

definition K_RAFT_ELECTION_TIMEOUT_MAX_TICKS :: int where
  "K_RAFT_ELECTION_TIMEOUT_MAX_TICKS = 30"

definition new_RaftCore :: "(nat \<Rightarrow> int) \<Rightarrow> ReplicaID \<Rightarrow> PeerMember list \<Rightarrow> RaftCore" where
  "new_RaftCore timeout self members =
    \<lparr>co_self_id = self, co_election = new_RaftElection self, co_log = new_RaftLog, co_apply = new_RaftApply,
     co_membership = reset_voters members,
     co_replication = new_RaftReplication self (reset_voters members),
     co_election_tick = new_TickTrigger_func timeout,
     co_heartbeat_tick = new_TickTrigger K_RAFT_HEARTBEAT_INTERVAL_TICKS,
     co_recent_leader_active = False, co_recovering = False\<rparr>"

abbreviation co_term :: "RaftCore \<Rightarrow> Term" where
  "co_term c \<equiv> el_current_term (co_election c)"

abbreviation co_role :: "RaftCore \<Rightarrow> ReplicaRole" where
  "co_role c \<equiv> el_role (co_election c)"

abbreviation co_commit :: "RaftCore \<Rightarrow> LogIndex" where
  "co_commit c \<equiv> ap_commit_index (co_apply c)"

abbreviation co_applied :: "RaftCore \<Rightarrow> LogIndex" where
  "co_applied c \<equiv> ap_last_applied (co_apply c)"

definition later_than_other :: "RaftCore \<Rightarrow> Term \<Rightarrow> LogIndex \<Rightarrow> bool" where
  "later_than_other c other_term other_index =
    (if last_log_term (co_log c) \<noteq> other_term then last_log_term (co_log c) > other_term
     else last_log_index (co_log c) > other_index)"

definition clear_recent_leader_active :: "RaftCore \<Rightarrow> RaftCore" where
  "clear_recent_leader_active c = c\<lparr>co_recent_leader_active := False\<rparr>"

definition mark_recent_leader_active :: "RaftCore \<Rightarrow> RaftCore" where
  "mark_recent_leader_active c = c\<lparr>co_recent_leader_active := True\<rparr>"

definition ensure_ready :: "RaftCore \<Rightarrow> Status" where
  "ensure_ready c = (if co_recovering c then IS_RECOVERING else OK)"

definition ensure_writable_leader :: "RaftCore \<Rightarrow> Status" where
  "ensure_writable_leader c =
    (if fail (ensure_ready c) then ensure_ready c
     else if \<not> is_leader (co_election c) then NOT_LEADER
     else if \<not> is_voter (co_membership c) (co_self_id c) then NOT_VOTER
     else OK)"

definition has_committed_current_term_entry :: "RaftCore \<Rightarrow> bool" where
  "has_committed_current_term_entry c =
    apply_has_committed_current_term_entry (co_log c) (co_apply c) (co_term c)"

definition ensure_readable_leader :: "RaftCore \<Rightarrow> Status" where
  "ensure_readable_leader c =
    (if fail (ensure_ready c) then ensure_ready c
     else if \<not> is_leader (co_election c) then NOT_LEADER
     else if \<not> has_committed_current_term_entry c then READ_INDEX_NOT_READY
     else OK)"

definition record_hard_state :: "RaftCore \<Rightarrow> RaftEffects \<Rightarrow> RaftEffects" where
  "record_hard_state c eff = eff\<lparr>ef_hard_state := Some (hard_state (co_election c))\<rparr>"

definition extract_committed_entries :: "RaftCore \<Rightarrow> nat \<Rightarrow> nat \<Rightarrow> LogEntry list \<times> bool" where
  "extract_committed_entries c budget_entries budget_bytes =
    apply_extract_committed_entries (co_log c) (co_apply c) budget_entries budget_bytes"

definition core_find_request :: "RaftCore \<Rightarrow> string \<Rightarrow> LogEntry option" where
  "core_find_request c rid = find_request (co_log c) rid"

definition advance_last_applied :: "RaftCore \<Rightarrow> LogIndex \<Rightarrow> RaftCore" where
  "advance_last_applied c i = c\<lparr>co_apply := apply_advance_last_applied (co_apply c) i\<rparr>"

definition step_down_if_become_non_member :: "RaftCore \<Rightarrow> RaftCore" where
  "step_down_if_become_non_member c =
    (if member_type (co_membership c) (co_self_id c) \<noteq> NON_MEMBER then c
     else
       let c1 = clear_recent_leader_active c;
           c2 = (if \<not> is_follower (co_election c1)
                 then c1\<lparr>co_election := fst (become_follower (co_election c1) (co_term c1))\<rparr> else c1)
       in c2\<lparr>co_heartbeat_tick := trigger_stop (co_heartbeat_tick c2),
             co_election_tick := trigger_stop (co_election_tick c2)\<rparr>)"

definition apply_config_entry :: "RaftCore \<Rightarrow> LogEntry \<Rightarrow> RaftCore \<times> Status" where
  "apply_config_entry c e =
    (let change = (case le_op_type e of
           ADD_LEARNER \<Rightarrow> Some (add_learner (co_membership c) (le_config_member e))
         | PROMOTE_VOTER \<Rightarrow> Some (promote_voter (co_membership c) (le_config_replica_id e))
         | REMOVE_MEMBER \<Rightarrow> Some (remove_member (co_membership c) (le_config_replica_id e))
         | _ \<Rightarrow> None)
     in case change of
          None \<Rightarrow> (c, INVALID_ARGUMENT)
        | Some (s, ms) \<Rightarrow>
            if fail s then (c, s)
            else (advance_last_applied (step_down_if_become_non_member (c\<lparr>co_membership := ms\<rparr>)) (le_index e), OK))"

section \<open>Replication by the leader\<close>

definition core_broadcast_append_entries :: "RaftCore \<Rightarrow> RaftEffects \<Rightarrow> RaftCore \<times> RaftEffects" where
  "core_broadcast_append_entries c eff =
    (if fail (ensure_ready c) then (c, eff)
     else if \<not> is_leader (co_election c) then (c, eff)
     else
       let (rp, eff') = replication_broadcast (co_replication c) (co_membership c) (co_log c) (co_apply c)
             (co_term c) eff
       in (c\<lparr>co_replication := rp\<rparr>, eff'))"

definition core_append_new_entry :: "RaftCore \<Rightarrow> ProposeParam \<Rightarrow> RaftEffects \<Rightarrow> RaftCore \<times> RaftEffects \<times> LogIndex" where
  "core_append_new_entry c param eff =
    (let (l, i) = log_append_new_entry (co_log c) (co_term c) param;
         eff' = (case entry_at l i of
                   None \<Rightarrow> eff
                 | Some e \<Rightarrow> eff\<lparr>ef_entries_to_append := ef_entries_to_append eff @ [e]\<rparr>)
     in (c\<lparr>co_log := l\<rparr>, eff', i))"

definition validate_proposal :: "ProposeParam \<Rightarrow> Status" where
  "validate_proposal param =
    (case param of
       WriteProposal op k v rid exp \<Rightarrow> if \<not> is_kv_write_op op then INVALID_ARGUMENT else OK
     | NoopProposal \<Rightarrow> OK
     | ConfigChangeProposal op m r \<Rightarrow> if \<not> is_config_change_op op then INVALID_ARGUMENT else OK)"

definition try_update_commit_index :: "RaftCore \<Rightarrow> RaftEffects \<Rightarrow> RaftCore \<times> RaftEffects" where
  "try_update_commit_index c eff =
    (if fail (ensure_ready c) then (c, eff)
     else
       let (a, res) = try_advance_commit_index (co_replication c) (co_membership c) (co_log c) (co_apply c) (co_term c);
           c1 = c\<lparr>co_apply := a\<rparr>
       in if car_advanced res
          then
            let committed_remove_member =
              list_ex (\<lambda>i. case entry_at (co_log c1) i of None \<Rightarrow> False | Some e \<Rightarrow> le_op_type e = REMOVE_MEMBER)
                [car_old_commit_index res + 1..car_new_commit_index res]
            in if committed_remove_member then core_broadcast_append_entries c1 eff else (c1, eff)
          else (c1, eff))"

definition propose :: "RaftCore \<Rightarrow> ProposeParam \<Rightarrow> RaftEffects \<Rightarrow> RaftCore \<times> RaftEffects \<times> Status \<times> LogIndex" where
  "propose c param eff =
    (if fail (ensure_writable_leader c) then (c, eff, ensure_writable_leader c, -1)
     else if fail (validate_proposal param) then (c, eff, validate_proposal param, -1)
     else
       let (c1, eff1, i) = core_append_new_entry c param eff;
           (c2, eff2) = core_broadcast_append_entries c1 eff1;
           (c3, eff3) = (if is_leader (co_election c2) \<and> has_quorum (co_membership c2) 1
                         then try_update_commit_index c2 eff2 else (c2, eff2))
       in (c3, eff3, OK, i))"

fun propose_batch_loop :: "RaftCore \<Rightarrow> ProposeParam list \<Rightarrow> RaftEffects
    \<Rightarrow> RaftCore \<times> RaftEffects \<times> (Status \<times> LogIndex) list \<times> bool" where
  "propose_batch_loop c [] eff = (c, eff, [], False)"
| "propose_batch_loop c (param # params) eff =
    (if fail (validate_proposal param) then
       (let (c1, eff1, rs, flag) = propose_batch_loop c params eff
        in (c1, eff1, (validate_proposal param, -1) # rs, flag))
     else
       (let (c1, eff1, i) = core_append_new_entry c param eff;
            (c2, eff2, rs, flag) = propose_batch_loop c1 params eff1
        in (c2, eff2, (OK, i) # rs, True)))"

definition propose_batch :: "RaftCore \<Rightarrow> ProposeParam list \<Rightarrow> RaftEffects
    \<Rightarrow> RaftCore \<times> RaftEffects \<times> (Status \<times> LogIndex) list" where
  "propose_batch c params eff =
    (if params = [] then (c, eff, [])
     else if fail (ensure_writable_leader c)
     then (c, eff, replicate (length params) (ensure_writable_leader c, -1))
     else
       let (c1, eff1, rs, append_flag) = propose_batch_loop c params eff
       in if append_flag then
            let (c2, eff2) = core_broadcast_append_entries c1 eff1;
                (c3, eff3) = (if is_leader (co_election c2) \<and> has_quorum (co_membership c2) 1
                              then try_update_commit_index c2 eff2 else (c2, eff2))
            in (c3, eff3, rs)
          else (c1, eff1, rs))"

section \<open>Elections\<close>

definition core_become_follower :: "RaftCore \<Rightarrow> Term \<Rightarrow> RaftEffects \<Rightarrow> RaftCore \<times> RaftEffects" where
  "core_become_follower c later_term eff =
    (let c1 = clear_recent_leader_active c;
         c2 = c1\<lparr>co_heartbeat_tick := trigger_stop (co_heartbeat_tick c1),
                 co_election_tick := fst (trigger_reset (co_election_tick c1))\<rparr>;
         (e, changed) = become_follower (co_election c2) later_term;
         c3 = c2\<lparr>co_election := e\<rparr>
     in (c3, if changed then record_hard_state c3 eff else eff))"

definition core_become_leader :: "RaftCore \<Rightarrow> RaftEffects \<Rightarrow> RaftCore \<times> RaftEffects" where
  "core_become_leader c eff =
    (if fail (ensure_ready c) then (c, eff)
     else if \<not> is_voter (co_membership c) (co_self_id c) then (c, eff)
     else
       let c1 = clear_recent_leader_active c;
           c2 = c1\<lparr>co_election := become_leader (co_election c1),
                   co_election_tick := trigger_stop (co_election_tick c1),
                   co_heartbeat_tick := fst (trigger_reset (co_heartbeat_tick c1)),
                   co_replication := reset_for_leader (co_replication c1) (co_membership c1) (co_log c1)\<rparr>;
           (c3, eff3, i) = core_append_new_entry c2 NoopProposal eff;
           (c4, eff4) = core_broadcast_append_entries c3 eff3
       in if has_quorum (co_membership c4) 1 then try_update_commit_index c4 eff4 else (c4, eff4))"

definition request_vote_param :: "RaftCore \<Rightarrow> PeerMember \<Rightarrow> Term \<Rightarrow> RequestVoteParam" where
  "request_vote_param c p t = \<lparr>rv_from = co_self_id c, rv_to = pm_replica_id p, rv_term = t,
    rv_last_log_index = last_log_index (co_log c), rv_last_log_term = last_log_term (co_log c)\<rparr>"

definition send_request_vote_to :: "RaftCore \<Rightarrow> PeerMember \<Rightarrow> RaftEffects \<Rightarrow> RaftEffects" where
  "send_request_vote_to c p eff = push_message (RequestVoteMsg p (request_vote_param c p (co_term c))) eff"

definition send_pre_vote_to :: "RaftCore \<Rightarrow> PeerMember \<Rightarrow> RaftEffects \<Rightarrow> RaftEffects" where
  "send_pre_vote_to c p eff =
    push_message (PreVoteMsg p (request_vote_param c p (pre_vote_term (co_election c)))) eff"

fun send_to_voters :: "(PeerMember \<Rightarrow> RaftEffects \<Rightarrow> RaftEffects) \<Rightarrow> ReplicaID \<Rightarrow> PeerMember list \<Rightarrow> RaftEffects \<Rightarrow> RaftEffects" where
  "send_to_voters send self [] eff = eff"
| "send_to_voters send self (p # ps) eff =
    (if pm_replica_id p = self then send_to_voters send self ps eff
     else send_to_voters send self ps (send p eff))"

definition core_become_candidate :: "RaftCore \<Rightarrow> RaftEffects \<Rightarrow> RaftCore \<times> RaftEffects" where
  "core_become_candidate c eff =
    (if fail (ensure_ready c) then (c, eff)
     else if \<not> is_voter (co_membership c) (co_self_id c) then (c, eff)
     else
       let c1 = clear_recent_leader_active c;
           c2 = c1\<lparr>co_election := become_candidate (co_election c1)\<rparr>;
           eff2 = record_hard_state c2 eff;
           c3 = c2\<lparr>co_heartbeat_tick := trigger_stop (co_heartbeat_tick c2),
                   co_election_tick := fst (trigger_reset (co_election_tick c2))\<rparr>
       in if has_quorum (co_membership c3) (granted_vote_count (co_election c3))
          then core_become_leader c3 eff2
          else (c3, send_to_voters (send_request_vote_to c3) (co_self_id c3) (voters (co_membership c3)) eff2))"

definition core_become_pre_candidate :: "RaftCore \<Rightarrow> RaftEffects \<Rightarrow> RaftCore \<times> RaftEffects" where
  "core_become_pre_candidate c eff =
    (if fail (ensure_ready c) then (c, eff)
     else if \<not> is_voter (co_membership c) (co_self_id c) then (c, eff)
     else if is_leader (co_election c) then (c, eff)
     else
       let c1 = clear_recent_leader_active c;
           c2 = c1\<lparr>co_election := become_pre_candidate (co_election c1),
                   co_heartbeat_tick := trigger_stop (co_heartbeat_tick c1),
                   co_election_tick := fst (trigger_reset (co_election_tick c1))\<rparr>
       in if has_quorum (co_membership c2) (pre_vote_granted_count (co_election c2))
          then core_become_candidate c2 eff
          else (c2, send_to_voters (send_pre_vote_to c2) (co_self_id c2) (voters (co_membership c2)) eff))"

definition ensure_vote_preconditions :: "RaftCore \<Rightarrow> RequestVoteParam \<Rightarrow> Status" where
  "ensure_vote_preconditions c param =
    (if \<not> is_voter (co_membership c) (co_self_id c) then ERROR
     else if \<not> is_voter (co_membership c) (rv_from param) then ERROR
     else ensure_ready c)"

definition handle_pre_vote :: "RaftCore \<Rightarrow> RequestVoteParam \<Rightarrow> RequestVoteResult" where
  "handle_pre_vote c param =
    (let rejected = \<lparr>rvr_term = co_term c, rvr_vote_granted = False\<rparr> in
     if rv_term param < co_term c + 1 then rejected
     else if fail (ensure_vote_preconditions c param) then rejected
     else if is_leader (co_election c) then rejected
     else if co_recent_leader_active c then rejected
     else if later_than_other c (rv_last_log_term param) (rv_last_log_index param) then rejected
     else rejected\<lparr>rvr_vote_granted := True\<rparr>)"

definition handle_pre_vote_response ::
    "RaftCore \<Rightarrow> ReplicaID \<Rightarrow> RequestVoteResult \<Rightarrow> RaftEffects \<Rightarrow> RaftCore \<times> RaftEffects" where
  "handle_pre_vote_response c from result eff =
    (if fail (ensure_ready c) then (c, eff)
     else if \<not> is_pre_candidate (co_election c) then (c, eff)
     else if rvr_term result > co_term c then core_become_follower c (rvr_term result) eff
     else if rvr_term result < co_term c then (c, eff)
     else if \<not> rvr_vote_granted result then (c, eff)
     else if \<not> is_voter (co_membership c) from then (c, eff)
     else
       let (e, new) = record_pre_vote_granted_from (co_election c) from;
           c1 = c\<lparr>co_election := e\<rparr>
       in if \<not> new then (c1, eff)
          else if has_quorum (co_membership c1) (pre_vote_granted_count (co_election c1))
          then core_become_candidate c1 eff
          else (c1, eff))"

definition handle_request_vote ::
    "RaftCore \<Rightarrow> RequestVoteParam \<Rightarrow> RaftEffects \<Rightarrow> RaftCore \<times> RaftEffects \<times> RequestVoteResult" where
  "handle_request_vote c param eff =
    (if fail (ensure_vote_preconditions c param) \<or> rv_term param < co_term c
     then (c, eff, \<lparr>rvr_term = co_term c, rvr_vote_granted = False\<rparr>)
     else
       let (c1, eff1) = (if rv_term param > co_term c then core_become_follower c (rv_term param) eff else (c, eff));
           rejected = \<lparr>rvr_term = co_term c1, rvr_vote_granted = False\<rparr>
       in if later_than_other c1 (rv_last_log_term param) (rv_last_log_index param) then (c1, eff1, rejected)
          else
            let (e, granted) = grant_vote_to (co_election c1) (rv_from param);
                c2 = c1\<lparr>co_election := e\<rparr>
            in if granted
               then (c2\<lparr>co_election_tick := fst (trigger_clear (co_election_tick c2))\<rparr>, record_hard_state c2 eff1,
                     rejected\<lparr>rvr_vote_granted := True\<rparr>)
               else (c2, eff1, rejected))"

definition handle_vote_response ::
    "RaftCore \<Rightarrow> ReplicaID \<Rightarrow> RequestVoteResult \<Rightarrow> RaftEffects \<Rightarrow> RaftCore \<times> RaftEffects" where
  "handle_vote_response c from result eff =
    (if fail (ensure_ready c) then (c, eff)
     else if \<not> is_candidate (co_election c) then (c, eff)
     else if rvr_term result > co_term c then core_become_follower c (rvr_term result) eff
     else if rvr_term result < co_term c then (c, eff)
     else if \<not> rvr_vote_granted result then (c, eff)
     else if \<not> is_voter (co_membership c) from then (c, eff)
     else
       let (e, new) = record_vote_granted_from (co_election c) from;
           c1 = c\<lparr>co_election := e\<rparr>
       in if \<not> new then (c1, eff)
          else if has_quorum (co_membership c1) (granted_vote_count (co_election c1))
          then core_become_leader c1 eff
          else (c1, eff))"

section \<open>Log replication\<close>

definition finish_recovering :: "RaftCore \<Rightarrow> RaftCore" where
  "finish_recovering c =
    (if \<not> co_recovering c then c
     else c\<lparr>co_recovering := False, co_election_tick := fst (trigger_reset (co_election_tick c))\<rparr>)"

definition handle_append_entries ::
    "RaftCore \<Rightarrow> AppendEntriesParam \<Rightarrow> RaftEffects \<Rightarrow> RaftCore \<times> RaftEffects \<times> AppendEntriesResult" where
  "handle_append_entries c param eff =
    (let rejected = \<lparr>aer_term = co_term c, aer_success = False, aer_last_log_index = last_log_index (co_log c)\<rparr> in
     if \<not> contains_member (co_membership c) (ae_from param) then (c, eff, rejected)
     else if ae_term param < co_term c then (c, eff, rejected)
     else
       let (c1, eff1) = (if ae_term param > co_term c \<or> \<not> is_follower (co_election c)
                         then core_become_follower c (ae_term param) eff else (c, eff));
           rejected = rejected\<lparr>aer_term := co_term c1\<rparr>;
           c2 = mark_recent_leader_active (c1\<lparr>co_election_tick := fst (trigger_clear (co_election_tick c1))\<rparr>)
       in if ae_prev_log_index param > 0
             \<and> (ae_prev_log_index param < rl_snapshot_index (co_log c2)
                \<or> term_at (co_log c2) (ae_prev_log_index param) \<noteq> ae_prev_log_term param)
          then (c2, eff1, rejected)
          else
            let (append_status, l, r) =
                  (if ae_entries param = [] then (OK, co_log c2, no_append_result)
                   else append_entries_from_leader (co_log c2) (ae_entries param))
            in if fail append_status then (c2, eff1, rejected)
               else
                 let eff2 = (if ae_entries param = [] then eff1
                             else case ar_entries_to_rewrite r of
                               Some es \<Rightarrow> eff1\<lparr>ef_entries_to_rewrite := Some es\<rparr>
                             | None \<Rightarrow> eff1\<lparr>ef_entries_to_append := ar_entries_to_append r\<rparr>);
                     c3 = c2\<lparr>co_log := l,
                             co_apply := advance_commit_index_from_leader l (co_apply c2) (ae_leader_commit param)\<rparr>;
                     c4 = finish_recovering c3
                 in (c4, eff2, rejected\<lparr>aer_success := True, aer_term := co_term c4\<rparr>))"

definition first_unapplied_config_entry :: "RaftCore \<Rightarrow> LogEntry option" where
  "first_unapplied_config_entry c =
    find (\<lambda>e. is_config_change_op (le_op_type e))
      (List.map_filter (entry_at (co_log c)) [co_applied c + 1..last_log_index (co_log c)])"

definition has_unapplied_config_entry :: "RaftCore \<Rightarrow> bool" where
  "has_unapplied_config_entry c \<longleftrightarrow> first_unapplied_config_entry c \<noteq> None"

definition ensure_add_learner :: "RaftCore \<Rightarrow> PeerMember \<Rightarrow> RaftEffects \<Rightarrow> RaftCore \<times> RaftEffects \<times> Status" where
  "ensure_add_learner c p eff =
    (if fail (ensure_writable_leader c) then (c, eff, ensure_writable_leader c)
     else if contains_member (co_membership c) (pm_replica_id p) then (c, eff, OK)
     else case first_unapplied_config_entry c of
       Some e \<Rightarrow>
         if le_config_member e = p \<and> le_op_type e = ADD_LEARNER then (c, eff, OK) else (c, eff, RETRY_ERROR)
     | None \<Rightarrow> (let (c1, eff1, s, i) = propose c (propose_add_learner p) eff in (c1, eff1, s)))"

definition ensure_remove_member :: "RaftCore \<Rightarrow> ReplicaID \<Rightarrow> RaftEffects \<Rightarrow> RaftCore \<times> RaftEffects \<times> Status" where
  "ensure_remove_member c r eff =
    (if fail (ensure_writable_leader c) then (c, eff, ensure_writable_leader c)
     else if \<not> contains_member (co_membership c) r then (c, eff, OK)
     else case first_unapplied_config_entry c of
       Some e \<Rightarrow>
         if le_config_replica_id e = r \<and> le_op_type e = REMOVE_MEMBER then (c, eff, OK) else (c, eff, RETRY_ERROR)
     | None \<Rightarrow> (let (c1, eff1, s, i) = propose c (propose_remove_member r) eff in (c1, eff1, s)))"

definition maybe_promote_ready_learner :: "RaftCore \<Rightarrow> RaftEffects \<Rightarrow> RaftCore \<times> RaftEffects" where
  "maybe_promote_ready_learner c eff =
    (if fail (ensure_writable_leader c) then (c, eff)
     else if has_unapplied_config_entry c then (c, eff)
     else case find (\<lambda>p. match_index_at_least (co_replication c) (pm_replica_id p) (last_log_index (co_log c)))
                 (learners (co_membership c)) of
       None \<Rightarrow> (c, eff)
     | Some p \<Rightarrow> (let (c1, eff1, s, i) = propose c (propose_promote_voter (pm_replica_id p)) eff in (c1, eff1)))"

definition handle_append_response :: "RaftCore \<Rightarrow> ReplicaID \<Rightarrow> AppendEntriesParam \<Rightarrow> AppendEntriesResult \<Rightarrow> RaftEffects
    \<Rightarrow> RaftCore \<times> RaftEffects \<times> Status" where
  "handle_append_response c from sent result eff =
    (if fail (ensure_ready c) then (c, eff, ensure_ready c)
     else if aer_term result > co_term c then
       (let (c1, eff1) = core_become_follower c (aer_term result) eff in (c1, eff1, NOT_LEADER))
     else if ae_term sent \<noteq> co_term c then (c, eff, OK)
     else if \<not> is_leader (co_election c) then (c, eff, NOT_LEADER)
     else if is_stale_append_response (co_replication c) from sent then (c, eff, OK)
     else if aer_success result then
       (let c1 = c\<lparr>co_replication := handle_append_ok (co_replication c) from (ae_prev_log_index sent)
                     (length (ae_entries sent))\<rparr>;
            (c2, eff2) = try_update_commit_index c1 eff;
            (c3, eff3) = maybe_promote_ready_learner c2 eff2
        in (c3, eff3, OK))
     else (c\<lparr>co_replication := handle_append_failed (co_replication c) (co_log c) from (aer_last_log_index result)\<rparr>,
           eff, OK))"

definition core_tick :: "RaftCore \<Rightarrow> RaftEffects \<Rightarrow> RaftCore \<times> RaftEffects" where
  "core_tick c eff =
    (if fail (ensure_ready c) then (c, eff)
     else if is_leader (co_election c) then
       (let (t, fired) = trigger_tick (co_heartbeat_tick c);
            c1 = c\<lparr>co_heartbeat_tick := t\<rparr>;
            (c2, eff2) = (if fired then core_broadcast_append_entries c1 eff else (c1, eff))
        in maybe_promote_ready_learner c2 eff2)
     else
       (let (t, fired) = trigger_tick (co_election_tick c);
            c1 = c\<lparr>co_election_tick := t\<rparr>
        in if fired then core_become_pre_candidate c1 eff else (c1, eff)))"

section \<open>Snapshots\<close>

definition truncate_log :: "RaftCore \<Rightarrow> LogIndex \<Rightarrow> RaftCore \<times> Status" where
  "truncate_log c i =
    (if i > co_applied c then (c, ERROR)
     else let (s, l) = log_truncate (co_log c) i in (c\<lparr>co_log := l\<rparr>, s))"

definition install_snapshot_into_log :: "RaftCore \<Rightarrow> SnapshotHeader \<Rightarrow> RaftCore \<times> LogEntry list" where
  "install_snapshot_into_log c header =
    (let (l, retained) = log_install_snapshot (co_log c) (sh_apply_index header) (sh_apply_term header);
         c1 = c\<lparr>co_log := l, co_apply := apply_install_snapshot (co_apply c) (sh_apply_index header)\<rparr>;
         c2 = (if sh_members header \<noteq> [] then c1\<lparr>co_membership := sh_members header\<rparr> else c1)
     in (finish_recovering c2, retained))"

definition core_install_snapshot :: "RaftCore \<Rightarrow> SnapshotHeader \<Rightarrow> RaftEffects \<Rightarrow> RaftCore \<times> RaftEffects" where
  "core_install_snapshot c header eff =
    (let (c1, retained) = install_snapshot_into_log c header
     in (c1, eff\<lparr>ef_entries_to_rewrite := Some retained\<rparr>))"

definition handle_install_snapshot_response :: "RaftCore \<Rightarrow> ReplicaID \<Rightarrow> InstallSnapshotParam \<Rightarrow> InstallSnapshotResult
    \<Rightarrow> RaftEffects \<Rightarrow> RaftCore \<times> RaftEffects" where
  "handle_install_snapshot_response c from sent result eff =
    (if fail (ensure_ready c) then (c, eff)
     else if isr_term result > co_term c then core_become_follower c (isr_term result) eff
     else if \<not> is_leader (co_election c) then (c, eff)
     else if is_term sent \<noteq> co_term c then (c, eff)
     else
       let rp = clear_snapshot_inflight (co_replication c) from (is_snapshot_index sent) in
       if ok (isr_status result)
       then (c\<lparr>co_replication := update_snapshot_watermark rp from
                 (max (isr_snapshot_watermark result) (is_snapshot_index sent))\<rparr>, eff)
       else (c\<lparr>co_replication := rp\<rparr>, eff))"

definition handle_install_snapshot_send_failed :: "RaftCore \<Rightarrow> ReplicaID \<Rightarrow> InstallSnapshotParam \<Rightarrow> RaftCore" where
  "handle_install_snapshot_send_failed c from sent =
    (if fail (ensure_ready c) then c
     else if \<not> is_leader (co_election c) then c
     else if is_term sent \<noteq> co_term c then c
     else c\<lparr>co_replication := clear_snapshot_inflight (co_replication c) from (is_snapshot_index sent)\<rparr>)"

text \<open>The last component is the result parameter \<^verbatim>\<open>watermark_out\<close>.\<close>

definition prepare_install_snapshot ::
    "RaftCore \<Rightarrow> InstallSnapshotParam \<Rightarrow> RaftEffects \<Rightarrow> RaftCore \<times> RaftEffects \<times> Status \<times> LogIndex" where
  "prepare_install_snapshot c param eff =
    (if \<not> contains_member (co_membership c) (is_from param) then (c, eff, INVALID_ARGUMENT, 0)
     else if is_term param < co_term c then (c, eff, ERROR, 0)
     else
       let (c1, eff1) = (if is_term param > co_term c \<or> \<not> is_follower (co_election c)
                         then core_become_follower c (is_term param) eff else (c, eff));
           c2 = mark_recent_leader_active (c1\<lparr>co_election_tick := fst (trigger_clear (co_election_tick c1))\<rparr>)
       in if is_snapshot_index param \<le> co_commit c2 then (c2, eff1, OK, co_commit c2)
          else if \<not> co_recovering c2 \<and> is_snapshot_index param \<le> last_log_index (co_log c2)
               \<and> term_at (co_log c2) (is_snapshot_index param) = is_snapshot_term param
          then (c2, eff1, OK, is_snapshot_index param)
          else (c2, eff1, OK, 0))"

section \<open>Recovery\<close>

definition update_raft_meta :: "RaftCore \<Rightarrow> RaftMeta \<Rightarrow> RaftCore" where
  "update_raft_meta c m = c\<lparr>co_election := update_meta (co_election c) m\<rparr>"

definition update_log_entries :: "RaftCore \<Rightarrow> LogEntry list \<Rightarrow> RaftCore" where
  "update_log_entries c es = c\<lparr>co_log := update_entries (co_log c) es\<rparr>"

definition update_membership :: "RaftCore \<Rightarrow> RaftMember list \<Rightarrow> RaftCore" where
  "update_membership c ms = c\<lparr>co_membership := ms\<rparr>"

definition enter_recovering :: "RaftCore \<Rightarrow> RaftCore" where
  "enter_recovering c =
    (let c1 = clear_recent_leader_active (c\<lparr>co_recovering := True\<rparr>)
     in c1\<lparr>co_election := fst (become_follower (co_election c1) (co_term c1)),
           co_election_tick := trigger_stop (co_election_tick c1),
           co_heartbeat_tick := trigger_stop (co_heartbeat_tick c1)\<rparr>)"

section \<open>Linearizable reads\<close>

fun read_quorum_messages :: "RaftCore \<Rightarrow> Term \<Rightarrow> nat \<Rightarrow> RaftMember list \<Rightarrow> RaftEffects \<Rightarrow> RaftEffects" where
  "read_quorum_messages c t seq [] eff = eff"
| "read_quorum_messages c t seq (m # ms) eff =
    (if \<not> is_raft_voter (rm_member_type m) then read_quorum_messages c t seq ms eff
     else if pm_replica_id (rm_peer m) = co_self_id c then read_quorum_messages c t seq ms eff
     else read_quorum_messages c t seq ms (push_message (AppendEntriesMsg (rm_peer m)
       \<lparr>ae_from = co_self_id c, ae_to = pm_replica_id (rm_peer m), ae_term = t, ae_entries = [],
        ae_prev_log_index = last_log_index (co_log c), ae_prev_log_term = last_log_term (co_log c),
        ae_leader_commit = co_commit c, ae_read_quorum_seq = seq\<rparr>) eff))"

record ReadQuorumCheck =
  rq_read_index :: LogIndex
  rq_read_term :: Term
  rq_voter_ids :: "ReplicaID list"

definition build_read_quorum_check ::
    "RaftCore \<Rightarrow> nat \<Rightarrow> RaftEffects \<Rightarrow> Status + (RaftEffects \<times> ReadQuorumCheck)" where
  "build_read_quorum_check c seq eff =
    (if fail (ensure_readable_leader c) then Inl (ensure_readable_leader c)
     else Inr (read_quorum_messages c (co_term c) seq (co_membership c) eff,
       \<lparr>rq_read_index = co_commit c, rq_read_term = co_term c,
        rq_voter_ids = map member_id (filter (\<lambda>m. is_raft_voter (rm_member_type m)) (co_membership c))\<rparr>))"

definition confirm_read_index :: "RaftCore \<Rightarrow> LogIndex \<Rightarrow> Term \<Rightarrow> Status" where
  "confirm_read_index c read_index read_term =
    (if fail (ensure_readable_leader c) then ensure_readable_leader c
     else if read_term \<noteq> co_term c then NOT_LEADER
     else if co_commit c < read_index then READ_INDEX_NOT_READY
     else OK)"

end
