(* ===== verification/Raft_Core_Inv.thy ===== *)
theory Raft_Core_Inv
  imports Raft_Core
begin

text \<open>
  The invariant of the Raft core and what its steps do to the persistent state.  \<^verbatim>\<open>core_wf\<close> is the
  well-formedness of a replica.  \<^verbatim>\<open>evolves\<close> relates the state and the collected effects before and
  after a step of the election and leader code: the term and the commit index only grow, a vote of a
  term is never taken back, every change of term or vote is recorded as a hard state to persist, and the
  log only grows by entries that are recorded for the write-ahead log.
\<close>

section \<open>Definitions\<close>

definition core_wf :: "RaftCore \<Rightarrow> bool" where
  "core_wf c \<longleftrightarrow>
     log_wf (co_log c) \<and> election_wf (co_election c) \<and> members_wf (co_membership c)
     \<and> apply_wf (co_log c) (co_apply c)
     \<and> el_self_id (co_election c) = co_self_id c \<and> rp_self_id (co_replication c) = co_self_id c
     \<and> trigger_wf K_RAFT_ELECTION_TIMEOUT_MIN_TICKS K_RAFT_ELECTION_TIMEOUT_MAX_TICKS (co_election_tick c)
     \<and> trigger_wf K_RAFT_HEARTBEAT_INTERVAL_TICKS K_RAFT_HEARTBEAT_INTERVAL_TICKS (co_heartbeat_tick c)
     \<and> (co_role c \<noteq> FOLLOWER \<longrightarrow> \<not> co_recovering c)
     \<and> (co_role c = LEADER \<longrightarrow> co_self_id c \<in> voter_ids (co_membership c))"

definition evolves :: "RaftCore \<Rightarrow> RaftEffects \<Rightarrow> RaftCore \<Rightarrow> RaftEffects \<Rightarrow> bool" where
  "evolves c eff c' eff' \<longleftrightarrow>
     co_self_id c' = co_self_id c \<and> co_membership c' = co_membership c \<and> co_recovering c' = co_recovering c
     \<and> co_term c \<le> co_term c' \<and> co_commit c \<le> co_commit c' \<and> co_applied c' = co_applied c
     \<and> (co_term c' = co_term c \<and> el_voted_for (co_election c) \<noteq> None
          \<longrightarrow> el_voted_for (co_election c') = el_voted_for (co_election c))
     \<and> (ef_hard_state eff' = ef_hard_state eff \<and> hard_state (co_election c') = hard_state (co_election c)
          \<or> ef_hard_state eff' = Some (hard_state (co_election c')))
     \<and> rl_snapshot_index (co_log c') = rl_snapshot_index (co_log c)
     \<and> rl_snapshot_term (co_log c') = rl_snapshot_term (co_log c)
     \<and> ef_entries_to_rewrite eff' = ef_entries_to_rewrite eff
     \<and> (\<exists>es. rl_log_entries (co_log c') = rl_log_entries (co_log c) @ es
          \<and> ef_entries_to_append eff' = ef_entries_to_append eff @ es)"

lemma core_wfD:
  assumes "core_wf c"
  shows "log_wf (co_log c)" "election_wf (co_election c)" "members_wf (co_membership c)"
    "apply_wf (co_log c) (co_apply c)" "el_self_id (co_election c) = co_self_id c"
    "rp_self_id (co_replication c) = co_self_id c"
    "trigger_wf K_RAFT_ELECTION_TIMEOUT_MIN_TICKS K_RAFT_ELECTION_TIMEOUT_MAX_TICKS (co_election_tick c)"
    "trigger_wf K_RAFT_HEARTBEAT_INTERVAL_TICKS K_RAFT_HEARTBEAT_INTERVAL_TICKS (co_heartbeat_tick c)"
    "co_role c \<noteq> FOLLOWER \<Longrightarrow> \<not> co_recovering c"
    "co_role c = LEADER \<Longrightarrow> co_self_id c \<in> voter_ids (co_membership c)"
  using assms by (simp_all add: core_wf_def)

lemma evolves_refl [simp, intro]: "evolves c eff c eff"
  by (simp add: evolves_def)

lemma evolvesD:
  assumes "evolves c eff c' eff'"
  shows "co_self_id c' = co_self_id c" "co_membership c' = co_membership c" "co_recovering c' = co_recovering c"
    "co_term c \<le> co_term c'" "co_commit c \<le> co_commit c'" "co_applied c' = co_applied c"
    "co_term c' = co_term c \<Longrightarrow> el_voted_for (co_election c) \<noteq> None \<Longrightarrow>
       el_voted_for (co_election c') = el_voted_for (co_election c)"
    "ef_hard_state eff' = ef_hard_state eff \<and> hard_state (co_election c') = hard_state (co_election c)
       \<or> ef_hard_state eff' = Some (hard_state (co_election c'))"
    "rl_snapshot_index (co_log c') = rl_snapshot_index (co_log c)"
    "rl_snapshot_term (co_log c') = rl_snapshot_term (co_log c)"
    "ef_entries_to_rewrite eff' = ef_entries_to_rewrite eff"
    "\<exists>es. rl_log_entries (co_log c') = rl_log_entries (co_log c) @ es
       \<and> ef_entries_to_append eff' = ef_entries_to_append eff @ es"
  using assms by (simp_all add: evolves_def)

lemma evolves_trans [trans]:
  assumes "evolves c eff c1 eff1" and "evolves c1 eff1 c2 eff2"
  shows "evolves c eff c2 eff2"
  unfolding evolves_def
proof (intro conjI)
  note D1 = evolvesD [OF assms(1)] and D2 = evolvesD [OF assms(2)]
  show "co_self_id c2 = co_self_id c" "co_membership c2 = co_membership c" "co_recovering c2 = co_recovering c"
      "co_applied c2 = co_applied c" "rl_snapshot_index (co_log c2) = rl_snapshot_index (co_log c)"
      "rl_snapshot_term (co_log c2) = rl_snapshot_term (co_log c)"
      "ef_entries_to_rewrite eff2 = ef_entries_to_rewrite eff"
    by (simp_all only: D1(1-3,6,9-11) D2(1-3,6,9-11))
  show "co_term c \<le> co_term c2" "co_commit c \<le> co_commit c2"
    using D1(4,5) D2(4,5) by (auto intro: order_trans)
  show "co_term c2 = co_term c \<and> el_voted_for (co_election c) \<noteq> None
      \<longrightarrow> el_voted_for (co_election c2) = el_voted_for (co_election c)"
    using D1(4,7) D2(4,7) by (metis order_antisym)
  show "ef_hard_state eff2 = ef_hard_state eff \<and> hard_state (co_election c2) = hard_state (co_election c)
      \<or> ef_hard_state eff2 = Some (hard_state (co_election c2))"
    using D1(8) D2(8) by metis
  show "\<exists>es. rl_log_entries (co_log c2) = rl_log_entries (co_log c) @ es
      \<and> ef_entries_to_append eff2 = ef_entries_to_append eff @ es"
    using D1(12) D2(12) by auto
qed

section \<open>The start\<close>

lemma new_RaftCore_wf:
  assumes "distinct (map pm_replica_id members)"
    and "\<forall>n. K_RAFT_ELECTION_TIMEOUT_MIN_TICKS \<le> timeout n \<and> timeout n \<le> K_RAFT_ELECTION_TIMEOUT_MAX_TICKS"
  shows "core_wf (new_RaftCore timeout self members)"
  using assms
  by (simp add: core_wf_def new_RaftCore_def reset_voters_wf new_TickTrigger_func_wf new_TickTrigger_wf
      K_RAFT_HEARTBEAT_INTERVAL_TICKS_def K_RAFT_ELECTION_TIMEOUT_MIN_TICKS_def)
     (simp add: new_RaftElection_def)

section \<open>Leader steps\<close>

lemma core_broadcast_evolves:
  assumes "core_wf c" and "core_broadcast_append_entries c eff = (c', eff')"
  shows "core_wf c'" "evolves c eff c' eff'" "co_election c' = co_election c" "co_log c' = co_log c"
    "co_apply c' = co_apply c"
proof -
  let ?b = "replication_broadcast (co_replication c) (co_membership c) (co_log c) (co_apply c) (co_term c) eff"
  have *: "c' = c \<and> eff' = eff \<or> c' = c\<lparr>co_replication := fst ?b\<rparr> \<and> eff' = snd ?b"
    using assms(2) by (auto simp: core_broadcast_append_entries_def case_prod_beta Let_def split: if_splits)
  show "core_wf c'"
    using * assms(1) by (elim disjE) (simp_all add: core_wf_def replication_broadcast_def)
  show "evolves c eff c' eff'"
    using * by (elim disjE) (simp_all add: evolves_def replication_broadcast_def)
  show "co_election c' = co_election c" "co_log c' = co_log c" "co_apply c' = co_apply c"
    using * by auto
qed

lemma core_append_new_entry_evolves:
  assumes "core_wf c" and "core_append_new_entry c param eff = (c', eff', i)"
  shows "core_wf c'" "evolves c eff c' eff'" "co_election c' = co_election c" "co_apply c' = co_apply c"
    "i = last_log_index (co_log c) + 1" "last_log_index (co_log c') = i"
    "entry_at (co_log c') i = Some (new_entry (co_term c) i param)"
proof -
  let ?i = "last_log_index (co_log c) + 1"
  let ?e = "new_entry (co_term c) ?i param"
  let ?l = "fst (log_append_new_entry (co_log c) (co_term c) param)"
  note wf = core_wfD(1) [OF assms(1)]
  have l: "log_wf ?l" "rl_log_entries ?l = rl_log_entries (co_log c) @ [?e]"
      "rl_snapshot_index ?l = rl_snapshot_index (co_log c)" "rl_snapshot_term ?l = rl_snapshot_term (co_log c)"
    using log_append_new_entry_wf [OF wf] by (simp_all add: log_append_new_entry_def Let_def)
  have i: "snd (log_append_new_entry (co_log c) (co_term c) param) = ?i"
    by (simp add: log_append_new_entry_def Let_def)
  have last: "last_log_index ?l = ?i"
    using last_log_index_wf [OF l(1)] last_log_index_wf [OF wf] l by simp
  have ent: "entry_at ?l ?i = Some ?e"
    using entry_at_mem [OF l(1), of ?e] l(2) by simp
  have eq: "c' = c\<lparr>co_log := ?l\<rparr>" "i = ?i"
      "eff' = eff\<lparr>ef_entries_to_append := ef_entries_to_append eff @ [?e]\<rparr>"
    using assms(2) ent i by (auto simp: core_append_new_entry_def case_prod_beta Let_def)
  have "apply_wf ?l (co_apply c)"
    using core_wfD(4) [OF assms(1)] last l by (simp add: apply_wf_def)
  then show "core_wf c'"
    using assms(1) l(1) by (simp add: eq core_wf_def)
  show "evolves c eff c' eff'"
    using l by (simp add: eq evolves_def)
  show "co_election c' = co_election c" "co_apply c' = co_apply c" "i = last_log_index (co_log c) + 1"
      "last_log_index (co_log c') = i" "entry_at (co_log c') i = Some (new_entry (co_term c) i param)"
    using last ent by (simp_all add: eq)
qed

lemma try_update_commit_index_evolves:
  assumes "core_wf c" and "try_update_commit_index c eff = (c', eff')"
  shows "core_wf c'" "evolves c eff c' eff'" "co_election c' = co_election c" "co_log c' = co_log c"
proof -
  define a where "a = commit_loop (co_replication c) (co_membership c) (co_log c) (co_term c)
    [co_commit c + 1..last_log_index (co_log c)] (co_apply c)"
  define c1 where "c1 = c\<lparr>co_apply := a\<rparr>"
  have *: "c' = c \<and> eff' = eff \<or> c' = c1 \<and> eff' = eff \<or> core_broadcast_append_entries c1 eff = (c', eff')"
    using assms(2)
    by (simp add: try_update_commit_index_def try_advance_commit_index_def Let_def split: if_splits
        flip: a_def c1_def)
  have a: "co_commit c \<le> ap_commit_index a" "ap_commit_index a \<le> last_log_index (co_log c)"
      "ap_last_applied a = co_applied c"
    using commit_loop_upto(1) [OF a_def] core_wfD(4) [OF assms(1)] by (auto simp: apply_wf_def a_def)
  have wf: "core_wf c1" and ev: "evolves c eff c1 eff"
    using assms(1) a by (simp_all add: core_wf_def apply_wf_def evolves_def c1_def)
  have same: "co_election c1 = co_election c" "co_log c1 = co_log c"
    by (simp_all add: c1_def)
  note b = core_broadcast_evolves [OF wf, of eff c' eff']
  show "core_wf c'"
    using * assms(1) wf b(1) by blast
  show "evolves c eff c' eff'"
    using * ev evolves_trans [OF ev b(2)] by blast
  show "co_election c' = co_election c" "co_log c' = co_log c"
    using * b(3,4) same by auto
qed

lemma commit_if_alone_evolves:
  assumes "core_wf c" and "(if P then try_update_commit_index c eff else (c, eff)) = (c', eff')"
  shows "core_wf c'" "evolves c eff c' eff'" "co_election c' = co_election c" "co_log c' = co_log c"
  using assms try_update_commit_index_evolves [OF assms(1), of eff c' eff'] by (auto split: if_splits)

lemma propose_evolves:
  assumes "core_wf c" and "propose c param eff = (c', eff', s, i)"
  shows "core_wf c'" "evolves c eff c' eff'" "co_election c' = co_election c"
proof -
  have "core_wf c' \<and> evolves c eff c' eff' \<and> co_election c' = co_election c"
  proof (cases "fail (ensure_writable_leader c) \<or> fail (validate_proposal param)")
    case True
    then show ?thesis
      using assms by (auto simp: propose_def split: if_splits)
  next
    case False
    obtain c1 eff1 j where 1: "core_append_new_entry c param eff = (c1, eff1, j)"
      by (metis prod_cases3)
    obtain c2 eff2 where 2: "core_broadcast_append_entries c1 eff1 = (c2, eff2)"
      by fastforce
    have 3: "(if is_leader (co_election c2) \<and> has_quorum (co_membership c2) 1
        then try_update_commit_index c2 eff2 else (c2, eff2)) = (c', eff')"
      using assms(2) False 1 2 by (auto simp: propose_def Let_def split: if_splits prod.splits)
    note S1 = core_append_new_entry_evolves [OF assms(1) 1]
    note S2 = core_broadcast_evolves [OF S1(1) 2]
    note S3 = commit_if_alone_evolves [OF S2(1) 3]
    show ?thesis
      using S3(1,3) S2(3) S1(3) evolves_trans [OF S1(2) evolves_trans [OF S2(2) S3(2)]] by simp
  qed
  then show "core_wf c'" "evolves c eff c' eff'" "co_election c' = co_election c"
    by blast+
qed

lemma propose_batch_loop_evolves:
  assumes "core_wf c" and "propose_batch_loop c params eff = (c', eff', rs, flag)"
  shows "core_wf c' \<and> evolves c eff c' eff' \<and> co_election c' = co_election c"
  using assms
proof (induction params arbitrary: c eff c' eff' rs flag)
  case (Cons param params)
  show ?case
  proof (cases "fail (validate_proposal param)")
    case True
    obtain rs1 flag1 where "propose_batch_loop c params eff = (c', eff', rs1, flag1)"
      using Cons.prems(2) True by (auto split: prod.splits)
    then show ?thesis
      using Cons.IH [OF Cons.prems(1)] by blast
  next
    case False
    obtain c1 eff1 j where 1: "core_append_new_entry c param eff = (c1, eff1, j)"
      by (metis prod_cases3)
    obtain rs1 flag1 where 2: "propose_batch_loop c1 params eff1 = (c', eff', rs1, flag1)"
      using Cons.prems(2) False 1 by (auto split: prod.splits)
    note S1 = core_append_new_entry_evolves [OF Cons.prems(1) 1]
    show ?thesis
      using Cons.IH [OF S1(1) 2] S1(3) evolves_trans [OF S1(2)] by metis
  qed
qed simp

lemma propose_batch_evolves:
  assumes "core_wf c" and "propose_batch c params eff = (c', eff', rs)"
  shows "core_wf c'" "evolves c eff c' eff'" "co_election c' = co_election c"
proof -
  have "core_wf c' \<and> evolves c eff c' eff' \<and> co_election c' = co_election c"
  proof (cases "params = [] \<or> fail (ensure_writable_leader c)")
    case True
    then show ?thesis
      using assms by (auto simp: propose_batch_def split: if_splits)
  next
    case False
    obtain c1 eff1 rs1 flag where 1: "propose_batch_loop c params eff = (c1, eff1, rs1, flag)"
      by (metis prod_cases4)
    obtain c2 eff2 where 2: "core_broadcast_append_entries c1 eff1 = (c2, eff2)"
      by fastforce
    note S1 = propose_batch_loop_evolves [OF assms(1) 1]
    have wf1: "core_wf c1" and ev1: "evolves c eff c1 eff1" and el1: "co_election c1 = co_election c"
      using S1 by blast+
    note S2 = core_broadcast_evolves [OF wf1 2]
    have 3: "flag \<and> (if is_leader (co_election c2) \<and> has_quorum (co_membership c2) 1
        then try_update_commit_index c2 eff2 else (c2, eff2)) = (c', eff') \<or> c' = c1 \<and> eff' = eff1"
      using assms(2) False 1 2 by (auto simp: propose_batch_def Let_def split: if_splits prod.splits)
    then show ?thesis
    proof (elim disjE conjE)
      assume "(if is_leader (co_election c2) \<and> has_quorum (co_membership c2) 1
        then try_update_commit_index c2 eff2 else (c2, eff2)) = (c', eff')"
      note S3 = commit_if_alone_evolves [OF S2(1) this]
      show ?thesis
        using S3(1,3) S2(3) el1 evolves_trans [OF ev1 evolves_trans [OF S2(2) S3(2)]] by simp
    qed (use wf1 ev1 el1 in simp)
  qed
  then show "core_wf c'" "evolves c eff c' eff'" "co_election c' = co_election c"
    by blast+
qed

lemma maybe_promote_ready_learner_evolves:
  assumes "core_wf c" and "maybe_promote_ready_learner c eff = (c', eff')"
  shows "core_wf c'" "evolves c eff c' eff'" "co_election c' = co_election c"
proof -
  have "c' = c \<and> eff' = eff \<or> (\<exists>param s i. propose c param eff = (c', eff', s, i))"
    using assms(2) by (auto simp: maybe_promote_ready_learner_def split: if_splits option.splits prod.splits)
  then have "core_wf c' \<and> evolves c eff c' eff' \<and> co_election c' = co_election c"
    using assms(1) propose_evolves [OF assms(1)] by (elim disjE exE conjE) auto
  then show "core_wf c'" "evolves c eff c' eff'" "co_election c' = co_election c"
    by blast+
qed

lemma ensure_change_evolves:
  assumes "core_wf c"
    and "ensure_add_learner c p eff = (c', eff', s) \<or> ensure_remove_member c r eff = (c', eff', s)"
  shows "core_wf c'" "evolves c eff c' eff'" "co_election c' = co_election c"
proof -
  have "c' = c \<and> eff' = eff \<or> (\<exists>param s i. propose c param eff = (c', eff', s, i))"
    using assms(2) by (auto simp: ensure_add_learner_def ensure_remove_member_def
        split: if_splits option.splits prod.splits)
  then have "core_wf c' \<and> evolves c eff c' eff' \<and> co_election c' = co_election c"
    using assms(1) propose_evolves [OF assms(1)] by (elim disjE exE conjE) auto
  then show "core_wf c'" "evolves c eff c' eff'" "co_election c' = co_election c"
    by blast+
qed

section \<open>Election steps\<close>

lemma core_become_follower_evolves:
  assumes "core_wf c" and "co_term c \<le> t" and "core_become_follower c t eff = (c', eff')"
  shows "core_wf c'" "evolves c eff c' eff'" "co_role c' = FOLLOWER" "co_term c' = t" "co_log c' = co_log c"
    "co_apply c' = co_apply c" "ef_messages eff' = ef_messages eff"
    "el_voted_for (co_election c') = (if t = co_term c then el_voted_for (co_election c) else None)"
proof -
  define e where "e = fst (become_follower (co_election c) t)"
  have c': "c' = c\<lparr>co_recent_leader_active := False, co_heartbeat_tick := trigger_stop (co_heartbeat_tick c),
      co_election_tick := fst (trigger_reset (co_election_tick c)), co_election := e\<rparr>"
    and eff': "eff' = (if t = co_term c then eff else eff\<lparr>ef_hard_state := Some (hard_state e)\<rparr>)"
    using assms(3)
    by (auto simp: core_become_follower_def clear_recent_leader_active_def record_hard_state_def Let_def
        become_follower_def e_def)
  have e: "el_role e = FOLLOWER" "el_current_term e = t" "el_self_id e = el_self_id (co_election c)"
      "el_voted_for e = (if t = co_term c then el_voted_for (co_election c) else None)"
    by (auto simp: become_follower_def Let_def e_def)
  have wf: "election_wf e"
    unfolding e_def by (rule become_follower_wf [OF core_wfD(2) [OF assms(1)] assms(2)])
  show "core_wf c'"
    using assms(1,2) e trigger_reset_simps(2) [OF core_wfD(7) [OF assms(1)]] wf
    by (simp add: c' core_wf_def)
  show "evolves c eff c' eff'"
    using assms(2) e by (auto simp: c' eff' evolves_def hard_state_def)
  show "co_role c' = FOLLOWER" "co_term c' = t" "co_log c' = co_log c" "co_apply c' = co_apply c"
      "ef_messages eff' = ef_messages eff"
      "el_voted_for (co_election c') = (if t = co_term c then el_voted_for (co_election c) else None)"
    using e by (simp_all add: c' eff')
qed

lemma core_become_leader_evolves:
  assumes "core_wf c" and "co_role c = CANDIDATE" and "core_become_leader c eff = (c', eff')"
  shows "core_wf c'" "evolves c eff c' eff'" "hard_state (co_election c') = hard_state (co_election c)"
    "co_self_id c \<in> voter_ids (co_membership c) \<Longrightarrow> co_role c' = LEADER"
proof -
  define c1 where "c1 = c\<lparr>co_recent_leader_active := False, co_election := become_leader (co_election c),
      co_election_tick := trigger_stop (co_election_tick c),
      co_heartbeat_tick := fst (trigger_reset (co_heartbeat_tick c)),
      co_replication := reset_for_leader (co_replication c) (co_membership c) (co_log c)\<rparr>"
  have v: "is_voter (co_membership c) (co_self_id c) \<longleftrightarrow> co_self_id c \<in> voter_ids (co_membership c)"
    by (rule is_voter_iff [OF core_wfD(3) [OF assms(1)]])
  have ready: "\<not> co_recovering c"
    using core_wfD(9) [OF assms(1)] assms(2) by simp
  have "core_wf c' \<and> evolves c eff c' eff' \<and> hard_state (co_election c') = hard_state (co_election c)
    \<and> (co_self_id c \<in> voter_ids (co_membership c) \<longrightarrow> co_role c' = LEADER)"
  proof (cases "co_self_id c \<in> voter_ids (co_membership c)")
    case False
    then show ?thesis
      using assms(1,3) v by (auto simp: core_become_leader_def split: if_splits)
  next
    case True
    have wf1: "core_wf c1"
      using assms(1,2) True ready trigger_reset_simps(2) [OF core_wfD(8) [OF assms(1)]]
        become_leader_wf [OF core_wfD(2) [OF assms(1)] assms(2)]
      by (simp add: c1_def core_wf_def) (simp add: become_leader_def)
    have ev1: "evolves c eff c1 eff"
      by (simp add: c1_def evolves_def hard_state_def become_leader_def)
    have e1: "co_role c1 = LEADER" "hard_state (co_election c1) = hard_state (co_election c)"
      by (simp_all add: c1_def become_leader_def hard_state_def)
    obtain c2 eff2 i where 2: "core_append_new_entry c1 NoopProposal eff = (c2, eff2, i)"
      by (metis prod_cases3)
    obtain c3 eff3 where 3: "core_broadcast_append_entries c2 eff2 = (c3, eff3)"
      by fastforce
    have 4: "(if has_quorum (co_membership c3) 1 then try_update_commit_index c3 eff3 else (c3, eff3)) = (c', eff')"
      using assms(3) True v ready 2 3
      by (simp add: core_become_leader_def ensure_ready_def clear_recent_leader_active_def Let_def c1_def)
    note S2 = core_append_new_entry_evolves [OF wf1 2]
    note S3 = core_broadcast_evolves [OF S2(1) 3]
    note S4 = commit_if_alone_evolves [OF S3(1) 4]
    show ?thesis
      using S4(1,3) S3(3) S2(3) e1
        evolves_trans [OF ev1 evolves_trans [OF S2(2) evolves_trans [OF S3(2) S4(2)]]] by simp
  qed
  then show "core_wf c'" "evolves c eff c' eff'" "hard_state (co_election c') = hard_state (co_election c)"
      "co_self_id c \<in> voter_ids (co_membership c) \<Longrightarrow> co_role c' = LEADER"
    by blast+
qed

lemma send_to_voters_frame [simp]:
  assumes "\<And>p eff. ef_hard_state (send p eff) = ef_hard_state eff"
    "\<And>p eff. ef_entries_to_append (send p eff) = ef_entries_to_append eff"
    "\<And>p eff. ef_entries_to_rewrite (send p eff) = ef_entries_to_rewrite eff"
  shows "ef_hard_state (send_to_voters send self ps eff) = ef_hard_state eff"
    "ef_entries_to_append (send_to_voters send self ps eff) = ef_entries_to_append eff"
    "ef_entries_to_rewrite (send_to_voters send self ps eff) = ef_entries_to_rewrite eff"
  by (induction ps arbitrary: eff) (simp_all add: assms)

lemma send_frame [simp]:
  "ef_hard_state (send_request_vote_to c p eff) = ef_hard_state eff"
  "ef_entries_to_append (send_request_vote_to c p eff) = ef_entries_to_append eff"
  "ef_entries_to_rewrite (send_request_vote_to c p eff) = ef_entries_to_rewrite eff"
  "ef_hard_state (send_pre_vote_to c p eff) = ef_hard_state eff"
  "ef_entries_to_append (send_pre_vote_to c p eff) = ef_entries_to_append eff"
  "ef_entries_to_rewrite (send_pre_vote_to c p eff) = ef_entries_to_rewrite eff"
  by (simp_all add: send_request_vote_to_def send_pre_vote_to_def push_message_def)

lemma core_become_candidate_evolves:
  assumes "core_wf c" and "co_role c = PRE_CANDIDATE" and "core_become_candidate c eff = (c', eff')"
  shows "core_wf c'" "evolves c eff c' eff'"
proof -
  define c1 where "c1 = c\<lparr>co_recent_leader_active := False, co_election := become_candidate (co_election c),
      co_heartbeat_tick := trigger_stop (co_heartbeat_tick c),
      co_election_tick := fst (trigger_reset (co_election_tick c))\<rparr>"
  define eff1 where "eff1 = eff\<lparr>ef_hard_state := Some (hard_state (become_candidate (co_election c)))\<rparr>"
  have ready: "\<not> co_recovering c"
    using core_wfD(9) [OF assms(1)] assms(2) by simp
  have wf1: "core_wf c1"
    using assms(1) ready trigger_reset_simps(2) [OF core_wfD(7) [OF assms(1)]]
      become_candidate_wf [OF core_wfD(2) [OF assms(1)]]
    by (simp add: c1_def core_wf_def) (simp add: become_candidate_def)
  have ev1: "evolves c eff c1 eff1"
    by (simp add: c1_def eff1_def evolves_def become_candidate_def)
  have role1: "co_role c1 = CANDIDATE"
    by (simp add: c1_def become_candidate_def)
  have *: "c' = c \<and> eff' = eff \<or> core_become_leader c1 eff1 = (c', eff')
      \<or> c' = c1 \<and> eff' = send_to_voters (send_request_vote_to c1) (co_self_id c1) (voters (co_membership c1)) eff1"
    using assms(3) ready
    by (auto simp: core_become_candidate_def ensure_ready_def clear_recent_leader_active_def
        record_hard_state_def Let_def c1_def eff1_def split: if_splits)
  note L = core_become_leader_evolves [OF wf1 role1]
  have sent: "evolves c eff c1 (send_to_voters (send_request_vote_to c1) (co_self_id c1) (voters (co_membership c1)) eff1)"
    using ev1 by (simp add: evolves_def)
  show "core_wf c'"
    using * assms(1) wf1 L(1) by blast
  show "evolves c eff c' eff'"
    using * sent evolves_trans [OF ev1 L(2)] by blast
qed

lemma core_become_pre_candidate_evolves:
  assumes "core_wf c" and "core_become_pre_candidate c eff = (c', eff')"
  shows "core_wf c'" "evolves c eff c' eff'"
proof -
  define c1 where "c1 = c\<lparr>co_recent_leader_active := False, co_election := become_pre_candidate (co_election c),
      co_heartbeat_tick := trigger_stop (co_heartbeat_tick c),
      co_election_tick := fst (trigger_reset (co_election_tick c))\<rparr>"
  have *: "c' = c \<and> eff' = eff \<or> \<not> co_recovering c \<and> (core_become_candidate c1 eff = (c', eff')
      \<or> c' = c1 \<and> eff' = send_to_voters (send_pre_vote_to c1) (co_self_id c1) (voters (co_membership c1)) eff)"
    using assms(2)
    by (auto simp: core_become_pre_candidate_def ensure_ready_def clear_recent_leader_active_def fail_iff
        Let_def c1_def split: if_splits)
  have wf1: "core_wf c1" if "\<not> co_recovering c"
    using assms(1) that trigger_reset_simps(2) [OF core_wfD(7) [OF assms(1)]]
      become_pre_candidate_wf [OF core_wfD(2) [OF assms(1)]]
    by (simp add: c1_def core_wf_def) (simp add: become_pre_candidate_def)
  have ev1: "evolves c eff c1 eff"
    by (simp add: c1_def evolves_def become_pre_candidate_def hard_state_def)
  have role1: "co_role c1 = PRE_CANDIDATE"
    by (simp add: c1_def become_pre_candidate_def)
  note L = core_become_candidate_evolves [OF wf1 role1]
  have sent: "evolves c eff c1 (send_to_voters (send_pre_vote_to c1) (co_self_id c1) (voters (co_membership c1)) eff)"
    using ev1 by (simp add: evolves_def)
  show "core_wf c'"
    using * assms(1) wf1 L(1) by blast
  show "evolves c eff c' eff'"
    using * sent evolves_trans [OF ev1 L(2)] evolves_refl by blast
qed

section \<open>Handlers of votes and responses\<close>

lemma core_wf_update_election_tick:
  "core_wf c \<Longrightarrow> trigger_wf K_RAFT_ELECTION_TIMEOUT_MIN_TICKS K_RAFT_ELECTION_TIMEOUT_MAX_TICKS t \<Longrightarrow>
   core_wf (c\<lparr>co_election_tick := t\<rparr>)"
  by (simp add: core_wf_def)

lemma evolves_update_ticks [simp]:
  "evolves c eff (c1\<lparr>co_election_tick := t\<rparr>) eff1 = evolves c eff c1 eff1"
  "evolves c eff (c1\<lparr>co_heartbeat_tick := t\<rparr>) eff1 = evolves c eff c1 eff1"
  "evolves c eff (c1\<lparr>co_replication := rp\<rparr>) eff1 = evolves c eff c1 eff1"
  "evolves c eff (c1\<lparr>co_recent_leader_active := b\<rparr>) eff1 = evolves c eff c1 eff1"
  by (simp_all add: evolves_def)

lemma step_up_if_later_evolves:
  assumes "core_wf c" and "co_term c \<le> t"
    and "(if t > co_term c \<or> P then core_become_follower c t eff else (c, eff)) = (c', eff')"
  shows "core_wf c'" "evolves c eff c' eff'" "co_term c' = t" "co_log c' = co_log c" "co_apply c' = co_apply c"
    "ef_messages eff' = ef_messages eff" "P \<Longrightarrow> co_role c' = FOLLOWER" "t > co_term c \<Longrightarrow> co_role c' = FOLLOWER"
    "el_voted_for (co_election c') = (if t = co_term c then el_voted_for (co_election c) else None)"
    "\<not> P \<Longrightarrow> t = co_term c \<Longrightarrow> c' = c"
proof -
  have *: "core_become_follower c t eff = (c', eff') \<or> c' = c \<and> eff' = eff \<and> t = co_term c \<and> \<not> P"
    using assms(2,3) by (auto split: if_splits)
  note F = core_become_follower_evolves [OF assms(1,2), of eff c' eff']
  show "core_wf c'" "evolves c eff c' eff'" "co_term c' = t" "co_log c' = co_log c" "co_apply c' = co_apply c"
      "ef_messages eff' = ef_messages eff" "P \<Longrightarrow> co_role c' = FOLLOWER" "t > co_term c \<Longrightarrow> co_role c' = FOLLOWER"
      "el_voted_for (co_election c') = (if t = co_term c then el_voted_for (co_election c) else None)"
    using * F assms(1) by auto
  show "\<not> P \<Longrightarrow> t = co_term c \<Longrightarrow> c' = c"
    using assms(3) by simp
qed

lemma handle_request_vote_evolves:
  assumes "core_wf c" and "handle_request_vote c param eff = (c', eff', r)"
  shows "core_wf c'" "evolves c eff c' eff'" "co_log c' = co_log c" "rvr_term r = co_term c'"
    "rvr_vote_granted r \<Longrightarrow> el_voted_for (co_election c') = Some (rv_from param) \<and> co_term c' = rv_term param
       \<and> ef_hard_state eff' = Some (hard_state (co_election c'))
       \<and> co_self_id c \<in> voter_ids (co_membership c) \<and> rv_from param \<in> voter_ids (co_membership c)
       \<and> \<not> later_than_other c (rv_last_log_term param) (rv_last_log_index param)"
proof -
  have "core_wf c' \<and> evolves c eff c' eff' \<and> co_log c' = co_log c \<and> rvr_term r = co_term c'
    \<and> (rvr_vote_granted r \<longrightarrow> el_voted_for (co_election c') = Some (rv_from param) \<and> co_term c' = rv_term param
       \<and> ef_hard_state eff' = Some (hard_state (co_election c'))
       \<and> co_self_id c \<in> voter_ids (co_membership c) \<and> rv_from param \<in> voter_ids (co_membership c)
       \<and> \<not> later_than_other c (rv_last_log_term param) (rv_last_log_index param))"
  proof (cases "fail (ensure_vote_preconditions c param) \<or> rv_term param < co_term c")
    case True
    then show ?thesis
      using assms by (auto simp: handle_request_vote_def)
  next
    case False
    obtain c1 eff1 where 1: "(if rv_term param > co_term c \<or> False then core_become_follower c (rv_term param) eff
        else (c, eff)) = (c1, eff1)"
      by fastforce
    have le: "co_term c \<le> rv_term param"
      using False by simp
    note S1 = step_up_if_later_evolves [OF assms(1) le 1]
    have voters: "co_self_id c \<in> voter_ids (co_membership c)" "rv_from param \<in> voter_ids (co_membership c)"
      using False is_voter_iff [OF core_wfD(3) [OF assms(1)]]
      by (auto simp: ensure_vote_preconditions_def fail_iff split: if_splits)
    have later: "later_than_other c1 t i = later_than_other c t i" for t i
      by (simp add: later_than_other_def S1(4))
    define c2 where "c2 = c1\<lparr>co_election := fst (grant_vote_to (co_election c1) (rv_from param))\<rparr>"
    have wf2: "core_wf c2"
      using S1(1) grant_vote_to_wf [of "co_election c1"]
      by (auto simp: c2_def core_wf_def grant_vote_to_def can_grant_vote_to_def)
    have e2: "\<not> can_grant_vote_to (co_election c1) (rv_from param) \<Longrightarrow> c2 = c1" "co_log c2 = co_log c"
        "co_term c2 = co_term c1"
        "can_grant_vote_to (co_election c1) (rv_from param) \<Longrightarrow> el_voted_for (co_election c2) = Some (rv_from param)"
      by (auto simp: c2_def grant_vote_to_def S1(4))
    have ev2: "evolves c1 eff1 c2 (eff1\<lparr>ef_hard_state := Some (hard_state (co_election c2))\<rparr>)"
      by (auto simp: c2_def evolves_def grant_vote_to_def can_grant_vote_to_def)
    have *: "c' = c1 \<and> eff' = eff1 \<and> r = \<lparr>rvr_term = co_term c1, rvr_vote_granted = False\<rparr>
      \<or> can_grant_vote_to (co_election c1) (rv_from param)
        \<and> \<not> later_than_other c1 (rv_last_log_term param) (rv_last_log_index param)
        \<and> c' = c2\<lparr>co_election_tick := fst (trigger_clear (co_election_tick c2))\<rparr>
        \<and> eff' = eff1\<lparr>ef_hard_state := Some (hard_state (co_election c2))\<rparr>
        \<and> r = \<lparr>rvr_term = co_term c1, rvr_vote_granted = True\<rparr>"
      using assms(2) False 1 e2(1)
      by (auto simp: handle_request_vote_def record_hard_state_def Let_def grant_vote_to_def c2_def
          split: if_splits)
    from * show ?thesis
    proof (elim disjE conjE)
      assume "c' = c1" "eff' = eff1" "r = \<lparr>rvr_term = co_term c1, rvr_vote_granted = False\<rparr>"
      then show ?thesis
        using S1 by simp
    next
      assume eq: "can_grant_vote_to (co_election c1) (rv_from param)"
        "\<not> later_than_other c1 (rv_last_log_term param) (rv_last_log_index param)"
        "c' = c2\<lparr>co_election_tick := fst (trigger_clear (co_election_tick c2))\<rparr>"
        "eff' = eff1\<lparr>ef_hard_state := Some (hard_state (co_election c2))\<rparr>"
        "r = \<lparr>rvr_term = co_term c1, rvr_vote_granted = True\<rparr>"
      have "core_wf c'"
        unfolding eq(3) by (intro core_wf_update_election_tick wf2 trigger_clear_wf core_wfD(7) [OF wf2])
      moreover have "evolves c eff c' eff'"
        using evolves_trans [OF S1(2) ev2] by (simp add: eq(3,4))
      ultimately show ?thesis
        using e2 eq S1(3) voters later by simp
    qed
  qed
  then show "core_wf c'" "evolves c eff c' eff'" "co_log c' = co_log c" "rvr_term r = co_term c'"
    "rvr_vote_granted r \<Longrightarrow> el_voted_for (co_election c') = Some (rv_from param) \<and> co_term c' = rv_term param
       \<and> ef_hard_state eff' = Some (hard_state (co_election c'))
       \<and> co_self_id c \<in> voter_ids (co_membership c) \<and> rv_from param \<in> voter_ids (co_membership c)
       \<and> \<not> later_than_other c (rv_last_log_term param) (rv_last_log_index param)"
    by blast+
qed

lemma record_pre_vote_evolves:
  assumes "core_wf c" and "c1 = c\<lparr>co_election := fst (record_pre_vote_granted_from (co_election c) r)\<rparr>"
  shows "core_wf c1" "evolves c eff c1 eff" "co_role c1 = co_role c"
  using assms record_pre_vote_granted_from_wf [OF core_wfD(2) [OF assms(1)], of r]
  by (simp_all add: core_wf_def evolves_def hard_state_def record_pre_vote_granted_from_def)

lemma record_vote_evolves:
  assumes "core_wf c" "co_role c = CANDIDATE" and "c1 = c\<lparr>co_election := fst (record_vote_granted_from (co_election c) r)\<rparr>"
  shows "core_wf c1" "evolves c eff c1 eff" "co_role c1 = co_role c"
  using assms record_vote_granted_from_wf [OF core_wfD(2) [OF assms(1)] assms(2), of r]
  by (simp_all add: core_wf_def evolves_def hard_state_def record_vote_granted_from_def)

lemma handle_pre_vote_response_evolves:
  assumes "core_wf c" and "handle_pre_vote_response c from r eff = (c', eff')"
  shows "core_wf c'" "evolves c eff c' eff'"
proof -
  define c1 where "c1 = c\<lparr>co_election := fst (record_pre_vote_granted_from (co_election c) from)\<rparr>"
  note R = record_pre_vote_evolves [OF assms(1) c1_def]
  have *: "c' = c \<and> eff' = eff \<or> c' = c1 \<and> eff' = eff
      \<or> co_term c < rvr_term r \<and> core_become_follower c (rvr_term r) eff = (c', eff')
      \<or> co_role c = PRE_CANDIDATE \<and> core_become_candidate c1 eff = (c', eff')"
    using assms(2)
    by (auto simp: handle_pre_vote_response_def is_pre_candidate_def Let_def case_prod_beta c1_def split: if_splits)
  show "core_wf c'"
    using * assms(1) R(1) core_become_follower_evolves(1) [OF assms(1)]
      core_become_candidate_evolves(1) [OF R(1)] R(3) by (metis order_less_imp_le)
  show "evolves c eff c' eff'"
    using * R(2) core_become_follower_evolves(2) [OF assms(1)]
      evolves_trans [OF R(2) core_become_candidate_evolves(2) [OF R(1)]] R(3) evolves_refl
    by (metis order_less_imp_le)
qed

lemma handle_vote_response_evolves:
  assumes "core_wf c" and "handle_vote_response c from r eff = (c', eff')"
  shows "core_wf c'" "evolves c eff c' eff'"
proof -
  define c1 where "c1 = c\<lparr>co_election := fst (record_vote_granted_from (co_election c) from)\<rparr>"
  note R = record_vote_evolves [OF assms(1) _ c1_def]
  have *: "c' = c \<and> eff' = eff
      \<or> co_term c < rvr_term r \<and> core_become_follower c (rvr_term r) eff = (c', eff')
      \<or> co_role c = CANDIDATE \<and> (c' = c1 \<and> eff' = eff \<or> core_become_leader c1 eff = (c', eff'))"
    using assms(2)
    by (auto simp: handle_vote_response_def is_candidate_def Let_def case_prod_beta c1_def split: if_splits)
  show "core_wf c'"
    using * assms(1) R(1,3) core_become_follower_evolves(1) [OF assms(1)] core_become_leader_evolves(1) [of c1]
    by (metis order_less_imp_le)
  show "evolves c eff c' eff'"
    using * R core_become_follower_evolves(2) [OF assms(1)] core_become_leader_evolves(2) [of c1]
      evolves_trans evolves_refl
    by (metis order_less_imp_le)
qed

lemma core_wf_update_replication:
  "core_wf c \<Longrightarrow> rp_self_id rp = rp_self_id (co_replication c) \<Longrightarrow> core_wf (c\<lparr>co_replication := rp\<rparr>)"
  by (simp add: core_wf_def)

lemma handle_append_response_evolves:
  assumes "core_wf c" and "handle_append_response c from sent r eff = (c', eff', s)"
  shows "core_wf c'" "evolves c eff c' eff'"
proof -
  define c1 where "c1 = c\<lparr>co_replication := handle_append_ok (co_replication c) from (ae_prev_log_index sent)
      (length (ae_entries sent))\<rparr>"
  define c2 where "c2 = c\<lparr>co_replication := handle_append_failed (co_replication c) (co_log c) from (aer_last_log_index r)\<rparr>"
  have wf: "core_wf c1" "core_wf c2"
    using assms(1) by (auto simp: c1_def c2_def intro!: core_wf_update_replication)
  have ev: "evolves c eff c1 eff" "evolves c eff c2 eff"
    by (simp_all add: c1_def c2_def)
  obtain c3 eff3 where 3: "try_update_commit_index c1 eff = (c3, eff3)"
    by fastforce
  note S3 = try_update_commit_index_evolves [OF wf(1) 3]
  have *: "c' = c \<and> eff' = eff \<or> c' = c2 \<and> eff' = eff
      \<or> co_term c < aer_term r \<and> core_become_follower c (aer_term r) eff = (c', eff')
      \<or> maybe_promote_ready_learner c3 eff3 = (c', eff')"
    using assms(2) 3
    by (auto simp: handle_append_response_def Let_def c1_def c2_def split: if_splits prod.splits)
  show "core_wf c'"
    using * assms(1) wf(2) core_become_follower_evolves(1) [OF assms(1)]
      maybe_promote_ready_learner_evolves(1) [OF S3(1)] by (metis order_less_imp_le)
  show "evolves c eff c' eff'"
    using * ev(2) core_become_follower_evolves(2) [OF assms(1)] evolves_refl
      evolves_trans [OF ev(1) evolves_trans [OF S3(2) maybe_promote_ready_learner_evolves(2) [OF S3(1)]]]
    by (metis order_less_imp_le)
qed

lemma handle_install_snapshot_response_evolves:
  assumes "core_wf c" and "handle_install_snapshot_response c from sent r eff = (c', eff')"
  shows "core_wf c'" "evolves c eff c' eff'"
proof -
  have *: "(\<exists>rp. c' = c\<lparr>co_replication := rp\<rparr> \<and> rp_self_id rp = rp_self_id (co_replication c)) \<and> eff' = eff
      \<or> co_term c < isr_term r \<and> core_become_follower c (isr_term r) eff = (c', eff')"
    using assms(2) by (auto simp: handle_install_snapshot_response_def Let_def split: if_splits
        intro!: exI [of _ "co_replication c'"])
  show "core_wf c'"
    using * core_wf_update_replication [OF assms(1)] core_become_follower_evolves(1) [OF assms(1)]
    by (metis order_less_imp_le)
  show "evolves c eff c' eff'"
    using * core_become_follower_evolves(2) [OF assms(1)] evolves_update_ticks(3) evolves_refl
    by (metis order_less_imp_le)
qed

lemma handle_install_snapshot_send_failed_evolves:
  "core_wf c \<Longrightarrow> core_wf (handle_install_snapshot_send_failed c from sent)"
  "evolves c eff (handle_install_snapshot_send_failed c from sent) eff"
  by (auto simp: handle_install_snapshot_send_failed_def intro!: core_wf_update_replication)

lemma core_tick_evolves:
  assumes "core_wf c" and "core_tick c eff = (c', eff')"
  shows "core_wf c'" "evolves c eff c' eff'"
proof -
  define c1 where "c1 = c\<lparr>co_heartbeat_tick := fst (trigger_tick (co_heartbeat_tick c))\<rparr>"
  define c2 where "c2 = c\<lparr>co_election_tick := fst (trigger_tick (co_election_tick c))\<rparr>"
  have wf: "core_wf c1" "core_wf c2"
    using assms(1) trigger_tick_wf [OF core_wfD(7) [OF assms(1)]] trigger_tick_wf [OF core_wfD(8) [OF assms(1)]]
    by (simp_all add: c1_def c2_def core_wf_def)
  have ev: "evolves c eff c1 eff" "evolves c eff c2 eff"
    by (simp_all add: c1_def c2_def)
  obtain c3 eff3 where 3: "core_broadcast_append_entries c1 eff = (c3, eff3)"
    by fastforce
  note S3 = core_broadcast_evolves [OF wf(1) 3]
  have *: "c' = c \<and> eff' = eff \<or> c' = c2 \<and> eff' = eff \<or> maybe_promote_ready_learner c3 eff3 = (c', eff')
      \<or> maybe_promote_ready_learner c1 eff = (c', eff') \<or> core_become_pre_candidate c2 eff = (c', eff')"
    using assms(2) 3
    by (auto simp: core_tick_def Let_def case_prod_beta c1_def c2_def split: if_splits)
  note P1 = maybe_promote_ready_learner_evolves [OF wf(1)] and P3 = maybe_promote_ready_learner_evolves [OF S3(1)]
    and P2 = core_become_pre_candidate_evolves [OF wf(2)]
  show "core_wf c'"
    using * assms(1) wf(2) P1(1) P2(1) P3(1) by blast
  show "evolves c eff c' eff'"
    using * ev(2) evolves_trans [OF ev(1) P1(2)] evolves_trans [OF ev(2) P2(2)]
      evolves_trans [OF ev(1) evolves_trans [OF S3(2) P3(2)]] evolves_refl by blast
qed

lemma prepare_install_snapshot_evolves:
  assumes "core_wf c" and "prepare_install_snapshot c param eff = (c', eff', s, w)"
  shows "core_wf c'" "evolves c eff c' eff'" "co_log c' = co_log c"
proof -
  have "core_wf c' \<and> evolves c eff c' eff' \<and> co_log c' = co_log c"
  proof (cases "\<not> contains_member (co_membership c) (is_from param) \<or> is_term param < co_term c")
    case True
    then show ?thesis
      using assms by (auto simp: prepare_install_snapshot_def split: if_splits)
  next
    case False
    obtain c1 eff1 where 1: "(if is_term param > co_term c \<or> \<not> is_follower (co_election c)
        then core_become_follower c (is_term param) eff else (c, eff)) = (c1, eff1)"
      by fastforce
    have le: "co_term c \<le> is_term param"
      using False by simp
    note S1 = step_up_if_later_evolves [OF assms(1) le 1]
    have eq: "c' = c1\<lparr>co_election_tick := fst (trigger_clear (co_election_tick c1)), co_recent_leader_active := True\<rparr>"
        "eff' = eff1"
      using assms(2) False 1
      by (auto simp: prepare_install_snapshot_def mark_recent_leader_active_def Let_def split: if_splits)
    show ?thesis
      using S1(1,2,4) trigger_clear_wf [OF core_wfD(7) [OF S1(1)]] by (simp add: eq core_wf_def)
  qed
  then show "core_wf c'" "evolves c eff c' eff'" "co_log c' = co_log c"
    by blast+
qed

section \<open>Entries from the leader\<close>

lemma append_entries_gap:
  assumes "log_wf l" "contiguous a es" "es \<noteq> []" "last_log_index l + 1 < a"
  shows "append_entries_from_leader l es = (ERROR, l, no_append_result)"
proof -
  obtain e es' where es: "es = e # es'" "le_index e = a"
    using assms(2,3) by (cases es) auto
  have "updated_last_log_index (rl_snapshot_index l) (rl_log_entries l) = last_log_index l"
    by (simp add: updated_last_log_index_def last_log_index_def)
  moreover have "rl_snapshot_index l \<le> last_log_index l"
    by (simp add: last_log_index_wf [OF assms(1)])
  ultimately show ?thesis
    using assms(4) by (simp add: append_entries_from_leader_def es Let_def)
qed

text \<open>
  What a follower relies on when it takes entries: the batch is contiguous behind the previous entry,
  and it does not contradict what the follower knows to be committed.
\<close>

definition batch_ok :: "RaftCore \<Rightarrow> AppendEntriesParam \<Rightarrow> bool" where
  "batch_ok c param \<longleftrightarrow> 0 \<le> ae_prev_log_index param
     \<and> contiguous (ae_prev_log_index param + 1) (ae_entries param)
     \<and> (\<forall>e \<in> set (ae_entries param). rl_snapshot_index (co_log c) < le_index e \<and> le_index e \<le> co_commit c
          \<longrightarrow> term_at (co_log c) (le_index e) = le_term e)"

lemma handle_append_entries_eq:
  assumes "contains_member (co_membership c) (ae_from param)" "\<not> ae_term param < co_term c"
    and 0: "(if ae_term param > co_term c \<or> \<not> is_follower (co_election c)
      then core_become_follower c (ae_term param) eff else (c, eff)) = (c0, eff1)"
    and c1: "c1 = c0\<lparr>co_election_tick := fst (trigger_clear (co_election_tick c0)), co_recent_leader_active := True\<rparr>"
    and app: "(if ae_entries param = [] then (OK, co_log c1, no_append_result)
      else append_entries_from_leader (co_log c1) (ae_entries param)) = (s, l, ar)"
  shows "handle_append_entries c param eff =
    (let rejected = \<lparr>aer_term = co_term c1, aer_success = False, aer_last_log_index = last_log_index (co_log c)\<rparr>
     in if ae_prev_log_index param > 0 \<and> (ae_prev_log_index param < rl_snapshot_index (co_log c1)
           \<or> term_at (co_log c1) (ae_prev_log_index param) \<noteq> ae_prev_log_term param) \<or> fail s
        then (c1, eff1, rejected)
        else (finish_recovering (c1\<lparr>co_log := l,
                co_apply := advance_commit_index_from_leader l (co_apply c1) (ae_leader_commit param)\<rparr>),
              if ae_entries param = [] then eff1
              else case ar_entries_to_rewrite ar of
                Some es \<Rightarrow> eff1\<lparr>ef_entries_to_rewrite := Some es\<rparr>
              | None \<Rightarrow> eff1\<lparr>ef_entries_to_append := ar_entries_to_append ar\<rparr>,
              rejected\<lparr>aer_success := True\<rparr>))"
proof -
  have c1': "mark_recent_leader_active (c0\<lparr>co_election_tick := fst (trigger_clear (co_election_tick c0))\<rparr>) = c1"
    by (simp add: c1 mark_recent_leader_active_def)
  have t: "co_term c0 = co_term c1" "co_term (finish_recovering (c1\<lparr>co_log := l, co_apply := a\<rparr>)) = co_term c1" for l a
    by (simp_all add: c1 finish_recovering_def)
  show ?thesis
    unfolding handle_append_entries_def Let_def 0 prod.case c1' app using assms(1,2)
    by (simp add: t) blast
qed

text \<open>The cases of the handler: rejected with the log unchanged, or merged.\<close>

lemma handle_append_entries_cases:
  assumes "core_wf c" and "contiguous (ae_prev_log_index param + 1) (ae_entries param)"
    and "handle_append_entries c param eff = (c', eff', r)"
  obtains (rejected) "core_wf c'" "evolves c eff c' eff'" "co_log c' = co_log c" "co_apply c' = co_apply c"
      "\<not> aer_success r" "ef_messages eff' = ef_messages eff" "aer_term r = co_term c'"
  | (accepted) c1 eff1 l ar where "core_wf c1" "evolves c eff c1 eff1" "co_log c1 = co_log c" "co_apply c1 = co_apply c"
      "co_role c1 = FOLLOWER" "co_term c1 = ae_term param"
      "(if ae_entries param = [] then (OK, co_log c, no_append_result)
        else append_entries_from_leader (co_log c) (ae_entries param)) = (OK, l, ar)"
      "ae_entries param = [] \<or> ae_prev_log_index param + 1 \<le> last_log_index (co_log c) + 1"
      "c' = finish_recovering (c1\<lparr>co_log := l,
          co_apply := advance_commit_index_from_leader l (co_apply c1) (ae_leader_commit param)\<rparr>)"
      "eff' = (if ae_entries param = [] then eff1
               else case ar_entries_to_rewrite ar of
                 Some es \<Rightarrow> eff1\<lparr>ef_entries_to_rewrite := Some es\<rparr>
               | None \<Rightarrow> eff1\<lparr>ef_entries_to_append := ar_entries_to_append ar\<rparr>)"
      "aer_success r" "aer_term r = co_term c1" "ef_messages eff1 = ef_messages eff"
      "contains_member (co_membership c) (ae_from param)"
      "ae_prev_log_index param > 0 \<Longrightarrow> rl_snapshot_index (co_log c) \<le> ae_prev_log_index param
         \<and> term_at (co_log c) (ae_prev_log_index param) = ae_prev_log_term param"
proof (cases "\<not> contains_member (co_membership c) (ae_from param) \<or> ae_term param < co_term c")
  case True
  then have "handle_append_entries c param eff =
      (c, eff, \<lparr>aer_term = co_term c, aer_success = False, aer_last_log_index = last_log_index (co_log c)\<rparr>)"
    by (cases "contains_member (co_membership c) (ae_from param)") (simp_all add: handle_append_entries_def)
  then have "c' = c" "eff' = eff" "\<not> aer_success r" "aer_term r = co_term c"
    using assms(3) by auto
  then show thesis
    using assms(1) by (intro rejected) auto
next
  case False
  obtain c0 eff1 where 0: "(if ae_term param > co_term c \<or> \<not> is_follower (co_election c)
      then core_become_follower c (ae_term param) eff else (c, eff)) = (c0, eff1)"
    by fastforce
  have le: "co_term c \<le> ae_term param"
    using False by simp
  note S0 = step_up_if_later_evolves [OF assms(1) le 0]
  define c1 where "c1 = c0\<lparr>co_election_tick := fst (trigger_clear (co_election_tick c0)), co_recent_leader_active := True\<rparr>"
  have wf1: "core_wf c1" and ev1: "evolves c eff c1 eff1" and same: "co_log c1 = co_log c" "co_apply c1 = co_apply c"
      "co_term c1 = ae_term param" "co_election c1 = co_election c0"
    using S0 trigger_clear_wf [OF core_wfD(7) [OF S0(1)]] by (simp_all add: c1_def core_wf_def)
  have role: "co_role c1 = FOLLOWER"
  proof (cases "is_follower (co_election c) \<and> ae_term param = co_term c")
    case True
    then show ?thesis
      using S0(10) same(4) by (simp add: is_follower_def)
  next
    case False
    then show ?thesis
      using S0(7,8) le same(4) by auto
  qed
  obtain s l ar where app: "(if ae_entries param = [] then (OK, co_log c, no_append_result)
      else append_entries_from_leader (co_log c) (ae_entries param)) = (s, l, ar)"
    by (metis prod_cases3)
  have app1: "(if ae_entries param = [] then (OK, co_log c1, no_append_result)
      else append_entries_from_leader (co_log c1) (ae_entries param)) = (s, l, ar)"
    using app unfolding same .
  have "contains_member (co_membership c) (ae_from param)" "\<not> ae_term param < co_term c"
    using False by simp_all
  note eq = handle_append_entries_eq [OF this 0 c1_def app1, unfolded assms(3) same(1,2)]
  define bad where "bad \<longleftrightarrow> ae_prev_log_index param > 0 \<and> (ae_prev_log_index param < rl_snapshot_index (co_log c)
      \<or> term_at (co_log c) (ae_prev_log_index param) \<noteq> ae_prev_log_term param)"
  show thesis
  proof (cases "bad \<or> fail s")
    case True
    then have "c' = c1" "eff' = eff1" "\<not> aer_success r" "aer_term r = co_term c1"
      using eq same(3) by (auto simp: Let_def bad_def split: if_splits)
    then show thesis
      using wf1 ev1 same S0(6) by (intro rejected) auto
  next
    case good: False
    have s: "s = OK"
      using good by (simp add: fail_iff)
    have gap: "ae_entries param = [] \<or> ae_prev_log_index param + 1 \<le> last_log_index (co_log c) + 1"
    proof (rule ccontr)
      assume "\<not> ?thesis"
      then have "s = ERROR"
        using append_entries_gap [OF core_wfD(1) [OF assms(1)] assms(2)] app by auto
      then show False
        using s by simp
    qed
    show thesis
    proof (rule accepted [OF wf1 ev1 same(1,2) role same(3) app [unfolded s] gap])
      show "c' = finish_recovering (c1\<lparr>co_log := l,
          co_apply := advance_commit_index_from_leader l (co_apply c1) (ae_leader_commit param)\<rparr>)"
        and "eff' = (if ae_entries param = [] then eff1
               else case ar_entries_to_rewrite ar of
                 Some es \<Rightarrow> eff1\<lparr>ef_entries_to_rewrite := Some es\<rparr>
               | None \<Rightarrow> eff1\<lparr>ef_entries_to_append := ar_entries_to_append ar\<rparr>)"
        and "aer_success r" and "aer_term r = co_term c1"
        using eq good same(2,3) by (auto simp: Let_def bad_def)
      show "ef_messages eff1 = ef_messages eff" "contains_member (co_membership c) (ae_from param)"
        using S0(6) False by simp_all
      show "ae_prev_log_index param > 0 \<Longrightarrow> rl_snapshot_index (co_log c) \<le> ae_prev_log_index param
         \<and> term_at (co_log c) (ae_prev_log_index param) = ae_prev_log_term param"
        using good by (auto simp: bad_def)
    qed
  qed
qed

end
