(* ===== verification/Raft_Step.thy ===== *)
theory Raft_Step
  imports Raft_Core_Inv
begin

text \<open>
  The steps of a replica: every entry point of the Raft core as an event, and the executor that makes
  the effects of a step durable before its messages leave (\<^verbatim>\<open>storage/replica/raft_step.cpp\<close>).  The
  theory shows that the invariant holds in every reachable state and that the durable state mirrors the
  state in memory.
\<close>

section \<open>Follower, snapshot and apply steps keep the invariant\<close>

lemma finish_recovering_wf: "core_wf c \<Longrightarrow> core_wf (finish_recovering c)"
  using trigger_reset_simps(2) [of K_RAFT_ELECTION_TIMEOUT_MIN_TICKS K_RAFT_ELECTION_TIMEOUT_MAX_TICKS "co_election_tick c"]
  by (auto simp: finish_recovering_def core_wf_def)

lemma finish_recovering_sel [simp]:
  "co_self_id (finish_recovering c) = co_self_id c" "co_election (finish_recovering c) = co_election c"
  "co_log (finish_recovering c) = co_log c" "co_apply (finish_recovering c) = co_apply c"
  "co_membership (finish_recovering c) = co_membership c" "co_replication (finish_recovering c) = co_replication c"
  by (simp_all add: finish_recovering_def)

text \<open>The merged log of an accepted batch, with what is known of it.\<close>

lemma accepted_log:
  assumes wf: "core_wf c" and ok: "batch_ok c param"
    and start: "ae_entries param = [] \<or> ae_prev_log_index param + 1 \<le> last_log_index (co_log c) + 1"
    and app: "(if ae_entries param = [] then (OK, co_log c, no_append_result)
        else append_entries_from_leader (co_log c) (ae_entries param)) = (OK, l, ar)"
  shows "log_wf l" "rl_snapshot_index l = rl_snapshot_index (co_log c)" "rl_snapshot_term l = rl_snapshot_term (co_log c)"
    "co_commit c \<le> last_log_index l"
    "take (nat (co_commit c - rl_snapshot_index l)) (rl_log_entries l)
       = take (nat (co_commit c - rl_snapshot_index l)) (rl_log_entries (co_log c))"
    "wal_after (rl_log_entries (co_log c)) ar = rl_log_entries l"
proof -
  let ?a = "ae_prev_log_index param + 1" and ?l = "co_log c" and ?es = "ae_entries param"
  note lwf = core_wfD(1) [OF wf]
  have commit: "co_commit c \<le> last_log_index ?l" "rl_snapshot_index ?l \<le> co_commit c"
    using core_wfD(4) [OF wf] by (auto simp: apply_wf_def)
  have "log_wf l \<and> rl_snapshot_index l = rl_snapshot_index ?l \<and> rl_snapshot_term l = rl_snapshot_term ?l
    \<and> take (nat (co_commit c - rl_snapshot_index ?l)) (rl_log_entries l)
       = take (nat (co_commit c - rl_snapshot_index ?l)) (rl_log_entries ?l)
    \<and> wal_after (rl_log_entries ?l) ar = rl_log_entries l"
  proof (cases "?es = []")
    case True
    then show ?thesis
      using app lwf by (auto simp: wal_after_def no_append_result_def)
  next
    case False
    then have a: "?a \<le> last_log_index ?l + 1"
      using start by blast
    have es: "contiguous ?a ?es"
      using ok by (simp add: batch_ok_def)
    have l: "l = update_entries ?l (merged_entries ?l ?a ?es)"
        "wal_after (rl_log_entries ?l) ar = merged_entries ?l ?a ?es"
      using append_entries_from_leader_merged [OF lwf es a] app False by auto
    show ?thesis
      using merged_wf [OF lwf es a] merged_keeps_agreeing [OF lwf es a commit(1)] ok l(2)
      by (simp add: l(1) batch_ok_def)
  qed
  then show *: "log_wf l" "rl_snapshot_index l = rl_snapshot_index ?l" "rl_snapshot_term l = rl_snapshot_term ?l"
      "take (nat (co_commit c - rl_snapshot_index l)) (rl_log_entries l)
         = take (nat (co_commit c - rl_snapshot_index l)) (rl_log_entries ?l)"
      "wal_after (rl_log_entries ?l) ar = rl_log_entries l"
    by auto
  have "nat (co_commit c - rl_snapshot_index l) \<le> length (rl_log_entries l)"
    using arg_cong [OF *(4), of length] commit *(2) last_log_index_wf [OF lwf] by (auto simp: min_def split: if_splits)
  then show "co_commit c \<le> last_log_index l"
    using last_log_index_wf [OF *(1)] commit *(2) by simp
qed

lemma handle_append_entries_wf:
  assumes "core_wf c" and "batch_ok c param" and "handle_append_entries c param eff = (c', eff', r)"
  shows "core_wf c'"
proof -
  have "contiguous (ae_prev_log_index param + 1) (ae_entries param)"
    using assms(2) by (simp add: batch_ok_def)
  from assms(1) this assms(3) show ?thesis
  proof (cases rule: handle_append_entries_cases)
    case (accepted c1 eff1 l ar)
    note L = accepted_log [OF assms(1,2) accepted(8,7)]
    let ?a = "advance_commit_index_from_leader l (co_apply c1) (ae_leader_commit param)"
    have "apply_wf l (co_apply c1)"
      using core_wfD(4) [OF assms(1)] L(2,4) by (simp add: apply_wf_def accepted(4))
    then have "apply_wf l ?a"
      by (rule advance_commit_index_from_leader_wf)
    then have "core_wf (c1\<lparr>co_log := l, co_apply := ?a\<rparr>)"
      using accepted(1) L(1) by (simp add: core_wf_def)
    then show ?thesis
      unfolding accepted(9) by (rule finish_recovering_wf)
  qed
qed

lemma core_install_snapshot_wf:
  assumes "core_wf c" and "co_commit c \<le> sh_apply_index h" and "members_wf (sh_members h)"
    and "co_role c = FOLLOWER" and "core_install_snapshot c h eff = (c', eff')"
  shows "core_wf c'" "rl_snapshot_index (co_log c') = sh_apply_index h"
    "ef_entries_to_rewrite eff' = Some (rl_log_entries (co_log c'))" "co_election c' = co_election c"
    "ef_hard_state eff' = ef_hard_state eff" "ef_entries_to_append eff' = ef_entries_to_append eff"
proof -
  let ?i = "sh_apply_index h" and ?t = "sh_apply_term h"
  let ?R = "retained_entries_after_snapshot (co_log c) ?i ?t"
  define l where "l = fst (log_install_snapshot (co_log c) ?i ?t)"
  define a where "a = apply_install_snapshot (co_apply c) ?i"
  have ap: "rl_snapshot_index (co_log c) \<le> co_applied c" "co_applied c \<le> co_commit c" "0 \<le> rl_snapshot_index (co_log c)"
    using core_wfD(1,4) [OF assms(1)] log_wfD(1) by (auto simp: apply_wf_def)
  have lwf: "log_wf l"
    unfolding l_def using ap assms(2) by (intro log_install_snapshot_wf core_wfD(1) [OF assms(1)]) simp
  have l: "rl_snapshot_index l = ?i" "rl_log_entries l = ?R" "snd (log_install_snapshot (co_log c) ?i ?t) = ?R"
    by (simp_all add: l_def log_install_snapshot_def Let_def rebuild_request_index_def)
  have "ap_commit_index a = ?i" "ap_last_applied a = ?i"
    using assms(2) ap by (auto simp: a_def apply_install_snapshot_def Let_def)
  then have awf: "apply_wf l a"
    using last_log_index_wf [OF lwf] l(1) by (simp add: apply_wf_def)
  define ms where "ms = (if sh_members h \<noteq> [] then sh_members h else co_membership c)"
  have "members_wf ms"
    using assms(3) core_wfD(3) [OF assms(1)] by (simp add: ms_def)
  then have "core_wf (c\<lparr>co_log := l, co_apply := a, co_membership := ms\<rparr>)"
    using assms(1,4) lwf awf by (simp add: core_wf_def)
  moreover have eq: "c' = finish_recovering (c\<lparr>co_log := l, co_apply := a, co_membership := ms\<rparr>)"
      "eff' = eff\<lparr>ef_entries_to_rewrite := Some ?R\<rparr>"
    using assms(5) by (auto simp: core_install_snapshot_def install_snapshot_into_log_def Let_def case_prod_beta
        l_def a_def ms_def l(3))
  ultimately show "core_wf c'"
    by (simp add: finish_recovering_wf)
  show "rl_snapshot_index (co_log c') = ?i" "ef_entries_to_rewrite eff' = Some (rl_log_entries (co_log c'))"
      "co_election c' = co_election c" "ef_hard_state eff' = ef_hard_state eff"
      "ef_entries_to_append eff' = ef_entries_to_append eff"
    using l by (simp_all add: eq)
qed

text \<open>A snapshot of the replica's own state, taken at an applied entry, only drops entries it covers.\<close>

definition local_snapshot :: "RaftCore \<Rightarrow> SnapshotHeader \<Rightarrow> bool" where
  "local_snapshot c h \<longleftrightarrow> sh_members h = [] \<and> rl_snapshot_index (co_log c) \<le> sh_apply_index h
     \<and> sh_apply_index h \<le> co_applied c \<and> term_at (co_log c) (sh_apply_index h) = sh_apply_term h"

lemma local_install_snapshot_wf:
  assumes wf: "core_wf c" and h: "local_snapshot c h" and run: "core_install_snapshot c h eff = (c', eff')"
  shows "core_wf c'" "rl_snapshot_index (co_log c') = sh_apply_index h"
    "rl_log_entries (co_log c') = drop (nat (sh_apply_index h - rl_snapshot_index (co_log c))) (rl_log_entries (co_log c))"
    "ef_entries_to_rewrite eff' = Some (rl_log_entries (co_log c'))" "co_election c' = co_election c"
    "ef_hard_state eff' = ef_hard_state eff" "ef_entries_to_append eff' = ef_entries_to_append eff" "co_apply c' = co_apply c"
proof -
  let ?i = "sh_apply_index h" and ?t = "sh_apply_term h"
  let ?D = "drop (nat (?i - rl_snapshot_index (co_log c))) (rl_log_entries (co_log c))"
  note lwf = core_wfD(1) [OF wf]
  have i: "rl_snapshot_index (co_log c) \<le> ?i" "?i \<le> co_applied c" "co_applied c \<le> co_commit c" "co_commit c \<le> last_log_index (co_log c)"
    using h core_wfD(4) [OF wf] by (auto simp: local_snapshot_def apply_wf_def)
  define l where "l = fst (log_install_snapshot (co_log c) ?i ?t)"
  have ret: "retained_entries_after_snapshot (co_log c) ?i ?t = ?D"
    using h i by (intro retained_agreeing [OF lwf]) (auto simp: local_snapshot_def)
  have l: "log_install_snapshot (co_log c) ?i ?t = (l, ?D)" "rl_snapshot_index l = ?i" "rl_log_entries l = ?D"
    by (simp_all add: l_def log_install_snapshot_def Let_def rebuild_request_index_def ret)
  have "log_wf l"
    unfolding l_def using i log_wfD(1) [OF lwf] by (intro log_install_snapshot_wf [OF lwf]) simp
  moreover have "last_log_index l = last_log_index (co_log c)"
    using last_log_index_wf [OF calculation] last_log_index_wf [OF lwf] l(2,3) i by simp
  ultimately have "core_wf (c\<lparr>co_log := l\<rparr>)"
    using wf i l(2) by (simp add: core_wf_def apply_wf_def)
  moreover have "apply_install_snapshot (co_apply c) ?i = co_apply c"
    using i by (simp add: apply_install_snapshot_def)
  then have eq: "c' = finish_recovering (c\<lparr>co_log := l\<rparr>)" "eff' = eff\<lparr>ef_entries_to_rewrite := Some ?D\<rparr>"
    using run h by (auto simp: core_install_snapshot_def install_snapshot_into_log_def l(1) local_snapshot_def Let_def)
  ultimately show "core_wf c'"
    by (simp add: finish_recovering_wf)
  show "rl_snapshot_index (co_log c') = ?i" "rl_log_entries (co_log c') = ?D"
    "ef_entries_to_rewrite eff' = Some (rl_log_entries (co_log c'))" "co_election c' = co_election c"
    "ef_hard_state eff' = ef_hard_state eff" "ef_entries_to_append eff' = ef_entries_to_append eff" "co_apply c' = co_apply c"
    by (simp_all add: eq l)
qed

lemma step_down_wf:
  assumes "core_wf c" and "members_wf ms"
    and "co_role c = LEADER \<Longrightarrow> co_self_id c \<in> voter_ids ms \<or> member_type ms (co_self_id c) = NON_MEMBER"
  shows "core_wf (step_down_if_become_non_member (c\<lparr>co_membership := ms\<rparr>))"
proof (cases "member_type ms (co_self_id c) = NON_MEMBER")
  case True
  define e where "e = (if is_follower (co_election c) then co_election c
      else fst (become_follower (co_election c) (co_term c)))"
  have e: "election_wf e" "el_role e = FOLLOWER" "el_self_id e = co_self_id c"
    using become_follower_wf [OF core_wfD(2) [OF assms(1)] order_refl] core_wfD(2,5) [OF assms(1)]
    by (auto simp: e_def is_follower_def become_follower_def)
  have "step_down_if_become_non_member (c\<lparr>co_membership := ms\<rparr>) = c\<lparr>co_membership := ms,
      co_recent_leader_active := False, co_election := e, co_heartbeat_tick := trigger_stop (co_heartbeat_tick c),
      co_election_tick := trigger_stop (co_election_tick c)\<rparr>"
    using True by (simp add: step_down_if_become_non_member_def clear_recent_leader_active_def e_def)
  then show ?thesis
    using assms(1,2) e by (simp add: core_wf_def)
next
  case False
  then show ?thesis
    using assms by (auto simp: step_down_if_become_non_member_def core_wf_def)
qed

lemma step_down_sel [simp]:
  "co_log (step_down_if_become_non_member c) = co_log c" "co_apply (step_down_if_become_non_member c) = co_apply c"
  "hard_state (co_election (step_down_if_become_non_member c)) = hard_state (co_election c)"
  "co_membership (step_down_if_become_non_member c) = co_membership c"
  "co_self_id (step_down_if_become_non_member c) = co_self_id c"
  by (simp_all add: step_down_if_become_non_member_def clear_recent_leader_active_def Let_def hard_state_def
      become_follower_def)

lemma member_type_absent: "r \<notin> member_id ` set ms \<Longrightarrow> member_type ms r = NON_MEMBER"
  by (simp add: member_type_def flip: find_raft_member_None)

lemma config_change_self:
  assumes "config_change ms ms'" "members_wf ms" "r \<in> voter_ids ms"
  shows "r \<in> voter_ids ms' \<or> member_type ms' r = NON_MEMBER"
  using assms
proof (induction rule: config_change.induct)
  case (member_removed ms x)
  show ?case
  proof (cases "r = x")
    case True
    then have "r \<notin> member_id ` set (snd (remove_member ms x))"
      by (auto simp: remove_member_def)
    then show ?thesis
      using member_type_absent by blast
  next
    case False
    then show ?thesis
      using member_removed remove_member_wf by simp
  qed
qed (auto simp: add_learner_wf promote_voter_wf)

lemma advance_last_applied_wf:
  "core_wf c \<Longrightarrow> i \<le> co_commit c \<Longrightarrow> core_wf (advance_last_applied c i)"
  by (simp add: advance_last_applied_def core_wf_def apply_advance_last_applied_wf)

lemma apply_config_entry_cases:
  assumes "apply_config_entry c e = (c', s)"
  obtains "c' = c" "s \<noteq> OK"
  | ms where "config_change (co_membership c) ms" "s = OK" "is_config_change_op (le_op_type e)"
      "c' = advance_last_applied (step_down_if_become_non_member (c\<lparr>co_membership := ms\<rparr>)) (le_index e)"
proof -
  define ch where "ch = (case le_op_type e of
       ADD_LEARNER \<Rightarrow> Some (add_learner (co_membership c) (le_config_member e))
     | PROMOTE_VOTER \<Rightarrow> Some (promote_voter (co_membership c) (le_config_replica_id e))
     | REMOVE_MEMBER \<Rightarrow> Some (remove_member (co_membership c) (le_config_replica_id e))
     | _ \<Rightarrow> None)"
  have ch: "config_change (co_membership c) (snd x) \<and> is_config_change_op (le_op_type e)" if "ch = Some x" for x
    using that by (auto simp: ch_def intro: config_change.intros split: WriteOpType.splits)
  have "(c', s) = (case ch of None \<Rightarrow> (c, INVALID_ARGUMENT)
      | Some (s, ms) \<Rightarrow> if fail s then (c, s)
          else (advance_last_applied (step_down_if_become_non_member (c\<lparr>co_membership := ms\<rparr>)) (le_index e), OK))"
    using assms by (simp add: apply_config_entry_def ch_def)
  then show thesis
    using that ch by (cases ch) (auto simp: fail_iff split: if_splits)
qed

lemma apply_config_entry_wf:
  assumes "core_wf c" and "le_index e \<le> co_commit c" and "apply_config_entry c e = (c', s)"
  shows "core_wf c'" "co_log c' = co_log c" "hard_state (co_election c') = hard_state (co_election c)"
    "s = OK \<Longrightarrow> le_index e \<le> co_applied c'"
proof -
  have "core_wf c' \<and> co_log c' = co_log c \<and> hard_state (co_election c') = hard_state (co_election c)
      \<and> (s = OK \<longrightarrow> le_index e \<le> co_applied c')"
    using assms(3)
  proof (cases rule: apply_config_entry_cases)
    case (2 ms)
    have "core_wf (step_down_if_become_non_member (c\<lparr>co_membership := ms\<rparr>))"
      using config_change_wf [OF 2(1) core_wfD(3) [OF assms(1)]] core_wfD(10) [OF assms(1)]
        config_change_self [OF 2(1) core_wfD(3) [OF assms(1)]] by (intro step_down_wf assms(1)) auto
    then show ?thesis
      using assms(2) by (auto simp: 2 advance_last_applied_wf)
        (simp_all add: advance_last_applied_def apply_advance_last_applied_def)
  qed (use assms(1) in simp)
  then show "core_wf c'" "co_log c' = co_log c" "hard_state (co_election c') = hard_state (co_election c)"
      "s = OK \<Longrightarrow> le_index e \<le> co_applied c'"
    by auto
qed

lemma contiguous_filter_drop:
  "contiguous a es \<Longrightarrow> filter (\<lambda>e. i < le_index e) es = drop (nat (i + 1 - a)) es"
proof (induction es arbitrary: a)
  case (Cons e es)
  show ?case
  proof (cases "i < a")
    case True
    have "filter (\<lambda>e. i < le_index e) (e # es) = e # es"
      using Cons.prems True contiguous_inj_nth [OF Cons.prems] by (intro filter_True) fastforce
    then show ?thesis
      using True by simp
  next
    case False
    then have "nat (i + 1 - a) = Suc (nat (i + 1 - (a + 1)))"
      by simp
    then show ?thesis
      using Cons.prems Cons.IH [of "a + 1"] False by simp
  qed
qed simp

lemma truncate_log_wf:
  assumes "core_wf c" and "truncate_log c i = (c', s)"
  shows "core_wf c'" "co_election c' = co_election c" "co_apply c' = co_apply c"
    "rl_snapshot_index (co_log c) \<le> rl_snapshot_index (co_log c')"
    "rl_log_entries (co_log c') = filter (\<lambda>e. rl_snapshot_index (co_log c') < le_index e) (rl_log_entries (co_log c))"
proof -
  let ?l = "co_log c"
  note lwf = core_wfD(1) [OF assms(1)]
  have all: "filter (\<lambda>e. rl_snapshot_index ?l < le_index e) (rl_log_entries ?l) = rl_log_entries ?l"
    using contiguous_filter_drop [OF log_wfD(2) [OF lwf], of "rl_snapshot_index ?l"] by simp
  have "core_wf c' \<and> co_election c' = co_election c \<and> co_apply c' = co_apply c
    \<and> rl_snapshot_index ?l \<le> rl_snapshot_index (co_log c')
    \<and> rl_log_entries (co_log c') = filter (\<lambda>e. rl_snapshot_index (co_log c') < le_index e) (rl_log_entries ?l)"
  proof (cases "i \<le> co_applied c \<and> rl_snapshot_index ?l < i")
    case False
    then have "c' = c"
      using assms(2) by (auto simp: truncate_log_def log_truncate_def split: if_splits)
    then show ?thesis
      using assms(1) all by simp
  next
    case True
    then have le: "i \<le> last_log_index ?l"
      using core_wfD(4) [OF assms(1)] by (simp add: apply_wf_def)
    define l where "l = snd (log_truncate ?l i)"
    have ok: "log_truncate ?l i = (OK, l)"
      using True le by (simp add: l_def log_truncate_def Let_def)
    have l: "log_wf l" "rl_snapshot_index l = i"
        "rl_log_entries l = drop (nat (i - rl_snapshot_index ?l)) (rl_log_entries ?l)"
      using log_truncate_wf [OF lwf ok] True le
      by (simp_all add: l_def log_truncate_def Let_def rebuild_request_index_def index_to_offset_def)
    have "last_log_index l = last_log_index ?l"
      using last_log_index_wf [OF l(1)] last_log_index_wf [OF lwf] l(2,3) True le by simp
    then have "apply_wf l (co_apply c)"
      using core_wfD(4) [OF assms(1)] True l(2) by (simp add: apply_wf_def)
    moreover have "c' = c\<lparr>co_log := l\<rparr>"
      using assms(2) True ok by (simp add: truncate_log_def)
    moreover have "rl_log_entries l = filter (\<lambda>e. i < le_index e) (rl_log_entries ?l)"
      using contiguous_filter_drop [OF log_wfD(2) [OF lwf], of i] l(3) by (simp add: algebra_simps)
    ultimately show ?thesis
      using assms(1) l True by (simp add: core_wf_def)
  qed
  then show "core_wf c'" "co_election c' = co_election c" "co_apply c' = co_apply c"
    "rl_snapshot_index (co_log c) \<le> rl_snapshot_index (co_log c')"
    "rl_log_entries (co_log c') = filter (\<lambda>e. rl_snapshot_index (co_log c') < le_index e) (rl_log_entries (co_log c))"
    by blast+
qed

section \<open>Events\<close>

text \<open>The entry points of the core that change its state, each run on fresh effects.\<close>

datatype RaftEvent =
    EvTick
  | EvPropose ProposeParam
  | EvProposeBatch "ProposeParam list"
  | EvRequestVote RequestVoteParam
  | EvAppendEntries AppendEntriesParam
  | EvVoteResponse ReplicaID RequestVoteResult
  | EvPreVoteResponse ReplicaID RequestVoteResult
  | EvAppendResponse ReplicaID AppendEntriesParam AppendEntriesResult
  | EvInstallSnapshotResponse ReplicaID InstallSnapshotParam InstallSnapshotResult
  | EvInstallSnapshotSendFailed ReplicaID InstallSnapshotParam
  | EvPrepareInstallSnapshot InstallSnapshotParam
  | EvInstallSnapshot SnapshotHeader
  | EvAddLearner PeerMember
  | EvRemoveMember ReplicaID
  | EvApplyConfig LogEntry
  | EvAdvanceApplied LogIndex
  | EvTruncateLog LogIndex

fun raft_step :: "RaftCore \<Rightarrow> RaftEvent \<Rightarrow> RaftCore \<times> RaftEffects" where
  "raft_step c EvTick = core_tick c no_effects"
| "raft_step c (EvPropose p) = (let (c', eff, s, i) = propose c p no_effects in (c', eff))"
| "raft_step c (EvProposeBatch ps) = (let (c', eff, rs) = propose_batch c ps no_effects in (c', eff))"
| "raft_step c (EvRequestVote p) = (let (c', eff, r) = handle_request_vote c p no_effects in (c', eff))"
| "raft_step c (EvAppendEntries p) = (let (c', eff, r) = handle_append_entries c p no_effects in (c', eff))"
| "raft_step c (EvVoteResponse from r) = handle_vote_response c from r no_effects"
| "raft_step c (EvPreVoteResponse from r) = handle_pre_vote_response c from r no_effects"
| "raft_step c (EvAppendResponse from p r) =
    (let (c', eff, s) = handle_append_response c from p r no_effects in (c', eff))"
| "raft_step c (EvInstallSnapshotResponse from p r) = handle_install_snapshot_response c from p r no_effects"
| "raft_step c (EvInstallSnapshotSendFailed from p) = (handle_install_snapshot_send_failed c from p, no_effects)"
| "raft_step c (EvPrepareInstallSnapshot p) = (let (c', eff, s, w) = prepare_install_snapshot c p no_effects in (c', eff))"
| "raft_step c (EvInstallSnapshot h) = core_install_snapshot c h no_effects"
| "raft_step c (EvAddLearner p) = (let (c', eff, s) = ensure_add_learner c p no_effects in (c', eff))"
| "raft_step c (EvRemoveMember r) = (let (c', eff, s) = ensure_remove_member c r no_effects in (c', eff))"
| "raft_step c (EvApplyConfig e) = (fst (apply_config_entry c e), no_effects)"
| "raft_step c (EvAdvanceApplied i) = (advance_last_applied c i, no_effects)"
| "raft_step c (EvTruncateLog i) = (fst (truncate_log c i), no_effects)"

text \<open>
  What the caller guarantees of an event: entries come from a leader that keeps what is committed, a received
  snapshot is installed by a follower that has not committed past it, a snapshot of its own was taken at an applied
  entry, and only committed entries are reported as applied.
\<close>

fun event_ok :: "RaftCore \<Rightarrow> RaftEvent \<Rightarrow> bool" where
  "event_ok c (EvAppendEntries p) = batch_ok c p"
| "event_ok c (EvInstallSnapshot h) =
    (co_commit c \<le> sh_apply_index h \<and> members_wf (sh_members h) \<and> co_role c = FOLLOWER \<or> local_snapshot c h)"
| "event_ok c (EvApplyConfig e) = (le_index e \<le> co_commit c)"
| "event_ok c (EvAdvanceApplied i) = (i \<le> co_commit c)"
| "event_ok c _ = True"

section \<open>Effects and the durable state\<close>

text \<open>
  The effects of a step describe the change of the term and vote, and of the log: a rewrite of the
  stored log, or entries behind it; entries that the log gives up to its snapshot stay in the stored log.
\<close>

definition persists :: "RaftCore \<Rightarrow> RaftEffects \<Rightarrow> RaftCore \<Rightarrow> bool" where
  "persists c eff c' \<longleftrightarrow>
     (ef_hard_state eff = None \<and> hard_state (co_election c') = hard_state (co_election c)
       \<or> ef_hard_state eff = Some (hard_state (co_election c')))
     \<and> (ef_entries_to_rewrite eff = Some (rl_log_entries (co_log c')) \<and> ef_entries_to_append eff = []
       \<or> ef_entries_to_rewrite eff = None \<and> rl_snapshot_index (co_log c') = rl_snapshot_index (co_log c)
          \<and> rl_log_entries (co_log c') = rl_log_entries (co_log c) @ ef_entries_to_append eff
       \<or> ef_entries_to_rewrite eff = None \<and> ef_entries_to_append eff = []
          \<and> rl_snapshot_index (co_log c) \<le> rl_snapshot_index (co_log c')
          \<and> rl_snapshot_index (co_log c') \<le> last_log_index (co_log c)
          \<and> rl_log_entries (co_log c') = filter (\<lambda>e. rl_snapshot_index (co_log c') < le_index e) (rl_log_entries (co_log c)))"

lemma filter_visible: "log_wf l \<Longrightarrow> filter (\<lambda>e. rl_snapshot_index l < le_index e) (rl_log_entries l) = rl_log_entries l"
  using contiguous_filter_drop [OF log_wfD(2), of l "rl_snapshot_index l"] by simp

lemma evolves_persists:
  assumes "core_wf c'" and "evolves c no_effects c' eff"
  shows "persists c eff c'"
proof -
  note D = evolvesD [OF assms(2)]
  have "rl_log_entries (co_log c') = rl_log_entries (co_log c) @ ef_entries_to_append eff"
    using D(12) by (auto simp: no_effects_def)
  then show ?thesis
    using D(8,9,11) filter_visible [OF core_wfD(1) [OF assms(1)]] by (simp add: persists_def no_effects_def)
qed

lemma handle_append_entries_persists:
  assumes "core_wf c" and "batch_ok c p" and "handle_append_entries c p no_effects = (c', eff, r)"
  shows "persists c eff c'"
proof -
  have "contiguous (ae_prev_log_index p + 1) (ae_entries p)"
    using assms(2) by (simp add: batch_ok_def)
  from assms(1) this assms(3) show ?thesis
  proof (cases rule: handle_append_entries_cases)
    case rejected
    then show ?thesis
      by (intro evolves_persists)
  next
    case (accepted c1 eff1 l ar)
    note L = accepted_log [OF assms(1,2) accepted(8,7)]
    note D = evolvesD [OF accepted(2)]
    have e1: "ef_entries_to_append eff1 = []" "ef_entries_to_rewrite eff1 = None"
      using D(11,12) accepted(3) by (auto simp: no_effects_def)
    have log': "co_log c' = l" "co_election c' = co_election c1"
      by (simp_all add: accepted(9))
    have hs: "ef_hard_state eff = ef_hard_state eff1"
      by (auto simp: accepted(10) split: option.splits)
    have "ef_entries_to_rewrite eff = Some (rl_log_entries l) \<and> ef_entries_to_append eff = []
        \<or> ef_entries_to_rewrite eff = None \<and> rl_log_entries l = rl_log_entries (co_log c) @ ef_entries_to_append eff"
      using L(6) e1 accepted(7) by (auto simp: accepted(10) wal_after_def no_append_result_def split: option.splits if_splits)
    then show ?thesis
      using D(8) L(2) filter_visible [OF L(1)] by (auto simp: persists_def log' hs no_effects_def)
  qed
qed

lemma same_persists:
  "core_wf c \<Longrightarrow> co_log c' = co_log c \<Longrightarrow> hard_state (co_election c') = hard_state (co_election c) \<Longrightarrow>
   persists c no_effects c'"
  by (simp add: persists_def no_effects_def filter_visible core_wfD(1))

text \<open>The term only grows, and a vote given in a term stays.\<close>

definition vote_kept :: "RaftCore \<Rightarrow> RaftCore \<Rightarrow> bool" where
  "vote_kept c c' \<longleftrightarrow> co_term c \<le> co_term c'
     \<and> (co_term c' = co_term c \<and> el_voted_for (co_election c) \<noteq> None
          \<longrightarrow> el_voted_for (co_election c') = el_voted_for (co_election c))"

definition step_ok :: "RaftCore \<Rightarrow> RaftEffects \<Rightarrow> RaftCore \<Rightarrow> bool" where
  "step_ok c eff c' \<longleftrightarrow> core_wf c' \<and> persists c eff c' \<and> vote_kept c c'"

lemma evolves_vote_kept: "evolves c eff c' eff' \<Longrightarrow> vote_kept c c'"
  unfolding vote_kept_def using evolvesD(4,7) by blast

lemma evolves_step_ok: "core_wf c' \<Longrightarrow> evolves c no_effects c' eff \<Longrightarrow> step_ok c eff c'"
  by (simp add: step_ok_def evolves_persists evolves_vote_kept)

lemma same_hard_state_kept: "hard_state (co_election c') = hard_state (co_election c) \<Longrightarrow> vote_kept c c'"
  by (simp add: vote_kept_def hard_state_def)

lemma handle_append_entries_step_ok:
  assumes "core_wf c" and "batch_ok c p" and "handle_append_entries c p no_effects = (c', eff, r)"
  shows "step_ok c eff c'"
proof -
  have "contiguous (ae_prev_log_index p + 1) (ae_entries p)"
    using assms(2) by (simp add: batch_ok_def)
  from assms(1) this assms(3) have "vote_kept c c'"
  proof (cases rule: handle_append_entries_cases)
    case rejected
    then show ?thesis
      by (simp add: evolves_vote_kept)
  next
    case (accepted c1 eff1 l ar)
    have "vote_kept c c1"
      by (rule evolves_vote_kept [OF accepted(2)])
    then show ?thesis
      by (simp add: vote_kept_def accepted(9))
  qed
  then show ?thesis
    using handle_append_entries_wf [OF assms] handle_append_entries_persists [OF assms] by (simp add: step_ok_def)
qed

lemma core_install_snapshot_step_ok:
  assumes "core_wf c" and "event_ok c (EvInstallSnapshot h)" and "core_install_snapshot c h no_effects = (c', eff)"
  shows "step_ok c eff c'"
proof (cases "local_snapshot c h")
  case True
  note I = local_install_snapshot_wf [OF assms(1) True assms(3)]
  show ?thesis
    using I by (auto simp: step_ok_def persists_def no_effects_def intro: same_hard_state_kept)
next
  case False
  then have ok: "co_commit c \<le> sh_apply_index h" "members_wf (sh_members h)" "co_role c = FOLLOWER"
    using assms(2) by simp_all
  note I = core_install_snapshot_wf [OF assms(1) ok assms(3)]
  show ?thesis
    using I by (auto simp: step_ok_def persists_def no_effects_def intro: same_hard_state_kept)
qed

lemma truncate_log_step_ok:
  assumes "core_wf c"
  shows "step_ok c no_effects (fst (truncate_log c i))"
proof -
  obtain c' s where t: "truncate_log c i = (c', s)"
    by fastforce
  note T = truncate_log_wf [OF assms t]
  have "rl_snapshot_index (co_log c') \<le> last_log_index (co_log c)"
    using T assms by (simp add: core_wf_def apply_wf_def)
  then show ?thesis
    using T by (auto simp: t step_ok_def persists_def no_effects_def intro: same_hard_state_kept)
qed

lemma raft_step_ok:
  assumes wf: "core_wf c" and ok: "event_ok c ev" and step: "raft_step c ev = (c', eff)"
  shows "step_ok c eff c'"
proof (cases ev)
  case EvTick
  then show ?thesis
    using step core_tick_evolves [OF wf] by (simp add: evolves_step_ok)
next
  case (EvPropose p)
  then obtain s i where "propose c p no_effects = (c', eff, s, i)"
    using step by (auto split: prod.splits)
  from propose_evolves [OF wf this] show ?thesis
    by (simp add: evolves_step_ok)
next
  case (EvProposeBatch ps)
  then obtain rs where "propose_batch c ps no_effects = (c', eff, rs)"
    using step by (auto split: prod.splits)
  from propose_batch_evolves [OF wf this] show ?thesis
    by (simp add: evolves_step_ok)
next
  case (EvRequestVote p)
  then obtain r where "handle_request_vote c p no_effects = (c', eff, r)"
    using step by (auto split: prod.splits)
  from handle_request_vote_evolves(1,2) [OF wf this] show ?thesis
    by (simp add: evolves_step_ok)
next
  case (EvAppendEntries p)
  then obtain r where "handle_append_entries c p no_effects = (c', eff, r)"
    using step by (auto split: prod.splits)
  then show ?thesis
    using handle_append_entries_step_ok [OF wf] ok EvAppendEntries by simp
next
  case (EvAppendResponse src p r)
  then obtain s where "handle_append_response c src p r no_effects = (c', eff, s)"
    using step by (auto split: prod.splits)
  from handle_append_response_evolves [OF wf this] show ?thesis
    by (simp add: evolves_step_ok)
next
  case (EvPrepareInstallSnapshot p)
  then obtain s w where "prepare_install_snapshot c p no_effects = (c', eff, s, w)"
    using step by (auto split: prod.splits)
  from prepare_install_snapshot_evolves [OF wf this] show ?thesis
    by (simp add: evolves_step_ok)
next
  case (EvAddLearner p)
  then obtain s where "ensure_add_learner c p no_effects = (c', eff, s)"
    using step by (auto split: prod.splits)
  then show ?thesis
    using ensure_change_evolves [OF wf] by (intro evolves_step_ok) blast+
next
  case (EvRemoveMember r)
  then obtain s where "ensure_remove_member c r no_effects = (c', eff, s)"
    using step by (auto split: prod.splits)
  then show ?thesis
    using ensure_change_evolves [OF wf] by (intro evolves_step_ok) blast+
next
  case (EvApplyConfig e)
  obtain d s where d: "apply_config_entry c e = (d, s)"
    by fastforce
  then have "c' = d" "eff = no_effects"
    using step EvApplyConfig by auto
  then show ?thesis
    using apply_config_entry_wf [OF wf _ d] ok EvApplyConfig
    by (auto simp: step_ok_def same_persists [OF wf] same_hard_state_kept)
next
  case (EvAdvanceApplied i)
  then have "c' = advance_last_applied c i" "eff = no_effects"
    using step by auto
  moreover have "core_wf (advance_last_applied c i)"
    using ok EvAdvanceApplied by (simp add: advance_last_applied_wf [OF wf])
  ultimately show ?thesis
    by (auto simp: step_ok_def intro!: same_persists [OF wf] same_hard_state_kept)
      (simp_all add: advance_last_applied_def)
next
  case (EvInstallSnapshot h)
  then show ?thesis
    using step ok core_install_snapshot_step_ok [OF wf, of h c' eff] by simp
next
  case (EvTruncateLog i)
  then show ?thesis
    using step truncate_log_step_ok [OF wf] by auto
qed (use step handle_vote_response_evolves [OF wf] handle_pre_vote_response_evolves [OF wf]
      handle_install_snapshot_response_evolves [OF wf] handle_install_snapshot_send_failed_evolves [of c]
      wf in \<open>auto intro: evolves_step_ok\<close>)

section \<open>Reachable states\<close>

inductive reachable :: "(nat \<Rightarrow> int) \<Rightarrow> ReplicaID \<Rightarrow> PeerMember list \<Rightarrow> RaftCore \<Rightarrow> bool"
  for timeout :: "nat \<Rightarrow> int" and self :: ReplicaID and members :: "PeerMember list" where
  start: "reachable timeout self members (new_RaftCore timeout self members)"
| step: "reachable timeout self members c \<Longrightarrow> event_ok c ev \<Longrightarrow> raft_step c ev = (c', eff) \<Longrightarrow>
    reachable timeout self members c'"

definition timeouts_ok :: "(nat \<Rightarrow> int) \<Rightarrow> bool" where
  "timeouts_ok timeout \<longleftrightarrow>
    (\<forall>n. K_RAFT_ELECTION_TIMEOUT_MIN_TICKS \<le> timeout n \<and> timeout n \<le> K_RAFT_ELECTION_TIMEOUT_MAX_TICKS)"

lemma reachable_wf:
  "reachable timeout self members c \<Longrightarrow> distinct (map pm_replica_id members) \<Longrightarrow> timeouts_ok timeout \<Longrightarrow> core_wf c"
proof (induction rule: reachable.induct)
  case start
  then show ?case
    by (simp add: new_RaftCore_wf timeouts_ok_def)
next
  case (step c ev c' eff)
  then show ?case
    using raft_step_ok by (simp add: step_ok_def)
qed

section \<open>The effect executor\<close>

text \<open>
  The stores are parameters: each operation gives the new store and a status.  The last component of the
  result says whether a fault was reported, which puts the replica out of service.
\<close>

definition persist_effects :: "('p \<Rightarrow> RaftMeta \<Rightarrow> 'p \<times> Status) \<Rightarrow> ('p \<Rightarrow> LogEntry list \<Rightarrow> 'p \<times> Status)
    \<Rightarrow> ('p \<Rightarrow> LogEntry list \<Rightarrow> 'p \<times> Status) \<Rightarrow> 'p \<Rightarrow> RaftEffects \<Rightarrow> 'p \<times> Status \<times> bool" where
  "persist_effects save rewrite append_batch p eff =
    (if ef_entries_to_rewrite eff \<noteq> None \<and> ef_entries_to_append eff \<noteq> [] then (p, INVALID_ARGUMENT, False)
     else
       let (p1, s1) = (case ef_hard_state eff of None \<Rightarrow> (p, OK) | Some m \<Rightarrow> save p m) in
       if fail s1 then (p1, s1, True)
       else
         let (p2, s2) = (case ef_entries_to_rewrite eff of None \<Rightarrow> (p1, OK) | Some es \<Rightarrow> rewrite p1 es) in
         if fail s2 then (p2, s2, True)
         else
           let (p3, s3) = (if ef_entries_to_append eff = [] then (p2, OK) else append_batch p2 (ef_entries_to_append eff)) in
           if fail s3 then (p3, s3, True) else (p3, OK, False))"

text \<open>
  \<^verbatim>\<open>execute\<close> after the step has run: \<^verbatim>\<open>status\<close> is what the step returned.  The messages in the result
  are those handed to the dispatcher, which takes every message.
\<close>

definition execute :: "('p \<Rightarrow> RaftMeta \<Rightarrow> 'p \<times> Status) \<Rightarrow> ('p \<Rightarrow> LogEntry list \<Rightarrow> 'p \<times> Status)
    \<Rightarrow> ('p \<Rightarrow> LogEntry list \<Rightarrow> 'p \<times> Status) \<Rightarrow> 'p \<Rightarrow> RaftEffects \<Rightarrow> Status \<Rightarrow> 'p \<times> RaftMessage list \<times> Status \<times> bool" where
  "execute save rewrite append_batch p eff status =
    (let (p', s, faulted) = persist_effects save rewrite append_batch p eff in
     if fail s then (p', [], s, faulted)
     else if fail status then (p', [], status, faulted)
     else (p', ef_messages eff, OK, faulted))"

text \<open>The durable term, vote and log agree with the replica; entries behind a snapshot do not count.\<close>

definition mirrors :: "RaftMeta \<Rightarrow> LogEntry list \<Rightarrow> RaftCore \<Rightarrow> bool" where
  "mirrors m wal c \<longleftrightarrow> m = hard_state (co_election c)
     \<and> filter (\<lambda>e. rl_snapshot_index (co_log c) < le_index e) wal = rl_log_entries (co_log c)"

lemma persists_mirrors:
  assumes "persists c eff c'" and "mirrors m wal c" and "log_wf (co_log c')"
  shows "mirrors (case ef_hard_state eff of None \<Rightarrow> m | Some m' \<Rightarrow> m')
    (case ef_entries_to_rewrite eff of None \<Rightarrow> wal @ ef_entries_to_append eff | Some es \<Rightarrow> es) c'"
proof -
  let ?s = "rl_snapshot_index (co_log c)" and ?s' = "rl_snapshot_index (co_log c')"
  have "filter (\<lambda>e. ?s' < le_index e) wal = filter (\<lambda>e. ?s' < le_index e) (rl_log_entries (co_log c))"
    if "?s \<le> ?s'"
  proof -
    have "rl_log_entries (co_log c) = filter (\<lambda>e. ?s < le_index e) wal"
      using assms(2) by (simp add: mirrors_def)
    then show ?thesis
      using that by (auto intro!: filter_cong)
  qed
  then show ?thesis
    using assms filter_visible [OF assms(3)]
    by (auto simp: persists_def mirrors_def split: option.splits)
qed

text \<open>
  The stored log has no gap and ends where the log of the replica ends, so that it can be read back.
\<close>

definition wal_chain :: "LogEntry list \<Rightarrow> RaftCore \<Rightarrow> bool" where
  "wal_chain wal c \<longleftrightarrow> (\<exists>i. contiguous i wal \<and> i \<le> rl_snapshot_index (co_log c) + 1
     \<and> i + int (length wal) = last_log_index (co_log c) + 1)"

lemma persists_wal_chain:
  assumes "persists c eff c'" and "wal_chain wal c" and "log_wf (co_log c)" and "log_wf (co_log c')"
  shows "wal_chain (case ef_entries_to_rewrite eff of None \<Rightarrow> wal @ ef_entries_to_append eff | Some es \<Rightarrow> es) c'"
proof -
  let ?s = "rl_snapshot_index (co_log c)" and ?s' = "rl_snapshot_index (co_log c')"
  obtain i where i: "contiguous i wal" "i \<le> ?s + 1" "i + int (length wal) = last_log_index (co_log c) + 1"
    using assms(2) by (auto simp: wal_chain_def)
  note last = last_log_index_wf [OF assms(3)] last_log_index_wf [OF assms(4)]
  consider (rewrite) "ef_entries_to_rewrite eff = Some (rl_log_entries (co_log c'))"
    | (append) "ef_entries_to_rewrite eff = None" "?s' = ?s" "rl_log_entries (co_log c') = rl_log_entries (co_log c) @ ef_entries_to_append eff"
    | (truncate) "ef_entries_to_rewrite eff = None" "ef_entries_to_append eff = []" "?s \<le> ?s'" "?s' \<le> last_log_index (co_log c)"
        "rl_log_entries (co_log c') = filter (\<lambda>e. ?s' < le_index e) (rl_log_entries (co_log c))"
    using assms(1) by (auto simp: persists_def)
  then show ?thesis
  proof cases
    case rewrite
    then show ?thesis
      using log_wfD(2) [OF assms(4)] last(2) by (auto simp: wal_chain_def)
  next
    case append
    have "contiguous (last_log_index (co_log c) + 1) (ef_entries_to_append eff)"
      using log_wfD(2) [OF assms(4)] append(2,3) last(1) by (simp add: contiguous_append algebra_simps)
    then show ?thesis
      using i append last by (auto simp: wal_chain_def contiguous_append intro!: exI [of _ i])
  next
    case truncate
    have "rl_log_entries (co_log c') = drop (nat (?s' - ?s)) (rl_log_entries (co_log c))"
      using contiguous_filter_drop [OF log_wfD(2) [OF assms(3)], of ?s'] truncate(5) by simp
    then have "last_log_index (co_log c') = last_log_index (co_log c)"
      using last truncate(3,4) by simp
    then show ?thesis
      using i truncate by (auto simp: wal_chain_def intro!: exI [of _ i])
  qed
qed

text \<open>
  What the executor relies on of the stores.  \<^verbatim>\<open>meta_ok\<close> and \<^verbatim>\<open>entry_ok\<close> say which values the
  stores can hold.
\<close>

locale raft_storage =
  fixes store_ok :: "'p \<Rightarrow> bool" and meta_ok :: "RaftMeta \<Rightarrow> bool" and entry_ok :: "LogEntry \<Rightarrow> bool"
    and meta_of :: "'p \<Rightarrow> RaftMeta" and wal_of :: "'p \<Rightarrow> LogEntry list"
    and save :: "'p \<Rightarrow> RaftMeta \<Rightarrow> 'p \<times> Status" and rewrite :: "'p \<Rightarrow> LogEntry list \<Rightarrow> 'p \<times> Status"
    and append_batch :: "'p \<Rightarrow> LogEntry list \<Rightarrow> 'p \<times> Status"
  assumes save_ok: "store_ok p \<Longrightarrow> meta_ok m \<Longrightarrow> save p m = (p', OK) \<Longrightarrow>
      store_ok p' \<and> meta_of p' = m \<and> wal_of p' = wal_of p"
    and rewrite_ok: "store_ok p \<Longrightarrow> \<forall>e \<in> set es. entry_ok e \<Longrightarrow> rewrite p es = (p', OK) \<Longrightarrow>
      store_ok p' \<and> meta_of p' = meta_of p \<and> wal_of p' = es"
    and append_ok: "store_ok p \<Longrightarrow> \<forall>e \<in> set es. entry_ok e \<Longrightarrow> append_batch p es = (p', OK) \<Longrightarrow>
      store_ok p' \<and> meta_of p' = meta_of p \<and> wal_of p' = wal_of p @ es"
begin

lemma persist_effects_ok:
  assumes "store_ok p" and "\<forall>m. ef_hard_state eff = Some m \<longrightarrow> meta_ok m"
    and "\<forall>es. ef_entries_to_rewrite eff = Some es \<longrightarrow> (\<forall>e \<in> set es. entry_ok e)"
    and "\<forall>e \<in> set (ef_entries_to_append eff). entry_ok e"
    and "persist_effects save rewrite append_batch p eff = (p', OK, f)"
  shows "store_ok p'" and "meta_of p' = (case ef_hard_state eff of None \<Rightarrow> meta_of p | Some m \<Rightarrow> m)"
    and "wal_of p' = (case ef_entries_to_rewrite eff of
      None \<Rightarrow> wal_of p @ ef_entries_to_append eff | Some es \<Rightarrow> es)"
proof -
  obtain p1 s1 where 1: "(case ef_hard_state eff of None \<Rightarrow> (p, OK) | Some m \<Rightarrow> save p m) = (p1, s1)"
    by fastforce
  obtain p2 s2 where 2: "(case ef_entries_to_rewrite eff of None \<Rightarrow> (p1, OK) | Some es \<Rightarrow> rewrite p1 es) = (p2, s2)"
    by fastforce
  have ok: "s1 = OK" "s2 = OK" "(if ef_entries_to_append eff = [] then (p2, OK)
      else append_batch p2 (ef_entries_to_append eff)) = (p', OK)"
      "ef_entries_to_rewrite eff = None \<or> ef_entries_to_append eff = []"
    using assms(5) 1 2 by (auto simp: persist_effects_def fail_iff split: if_splits prod.splits)
  have p1: "store_ok p1 \<and> meta_of p1 = (case ef_hard_state eff of None \<Rightarrow> meta_of p | Some m \<Rightarrow> m) \<and> wal_of p1 = wal_of p"
    using 1 ok(1) assms(1,2) save_ok by (auto split: option.splits)
  have p2: "store_ok p2 \<and> meta_of p2 = meta_of p1 \<and> wal_of p2 = (case ef_entries_to_rewrite eff of None \<Rightarrow> wal_of p1 | Some es \<Rightarrow> es)"
    using 2 ok(2) p1 assms(3) rewrite_ok by (auto split: option.splits)
  have "store_ok p' \<and> meta_of p' = meta_of p2 \<and> wal_of p' = wal_of p2 @ ef_entries_to_append eff"
    using ok(3) p2 assms(4) append_ok by (auto split: if_splits)
  then show "store_ok p'" "meta_of p' = (case ef_hard_state eff of None \<Rightarrow> meta_of p | Some m \<Rightarrow> m)"
      "wal_of p' = (case ef_entries_to_rewrite eff of None \<Rightarrow> wal_of p @ ef_entries_to_append eff | Some es \<Rightarrow> es)"
    using p1 p2 ok(4) by (auto split: option.splits)
qed

lemma execute_mirrors:
  assumes "store_ok p" and "mirrors (meta_of p) (wal_of p) c" and "step_ok c eff c'"
    and "\<forall>m. ef_hard_state eff = Some m \<longrightarrow> meta_ok m"
    and "\<forall>es. ef_entries_to_rewrite eff = Some es \<longrightarrow> (\<forall>e \<in> set es. entry_ok e)"
    and "\<forall>e \<in> set (ef_entries_to_append eff). entry_ok e"
    and "execute save rewrite append_batch p eff status = (p', msgs, s, f)" and "msgs \<noteq> [] \<or> s = OK"
    and "core_wf c" and "wal_chain (wal_of p) c"
  shows "store_ok p' \<and> mirrors (meta_of p') (wal_of p') c' \<and> wal_chain (wal_of p') c'"
proof -
  have "\<exists>f. persist_effects save rewrite append_batch p eff = (p', OK, f)"
    using assms(7,8) by (auto simp: execute_def fail_iff split: prod.splits if_splits)
  then obtain f' where pe: "persist_effects save rewrite append_batch p eff = (p', OK, f')"
    by blast
  have "core_wf c'" "persists c eff c'"
    using assms(3) by (simp_all add: step_ok_def)
  then show ?thesis
    using persist_effects_ok [OF assms(1,4,5,6) pe] persists_mirrors [OF _ assms(2) core_wfD(1)]
      persists_wal_chain [OF _ assms(10) core_wfD(1) [OF assms(9)] core_wfD(1)] by simp
qed

end

section \<open>Properties\<close>


definition demo_timeout :: "nat \<Rightarrow> int" where
  "demo_timeout n = 15 + int (n mod 16)"

lemma demo_timeouts_ok [simp]: "timeouts_ok demo_timeout"
proof -
  have "n mod 16 \<le> 15" for n :: nat
    using mod_less_divisor [of 16 n] by linarith
  then show ?thesis
    by (simp add: timeouts_ok_def demo_timeout_def K_RAFT_ELECTION_TIMEOUT_MIN_TICKS_def
        K_RAFT_ELECTION_TIMEOUT_MAX_TICKS_def)
qed


text \<open>
  C10. The effects of a step are exactly the change of the persistent state: a changed term or vote is
  recorded, the log after the step is what the recorded rewrite or the recorded new entries make of the
  log before it, and a step never records both a rewrite and new entries, so the executor never refuses
  the effects.
\<close>

theorem step_effects_complete:
  assumes "core_wf c" and "event_ok c ev" and "raft_step c ev = (c', eff)"
  shows "(hard_state (co_election c') \<noteq> hard_state (co_election c)
        \<longrightarrow> ef_hard_state eff = Some (hard_state (co_election c')))
    \<and> (ef_hard_state eff \<noteq> None \<longrightarrow> ef_hard_state eff = Some (hard_state (co_election c')))
    \<and> (case ef_entries_to_rewrite eff of
         Some es \<Rightarrow> es = rl_log_entries (co_log c') \<and> ef_entries_to_append eff = []
       | None \<Rightarrow> rl_log_entries (co_log c') = filter (\<lambda>e. rl_snapshot_index (co_log c') < le_index e)
             (rl_log_entries (co_log c) @ ef_entries_to_append eff))
    \<and> (ef_entries_to_rewrite eff = None \<or> ef_entries_to_append eff = [])"
  using raft_step_ok [OF assms] filter_visible [OF core_wfD(1), of c']
  by (auto simp: step_ok_def persists_def split: option.splits)

definition demo_core :: RaftCore where
  "demo_core = new_RaftCore demo_timeout (demo_id 1) [demo_peer 1, demo_peer 2, demo_peer 3]"

definition demo_vote_request :: RequestVoteParam where
  "demo_vote_request = \<lparr>rv_from = demo_id 2, rv_to = demo_id 1, rv_term = 1, rv_last_log_index = 0, rv_last_log_term = 0\<rparr>"

lemma demo_core_wf [simp]: "core_wf demo_core"
  unfolding demo_core_def using demo_timeouts_ok by (intro new_RaftCore_wf) (simp_all add: timeouts_ok_def)

lemma demo_core_sel [simp]:
  "co_log demo_core = new_RaftLog" "co_membership demo_core = demo_members" "co_self_id demo_core = demo_id 1"
  "co_recovering demo_core = False" "co_election demo_core = new_RaftElection (demo_id 1)"
  "co_apply demo_core = new_RaftApply"
  by (simp_all add: demo_core_def new_RaftCore_def demo_members_def)

lemma demo_vote_request_sel [simp]:
  "rv_from demo_vote_request = demo_id 2" "rv_term demo_vote_request = 1"
  "rv_last_log_index demo_vote_request = 0" "rv_last_log_term demo_vote_request = 0"
  by (simp_all add: demo_vote_request_def)

lemma demo_vote_granted:
  assumes "handle_request_vote demo_core demo_vote_request no_effects = (c', eff, r)"
  shows "rvr_vote_granted r"
proof -
  have "\<not> fail (ensure_vote_preconditions demo_core demo_vote_request)"
    by (simp add: ensure_vote_preconditions_def is_voter_iff ensure_ready_def)
  moreover have "co_term demo_core = 0"
    by (simp add: new_RaftElection_def)
  ultimately show ?thesis
    using assms by (auto simp: handle_request_vote_def core_become_follower_def Let_def become_follower_def
        later_than_other_def new_RaftLog_def last_log_index_def last_log_term_def grant_vote_to_def
        can_grant_vote_to_def clear_recent_leader_active_def)
qed

theorem step_effects_complete_witness:
  "\<exists>c' eff. raft_step demo_core (EvRequestVote demo_vote_request) = (c', eff)
    \<and> ef_hard_state eff = Some (hard_state (co_election c')) \<and> el_voted_for (co_election c') = Some (demo_id 2)"
proof -
  obtain c' eff r where h: "handle_request_vote demo_core demo_vote_request no_effects = (c', eff, r)"
    by (metis prod_cases3)
  then have st: "raft_step demo_core (EvRequestVote demo_vote_request) = (c', eff)"
    by simp
  have v: "el_voted_for (co_election c') = Some (demo_id 2)"
    using handle_request_vote_evolves(5) [OF demo_core_wf h demo_vote_granted [OF h]] by simp
  then have "hard_state (co_election c') \<noteq> hard_state (co_election demo_core)"
    by (simp add: hard_state_def new_RaftElection_def)
  moreover have "event_ok demo_core (EvRequestVote demo_vote_request)"
    by simp
  ultimately have "ef_hard_state eff = Some (hard_state (co_election c'))"
    using step_effects_complete [OF demo_core_wf _ st] by blast
  then show ?thesis
    using st v by blast
qed

text \<open>
  C11. A vote is given once per term and is recorded before it counts: a replica that grants a request is
  in the term of the request and has recorded the vote for the candidate; it and the candidate are voters
  and its own log is not ahead of the candidate's; its term has not gone back, and if it had already voted
  in that term, it was for the same candidate.
\<close>

theorem vote_granted_once:
  assumes "core_wf c" and "handle_request_vote c param no_effects = (c', eff, r)" and "rvr_vote_granted r"
  shows "co_term c' = rv_term param \<and> rvr_term r = rv_term param \<and> co_term c \<le> rv_term param
    \<and> ef_hard_state eff = Some \<lparr>rmeta_current_term = rv_term param, rmeta_voted_for = Some (rv_from param)\<rparr>
    \<and> (co_term c = rv_term param \<longrightarrow> el_voted_for (co_election c) \<in> {None, Some (rv_from param)})
    \<and> co_self_id c \<in> voter_ids (co_membership c) \<and> rv_from param \<in> voter_ids (co_membership c)
    \<and> (last_log_term (co_log c) < rv_last_log_term param
       \<or> last_log_term (co_log c) = rv_last_log_term param \<and> last_log_index (co_log c) \<le> rv_last_log_index param)"
proof -
  note V = handle_request_vote_evolves [OF assms(1,2)]
  note G = V(5) [OF assms(3)]
  note D = evolvesD [OF V(2)]
  have "el_voted_for (co_election c) \<in> {None, Some (rv_from param)}" if "co_term c = rv_term param"
    using D(7) G that by (cases "el_voted_for (co_election c)") auto
  then show ?thesis
    using G V(4) D(4) by (auto simp: hard_state_def later_than_other_def split: if_splits)
qed

theorem vote_granted_once_witness:
  "rvr_vote_granted (snd (snd (handle_request_vote demo_core demo_vote_request no_effects)))
    \<and> ef_hard_state (fst (snd (handle_request_vote demo_core demo_vote_request no_effects)))
        = Some \<lparr>rmeta_current_term = 1, rmeta_voted_for = Some (demo_id 2)\<rparr>"
proof -
  obtain c' eff r where h: "handle_request_vote demo_core demo_vote_request no_effects = (c', eff, r)"
    by (metis prod_cases3)
  show ?thesis
    using vote_granted_once [OF demo_core_wf h demo_vote_granted [OF h]] demo_vote_granted [OF h] by (simp add: h)
qed

end
