(* ===== verification/Raft_Timeout.thy ===== *)
theory Raft_Timeout
  imports Raft_Step
begin

text \<open>
  What a replica does when it hears from nobody: consecutive ticks of \<^verbatim>\<open>RaftCore::tick\<close> run the election
  trigger up, and within the longest election timeout the replica asks for pre-votes, or elects itself
  when it is the only voter.
\<close>

section \<open>Consecutive ticks\<close>

primrec run_ticks :: "nat \<Rightarrow> RaftCore \<Rightarrow> RaftCore \<times> RaftEffects list" where
  "run_ticks 0 c = (c, [])"
| "run_ticks (Suc n) c =
    (let (c1, eff) = raft_step c EvTick; (c2, effs) = run_ticks n c1 in (c2, eff # effs))"

definition waited :: "RaftCore \<Rightarrow> nat \<Rightarrow> RaftCore" where
  "waited c k = c\<lparr>co_election_tick := (co_election_tick c)\<lparr>tt_cur_cnt := tt_cur_cnt (co_election_tick c) + int k\<rparr>\<rparr>"

definition ticks_left :: "RaftCore \<Rightarrow> nat" where
  "ticks_left c = nat (tt_limit_cnt (co_election_tick c) - tt_cur_cnt (co_election_tick c))"

text \<open>A replica that stands for election when its timeout passes.\<close>

definition electable :: "RaftCore \<Rightarrow> bool" where
  "electable c \<longleftrightarrow> core_wf c \<and> \<not> co_recovering c \<and> co_role c \<noteq> LEADER \<and> co_self_id c \<in> voter_ids (co_membership c)
     \<and> \<not> tt_stop_flag (co_election_tick c)"

lemma waited_0 [simp]: "waited c 0 = c"
  by (simp add: waited_def)

lemma ticks_left_bounds:
  assumes "core_wf c"
  shows "0 < ticks_left c" "int (ticks_left c) \<le> K_RAFT_ELECTION_TIMEOUT_MAX_TICKS"
  using core_wfD(7) [OF assms] by (auto simp: trigger_wf_def ticks_left_def)

lemma run_ticks_append:
  "run_ticks (m + n) c = (let (c1, es1) = run_ticks m c; (c2, es2) = run_ticks n c1 in (c2, es1 @ es2))"
  by (induction m arbitrary: c) (simp_all add: case_prod_beta Let_def)

lemma quiet_tick:
  assumes "electable c" and "Suc k < ticks_left c"
  shows "core_tick (waited c k) eff = (waited c (Suc k), eff)"
proof -
  have "tt_cur_cnt (co_election_tick c) + int k + 1 < tt_limit_cnt (co_election_tick c)"
    using assms(2) by (simp add: ticks_left_def)
  then show ?thesis
    using assms(1) by (simp add: core_tick_def ensure_ready_def electable_def waited_def is_leader_def trigger_tick_def
        is_catch_up_limit_def Let_def add.assoc)
qed

lemma quiet_ticks:
  assumes "electable c"
  shows "k < ticks_left c \<Longrightarrow> run_ticks k c = (waited c k, replicate k no_effects)"
proof (induction k)
  case (Suc k)
  then have "run_ticks k c = (waited c k, replicate k no_effects)"
    by simp
  then show ?case
    using run_ticks_append [of k 1 c] quiet_tick [OF assms Suc.prems] by (simp add: replicate_append_same)
qed simp

text \<open>The tick that reaches the limit starts an election.\<close>

definition timed_out :: "RaftCore \<Rightarrow> RaftCore" where
  "timed_out c = c\<lparr>co_election_tick := make_next_limit ((co_election_tick c)\<lparr>tt_cur_cnt := 0\<rparr>)\<rparr>"

lemma firing_tick:
  assumes "electable c" and "Suc k = ticks_left c"
  shows "core_tick (waited c k) eff = core_become_pre_candidate (timed_out c) eff"
proof -
  have "tt_cur_cnt (co_election_tick c) + int k + 1 = tt_limit_cnt (co_election_tick c)"
    using assms(2) by (simp add: ticks_left_def)
  then show ?thesis
    using assms(1) by (simp add: core_tick_def ensure_ready_def electable_def waited_def is_leader_def trigger_tick_def
        is_catch_up_limit_def timed_out_def Let_def)
qed

lemma run_ticks_timeout:
  assumes "electable c"
  shows "run_ticks (ticks_left c) c =
    (let (c', eff) = core_become_pre_candidate (timed_out c) no_effects
     in (c', replicate (ticks_left c - 1) no_effects @ [eff]))"
proof -
  obtain k where k: "ticks_left c = Suc k"
    using ticks_left_bounds(1) [of c] assms by (auto simp: electable_def gr0_conv_Suc)
  then show ?thesis
    using run_ticks_append [of k 1 c] quiet_ticks [OF assms, of k] firing_tick [OF assms, of k no_effects]
    by (simp add: case_prod_beta Let_def)
qed

lemma timed_out_sel [simp]:
  "co_log (timed_out c) = co_log c" "co_membership (timed_out c) = co_membership c"
  "co_self_id (timed_out c) = co_self_id c" "co_election (timed_out c) = co_election c"
  "co_recovering (timed_out c) = co_recovering c"
  by (simp_all add: timed_out_def)

lemma timed_out_wf: "core_wf c \<Longrightarrow> core_wf (timed_out c)"
  using make_next_limit_wf [OF core_wfD(7)] by (auto simp: core_wf_def timed_out_def)

section \<open>The election that follows\<close>

lemma send_to_voters_pre_votes:
  "set (ef_messages (send_to_voters (send_pre_vote_to c) self ps eff)) =
     set (ef_messages eff) \<union> {PreVoteMsg p (request_vote_param c p (pre_vote_term (co_election c))) | p.
        p \<in> set ps \<and> pm_replica_id p \<noteq> self}"
  by (induction ps arbitrary: eff) (auto simp: send_pre_vote_to_def push_message_def)

lemma asks_for_pre_votes:
  assumes "electable c" and "\<not> has_quorum (co_membership c) 1"
    and "core_become_pre_candidate (timed_out c) no_effects = (c', eff)"
  shows "co_role c' = PRE_CANDIDATE \<and> co_term c' = co_term c \<and> (\<forall>p\<in>set (voters (co_membership c)).
    pm_replica_id p \<noteq> co_self_id c \<longrightarrow> PreVoteMsg p (request_vote_param c p (co_term c + 1)) \<in> set (ef_messages eff))"
proof -
  have "is_voter (co_membership c) (co_self_id c)"
    using assms(1) is_voter_iff [OF core_wfD(3)] by (auto simp: electable_def)
  then show ?thesis
    using assms core_wfD(5) [of c]
    by (auto simp: core_become_pre_candidate_def electable_def ensure_ready_def is_leader_def
        clear_recent_leader_active_def become_pre_candidate_def pre_vote_granted_count_def Let_def
        send_to_voters_pre_votes request_vote_param_def pre_vote_term_def)
qed

lemma only_voter_elects_itself:
  assumes "electable c" and "has_quorum (co_membership c) 1"
    and "core_become_pre_candidate (timed_out c) no_effects = (c', eff)"
  shows "co_role c' = LEADER \<and> co_term c' = co_term c + 1"
proof -
  define c1 where "c1 = (timed_out c)\<lparr>co_recent_leader_active := False,
      co_election := become_pre_candidate (co_election c), co_heartbeat_tick := trigger_stop (co_heartbeat_tick (timed_out c)),
      co_election_tick := fst (trigger_reset (co_election_tick (timed_out c)))\<rparr>"
  define c2 where "c2 = c1\<lparr>co_recent_leader_active := False, co_election := become_candidate (co_election c1),
      co_heartbeat_tick := trigger_stop (co_heartbeat_tick c1),
      co_election_tick := fst (trigger_reset (co_election_tick c1))\<rparr>"
  have wf: "core_wf c" "co_self_id c \<in> voter_ids (co_membership c)"
    using assms(1) by (simp_all add: electable_def)
  have v: "is_voter (co_membership c) (co_self_id c)"
    using wf is_voter_iff [OF core_wfD(3)] by simp
  note id = core_wfD(5) [OF wf(1)]
  have e2: "co_role c2 = CANDIDATE" "co_term c2 = co_term c + 1" "co_membership c2 = co_membership c"
      "co_self_id c2 = co_self_id c" "granted_vote_count (co_election c2) = 1"
    using id by (simp_all add: c2_def c1_def become_candidate_def become_pre_candidate_def granted_vote_count_def)
  have wf1: "core_wf c1"
    using timed_out_wf [OF wf(1)] become_pre_candidate_wf [OF core_wfD(2) [OF wf(1)]] assms(1)
      trigger_reset_simps(2) [OF core_wfD(7) [OF timed_out_wf [OF wf(1)]]]
    by (simp add: c1_def core_wf_def electable_def) (simp add: become_pre_candidate_def)
  have wf2: "core_wf c2"
    using wf1 become_candidate_wf [OF core_wfD(2) [OF wf1]] trigger_reset_simps(2) [OF core_wfD(7) [OF wf1]] assms(1)
    by (simp add: c2_def core_wf_def electable_def) (simp add: c1_def become_candidate_def)
  obtain eff2 where run: "core_become_leader c2 eff2 = (c', eff)"
    using assms v id
    by (auto simp: core_become_pre_candidate_def core_become_candidate_def electable_def ensure_ready_def is_leader_def
        clear_recent_leader_active_def become_pre_candidate_def become_candidate_def pre_vote_granted_count_def
        granted_vote_count_def record_hard_state_def Let_def c1_def c2_def)
  show ?thesis
    using core_become_leader_evolves(3,4) [OF wf2 e2(1) run] e2 wf(2) by (auto simp: hard_state_def)
qed

section \<open>Election timeout\<close>


lemma demo_core_electable: "electable demo_core"
  by (simp add: electable_def) (simp add: demo_core_def new_RaftCore_def new_RaftElection_def
      new_TickTrigger_func_def make_next_limit_def)


end
