(* ===== verification/Raft_Cluster.thy ===== *)
theory Raft_Cluster
  imports Raft_Timeout
begin

text \<open>
  A group of replicas with a fixed membership that exchange votes over an unreliable network: messages
  are lost, repeated and delivered in any order, and a replica may restart from its durable state at any
  time.  Each replica runs the model of the Raft core.  The theory shows that a term has at most one
  leader.
\<close>

section \<open>How a step changes the election state\<close>

text \<open>The vote a response delivers.\<close>

fun vote_delivered :: "RaftCore \<Rightarrow> RaftEvent \<Rightarrow> ReplicaID set" where
  "vote_delivered c (EvVoteResponse from r) =
    (if rvr_vote_granted r \<and> rvr_term r = co_term c \<and> from \<in> voter_ids (co_membership c) then {from} else {})"
| "vote_delivered c _ = {}"

text \<open>
  A replica is a candidate because it was one, with at most the delivered vote more, or because it has
  just voted for itself in its term; it leads because it led, or because its votes are a quorum.
\<close>

definition self_elected :: "RaftCore \<Rightarrow> bool" where
  "self_elected c \<longleftrightarrow> el_voted_for (co_election c) = Some (co_self_id c) \<and> co_self_id c \<in> voter_ids (co_membership c)"

definition election_step :: "ReplicaID set \<Rightarrow> RaftCore \<Rightarrow> RaftCore \<Rightarrow> bool" where
  "election_step new c c' \<longleftrightarrow>
     (co_role c' = CANDIDATE \<longrightarrow>
        co_role c = CANDIDATE \<and> co_term c' = co_term c
          \<and> el_granted_voters (co_election c') \<subseteq> el_granted_voters (co_election c) \<union> new
        \<or> el_granted_voters (co_election c') = {co_self_id c'} \<and> self_elected c')
     \<and> (co_role c' = LEADER \<longrightarrow>
        co_role c = LEADER \<and> co_term c' = co_term c
        \<or> co_role c = CANDIDATE \<and> co_term c' = co_term c
          \<and> has_quorum (co_membership c') (int (card (el_granted_voters (co_election c) \<union> new)))
        \<or> self_elected c' \<and> has_quorum (co_membership c') 1)"

lemma election_step_same:
  "hard_state (co_election c') = hard_state (co_election c) \<Longrightarrow> co_role c' = co_role c \<Longrightarrow>
   el_granted_voters (co_election c') = el_granted_voters (co_election c) \<Longrightarrow> election_step new c c'"
  by (auto simp: election_step_def hard_state_def)

lemma election_step_refl [simp]: "co_election c' = co_election c \<Longrightarrow> election_step new c c'"
  by (simp add: election_step_same)

lemma election_step_other: "co_role c' \<notin> {CANDIDATE, LEADER} \<Longrightarrow> election_step new c c'"
  by (auto simp: election_step_def)

lemma core_become_leader_outcome:
  assumes "core_wf c" and "co_role c = CANDIDATE" and "core_become_leader c eff = (c', eff')"
  shows "co_self_id c \<in> voter_ids (co_membership c) \<and> co_role c' = LEADER
      \<and> hard_state (co_election c') = hard_state (co_election c) \<or> c' = c"
proof (cases "co_self_id c \<in> voter_ids (co_membership c)")
  case True
  then show ?thesis
    using core_become_leader_evolves(3,4) [OF assms] by blast
next
  case False
  then show ?thesis
    using assms(3) is_voter_iff [OF core_wfD(3) [OF assms(1)]] by (auto simp: core_become_leader_def split: if_splits)
qed

lemma core_become_candidate_outcome:
  assumes wf: "core_wf c" and pre: "co_role c = PRE_CANDIDATE" and run: "core_become_candidate c eff = (c', eff')"
  shows "c' = c \<or> self_elected c' \<and>
    (co_role c' = CANDIDATE \<and> el_granted_voters (co_election c') = {co_self_id c'}
     \<or> co_role c' = LEADER \<and> has_quorum (co_membership c') 1)"
proof -
  define c1 where "c1 = c\<lparr>co_recent_leader_active := False, co_election := become_candidate (co_election c),
      co_heartbeat_tick := trigger_stop (co_heartbeat_tick c),
      co_election_tick := fst (trigger_reset (co_election_tick c))\<rparr>"
  define eff1 where "eff1 = eff\<lparr>ef_hard_state := Some (hard_state (become_candidate (co_election c)))\<rparr>"
  have ready: "\<not> co_recovering c"
    using core_wfD(9) [OF wf] pre by simp
  have wf1: "core_wf c1"
    using wf ready trigger_reset_simps(2) [OF core_wfD(7) [OF wf]] become_candidate_wf [OF core_wfD(2) [OF wf]]
    by (simp add: c1_def core_wf_def) (simp add: become_candidate_def)
  have e1: "co_role c1 = CANDIDATE" "el_granted_voters (co_election c1) = {co_self_id c}"
      "el_voted_for (co_election c1) = Some (co_self_id c)" "co_self_id c1 = co_self_id c"
      "co_membership c1 = co_membership c"
    using core_wfD(5) [OF wf] by (simp_all add: c1_def become_candidate_def)
  have *: "c' = c \<or> is_voter (co_membership c) (co_self_id c)
      \<and> (has_quorum (co_membership c) (granted_vote_count (co_election c1)) \<and> core_become_leader c1 eff1 = (c', eff')
         \<or> c' = c1)"
    using run ready
    by (auto simp: core_become_candidate_def ensure_ready_def clear_recent_leader_active_def
        record_hard_state_def Let_def c1_def eff1_def split: if_splits)
  have self: "self_elected c1" if "is_voter (co_membership c) (co_self_id c)"
    using that is_voter_iff [OF core_wfD(3) [OF wf]] e1 by (simp add: self_elected_def)
  from * show ?thesis
  proof (elim disjE conjE)
    assume v: "is_voter (co_membership c) (co_self_id c)"
      and q: "has_quorum (co_membership c) (granted_vote_count (co_election c1))"
      and l: "core_become_leader c1 eff1 = (c', eff')"
    note E = evolvesD [OF core_become_leader_evolves(2) [OF wf1 e1(1) l]]
    have q1: "has_quorum (co_membership c) 1"
      using q e1(2) by (simp add: granted_vote_count_def)
    show ?thesis
      using core_become_leader_outcome [OF wf1 e1(1) l] self [OF v] e1 E(1,2) q1
      by (auto simp: self_elected_def hard_state_def)
  next
    assume v: "is_voter (co_membership c) (co_self_id c)" and "c' = c1"
    then show ?thesis
      using self [OF v] e1 by simp
  qed simp
qed

lemma outcome_election_step:
  "self_elected c' \<Longrightarrow> co_role c' = CANDIDATE \<and> el_granted_voters (co_election c') = {co_self_id c'}
     \<or> co_role c' = LEADER \<and> has_quorum (co_membership c') 1 \<Longrightarrow> election_step new c c'"
  by (auto simp: election_step_def)

lemma core_become_pre_candidate_election:
  assumes wf: "core_wf c" and run: "core_become_pre_candidate c eff = (c', eff')"
  shows "election_step new c c'"
proof -
  define c1 where "c1 = c\<lparr>co_recent_leader_active := False, co_election := become_pre_candidate (co_election c),
      co_heartbeat_tick := trigger_stop (co_heartbeat_tick c),
      co_election_tick := fst (trigger_reset (co_election_tick c))\<rparr>"
  have role1: "co_role c1 = PRE_CANDIDATE"
    by (simp add: c1_def become_pre_candidate_def)
  have wf1: "core_wf c1" if "\<not> co_recovering c"
    using wf that trigger_reset_simps(2) [OF core_wfD(7) [OF wf]] become_pre_candidate_wf [OF core_wfD(2) [OF wf]]
    by (simp add: c1_def core_wf_def) (simp add: become_pre_candidate_def)
  have *: "c' = c \<or> c' = c1 \<or> \<not> co_recovering c \<and> core_become_candidate c1 eff = (c', eff')"
    using run
    by (auto simp: core_become_pre_candidate_def ensure_ready_def clear_recent_leader_active_def fail_iff
        Let_def c1_def split: if_splits)
  have "c' = c1 \<Longrightarrow> election_step new c c'"
    using role1 by (intro election_step_other) simp
  moreover have "election_step new c c'" if "\<not> co_recovering c" "core_become_candidate c1 eff = (c', eff')"
    using core_become_candidate_outcome [OF wf1 [OF that(1)] role1 that(2)] role1
    by (auto intro: outcome_election_step election_step_other)
  ultimately show ?thesis
    using * by auto
qed

lemma handle_pre_vote_response_election:
  assumes wf: "core_wf c" and run: "handle_pre_vote_response c from r eff = (c', eff')"
  shows "election_step new c c'"
proof -
  define c1 where "c1 = c\<lparr>co_election := fst (record_pre_vote_granted_from (co_election c) from)\<rparr>"
  note R = record_pre_vote_evolves [OF wf c1_def]
  have *: "c' = c \<or> c' = c1 \<or> co_term c < rvr_term r \<and> core_become_follower c (rvr_term r) eff = (c', eff')
      \<or> co_role c = PRE_CANDIDATE \<and> core_become_candidate c1 eff = (c', eff')"
    using run
    by (auto simp: handle_pre_vote_response_def is_pre_candidate_def Let_def case_prod_beta c1_def split: if_splits)
  have "election_step new c c1"
    by (rule election_step_same) (simp_all add: c1_def record_pre_vote_granted_from_def hard_state_def)
  moreover have "election_step new c c'" if "co_term c < rvr_term r" "core_become_follower c (rvr_term r) eff = (c', eff')"
    using core_become_follower_evolves(3) [OF wf _ that(2)] that(1) by (intro election_step_other) simp
  moreover have "election_step new c c'" if "co_role c = PRE_CANDIDATE" "core_become_candidate c1 eff = (c', eff')"
    using core_become_candidate_outcome [OF R(1) _ that(2)] R(3) that(1)
    by (auto intro: outcome_election_step election_step_other)
  ultimately show ?thesis
    using * by auto
qed

lemma handle_vote_response_election:
  assumes wf: "core_wf c" and run: "handle_vote_response c from r eff = (c', eff')"
  shows "election_step (vote_delivered c (EvVoteResponse from r)) c c'"
proof -
  define c1 where "c1 = c\<lparr>co_election := fst (record_vote_granted_from (co_election c) from)\<rparr>"
  let ?new = "vote_delivered c (EvVoteResponse from r)"
  have *: "c' = c \<or> co_term c < rvr_term r \<and> core_become_follower c (rvr_term r) eff = (c', eff')
      \<or> co_role c = CANDIDATE \<and> ?new = {from} \<and> (c' = c1
         \<or> has_quorum (co_membership c) (granted_vote_count (co_election c1)) \<and> core_become_leader c1 eff = (c', eff'))"
    using run is_voter_iff [OF core_wfD(3) [OF wf]]
    by (auto simp: handle_vote_response_def is_candidate_def Let_def case_prod_beta c1_def split: if_splits)
  have e1: "co_role c1 = co_role c" "co_term c1 = co_term c" "co_membership c1 = co_membership c"
      "el_granted_voters (co_election c1) = el_granted_voters (co_election c) \<union> {from}"
    by (auto simp: c1_def record_vote_granted_from_def)
  have s1: "election_step ?new c c1" if "co_role c = CANDIDATE" "?new = {from}"
    using that e1 by (auto simp: election_step_def)
  have s2: "election_step ?new c c'" if "co_term c < rvr_term r" "core_become_follower c (rvr_term r) eff = (c', eff')"
    using core_become_follower_evolves(3) [OF wf _ that(2)] that(1) by (intro election_step_other) simp
  have s3: "election_step ?new c c'" if "co_role c = CANDIDATE" "?new = {from}"
    "has_quorum (co_membership c) (granted_vote_count (co_election c1))" "core_become_leader c1 eff = (c', eff')"
  proof -
    note R = record_vote_evolves [OF wf that(1) c1_def]
    have cand: "co_role c1 = CANDIDATE"
      using e1(1) that(1) by simp
    note E = evolvesD [OF core_become_leader_evolves(2) [OF R(1) cand that(4)]]
    from core_become_leader_outcome [OF R(1) cand that(4)] show ?thesis
    proof
      assume "c' = c1"
      then show ?thesis
        using s1 that by simp
    qed (use that e1 E(2) in \<open>auto simp: election_step_def hard_state_def granted_vote_count_def\<close>)
  qed
  show ?thesis
    using * s1 s2 s3 by (auto simp del: vote_delivered.simps)
qed

text \<open>The other handlers keep the election state, or make the replica a follower.\<close>

lemma election_step_keep:
  "co_role c' = co_role c \<Longrightarrow> co_term c' = co_term c \<Longrightarrow>
   el_granted_voters (co_election c') = el_granted_voters (co_election c) \<Longrightarrow> election_step new c c'"
  by (auto simp: election_step_def)

lemma election_step_cong: "co_election c1 = co_election c \<Longrightarrow> election_step new c1 c' \<longleftrightarrow> election_step new c c'"
  by (simp add: election_step_def)

lemma follower_or_same_election:
  "co_role c' = FOLLOWER \<or> co_election c' = co_election c \<Longrightarrow> election_step new c c'"
  by (auto intro: election_step_other)

lemma step_up_if_later_role:
  assumes "core_wf c" and "co_term c \<le> t"
    and "(if t > co_term c \<or> P then core_become_follower c t eff else (c, eff)) = (c', eff')"
  shows "co_role c' = FOLLOWER \<or> co_election c' = co_election c"
  using step_up_if_later_evolves(7,8,10) [OF assms] assms(2) by (metis order_le_imp_less_or_eq)

lemma handle_append_entries_role:
  assumes "core_wf c" and "handle_append_entries c p eff = (c', eff', r)"
  shows "co_role c' = FOLLOWER \<or> co_election c' = co_election c"
proof (cases "contains_member (co_membership c) (ae_from p) \<and> \<not> ae_term p < co_term c")
  case False
  then have "c' = c"
    using assms(2) by (cases "contains_member (co_membership c) (ae_from p)") (simp_all add: handle_append_entries_def)
  then show ?thesis
    by simp
next
  case True
  obtain c0 eff1 where 0: "(if ae_term p > co_term c \<or> \<not> is_follower (co_election c)
      then core_become_follower c (ae_term p) eff else (c, eff)) = (c0, eff1)"
    by fastforce
  define c1 where "c1 = c0\<lparr>co_election_tick := fst (trigger_clear (co_election_tick c0)), co_recent_leader_active := True\<rparr>"
  obtain s l ar where app: "(if ae_entries p = [] then (OK, co_log c1, no_append_result)
      else append_entries_from_leader (co_log c1) (ae_entries p)) = (s, l, ar)"
    by (metis prod_cases3)
  have "co_election c' = co_election c1"
    using handle_append_entries_eq [OF _ _ 0 c1_def app] True assms(2) by (auto simp: Let_def split: if_splits)
  then show ?thesis
    using step_up_if_later_role [OF assms(1) _ 0] True by (simp add: c1_def)
qed

lemma prepare_install_snapshot_role:
  assumes "core_wf c" and "prepare_install_snapshot c p eff = (c', eff', s, w)"
  shows "co_role c' = FOLLOWER \<or> co_election c' = co_election c"
proof (cases "contains_member (co_membership c) (is_from p) \<and> \<not> is_term p < co_term c")
  case False
  then show ?thesis
    using assms(2) by (auto simp: prepare_install_snapshot_def split: if_splits)
next
  case True
  obtain c0 eff1 where 0: "(if is_term p > co_term c \<or> \<not> is_follower (co_election c)
      then core_become_follower c (is_term p) eff else (c, eff)) = (c0, eff1)"
    by fastforce
  have "co_election c' = co_election c0"
    using assms(2) True 0
    by (auto simp: prepare_install_snapshot_def mark_recent_leader_active_def Let_def split: if_splits)
  then show ?thesis
    using step_up_if_later_role [OF assms(1) _ 0] True by simp
qed

lemma handle_request_vote_election:
  assumes "core_wf c" and "handle_request_vote c p eff = (c', eff', r)"
  shows "election_step new c c'"
proof (cases "fail (ensure_vote_preconditions c p) \<or> rv_term p < co_term c")
  case True
  then show ?thesis
    using assms(2) by (auto simp: handle_request_vote_def)
next
  case False
  obtain c0 eff0 where 0: "(if rv_term p > co_term c \<or> False then core_become_follower c (rv_term p) eff
      else (c, eff)) = (c0, eff0)"
    by fastforce
  have "co_role c' = co_role c0 \<and> co_term c' = co_term c0
      \<and> el_granted_voters (co_election c') = el_granted_voters (co_election c0)"
    using assms(2) False 0 by (auto simp: handle_request_vote_def Let_def grant_vote_to_def split: if_splits)
  then show ?thesis
    using step_up_if_later_role [OF assms(1) _ 0] False
    by (metis election_step_keep election_step_other insertE empty_iff ReplicaRole.distinct(1,3) not_less)
qed

lemma handle_append_response_role:
  assumes "core_wf c" and "handle_append_response c from p r eff = (c', eff', s)"
  shows "co_role c' = FOLLOWER \<or> co_election c' = co_election c"
proof -
  define c1 where "c1 = c\<lparr>co_replication := handle_append_ok (co_replication c) from (ae_prev_log_index p)
      (length (ae_entries p))\<rparr>"
  have wf1: "core_wf c1"
    using assms(1) by (auto simp: c1_def intro!: core_wf_update_replication)
  obtain c3 eff3 where 3: "try_update_commit_index c1 eff = (c3, eff3)"
    by fastforce
  note S3 = try_update_commit_index_evolves [OF wf1 3]
  have *: "co_election c' = co_election c \<or> co_term c < aer_term r \<and> core_become_follower c (aer_term r) eff = (c', eff')
      \<or> maybe_promote_ready_learner c3 eff3 = (c', eff')"
    using assms(2) 3 by (auto simp: handle_append_response_def Let_def c1_def split: if_splits prod.splits)
  have e: "co_election c3 = co_election c"
    using S3(3) by (simp add: c1_def)
  show ?thesis
    using * maybe_promote_ready_learner_evolves(3) [OF S3(1)] e core_become_follower_evolves(3) [OF assms(1)]
    by (metis order_less_imp_le)
qed

lemma core_tick_election:
  assumes "core_wf c" and "core_tick c eff = (c', eff')"
  shows "election_step new c c'"
proof -
  define c1 where "c1 = c\<lparr>co_heartbeat_tick := fst (trigger_tick (co_heartbeat_tick c))\<rparr>"
  define c2 where "c2 = c\<lparr>co_election_tick := fst (trigger_tick (co_election_tick c))\<rparr>"
  have wf: "core_wf c1" "core_wf c2"
    using assms(1) trigger_tick_wf [OF core_wfD(7) [OF assms(1)]] trigger_tick_wf [OF core_wfD(8) [OF assms(1)]]
    by (simp_all add: c1_def c2_def core_wf_def)
  have e: "co_election c1 = co_election c" "co_election c2 = co_election c"
    by (simp_all add: c1_def c2_def)
  obtain c3 eff3 where 3: "core_broadcast_append_entries c1 eff = (c3, eff3)"
    by fastforce
  note S3 = core_broadcast_evolves [OF wf(1) 3]
  have *: "c' = c \<or> c' = c2 \<or> maybe_promote_ready_learner c3 eff3 = (c', eff')
      \<or> maybe_promote_ready_learner c1 eff = (c', eff') \<or> core_become_pre_candidate c2 eff = (c', eff')"
    using assms(2) 3 by (auto simp: core_tick_def Let_def case_prod_beta c1_def c2_def split: if_splits)
  have "maybe_promote_ready_learner c3 eff3 = (c', eff') \<Longrightarrow> co_election c' = co_election c"
      "maybe_promote_ready_learner c1 eff = (c', eff') \<Longrightarrow> co_election c' = co_election c"
    using maybe_promote_ready_learner_evolves(3) [OF S3(1)] maybe_promote_ready_learner_evolves(3) [OF wf(1)] S3(3) e(1)
    by metis+
  then show ?thesis
    using * e(2) core_become_pre_candidate_election [OF wf(2)] election_step_cong [OF e(2)] election_step_refl by blast
qed

lemma apply_config_entry_role:
  assumes "apply_config_entry c e = (c', s)"
  shows "co_role c' = FOLLOWER \<or> co_election c' = co_election c"
  using assms
proof (cases rule: apply_config_entry_cases)
  case (2 ms)
  then show ?thesis
    by (auto simp: advance_last_applied_def step_down_if_become_non_member_def clear_recent_leader_active_def Let_def
        is_follower_def become_follower_def)
qed simp

lemma raft_step_election:
  assumes wf: "core_wf c" and step: "raft_step c ev = (c', eff)"
  shows "election_step (vote_delivered c ev) c c'"
proof (cases ev)
  case EvTick
  then show ?thesis
    using step core_tick_election [OF wf] by simp
next
  case (EvPropose p)
  then show ?thesis
    using step propose_evolves(3) [OF wf] by (auto split: prod.splits)
next
  case (EvProposeBatch ps)
  then show ?thesis
    using step propose_batch_evolves(3) [OF wf] by (auto split: prod.splits)
next
  case (EvRequestVote p)
  then show ?thesis
    using step handle_request_vote_election [OF wf] by (auto split: prod.splits)
next
  case (EvAppendEntries p)
  then show ?thesis
    using step by (auto intro!: follower_or_same_election dest: handle_append_entries_role [OF wf] split: prod.splits)
next
  case (EvVoteResponse src r)
  then show ?thesis
    using step handle_vote_response_election [OF wf] by simp
next
  case (EvPreVoteResponse src r)
  then show ?thesis
    using step handle_pre_vote_response_election [OF wf] by simp
next
  case (EvAppendResponse src p r)
  then show ?thesis
    using step by (auto intro!: follower_or_same_election dest: handle_append_response_role [OF wf] split: prod.splits)
next
  case (EvInstallSnapshotResponse src p r)
  have "(co_election c' = co_election c) \<or> co_term c < isr_term r \<and> core_become_follower c (isr_term r) no_effects = (c', eff)"
    using step EvInstallSnapshotResponse by (auto simp: handle_install_snapshot_response_def Let_def split: if_splits)
  then show ?thesis
    using core_become_follower_evolves(3) [OF wf] by (metis follower_or_same_election order_less_imp_le)
next
  case (EvInstallSnapshotSendFailed src p)
  then show ?thesis
    using step by (auto simp: handle_install_snapshot_send_failed_def)
next
  case (EvPrepareInstallSnapshot p)
  then show ?thesis
    using step by (auto intro!: follower_or_same_election dest: prepare_install_snapshot_role [OF wf] split: prod.splits)
next
  case (EvInstallSnapshot h)
  then show ?thesis
    using step by (auto simp: core_install_snapshot_def install_snapshot_into_log_def Let_def case_prod_beta)
next
  case (EvAddLearner p)
  then show ?thesis
    using step by (auto intro!: follower_or_same_election dest: ensure_change_evolves(3) [OF wf, OF disjI1]
        ensure_change_evolves(3) [OF wf, OF disjI2] split: prod.splits)
next
  case (EvRemoveMember r)
  then show ?thesis
    using step by (auto intro!: follower_or_same_election dest: ensure_change_evolves(3) [OF wf, OF disjI1]
        ensure_change_evolves(3) [OF wf, OF disjI2] split: prod.splits)
next
  case (EvApplyConfig e)
  then show ?thesis
    using step apply_config_entry_role [of c e "fst (apply_config_entry c e)" "snd (apply_config_entry c e)"]
    by (auto intro!: follower_or_same_election)
next
  case (EvAdvanceApplied i)
  then show ?thesis
    using step by (auto simp: advance_last_applied_def)
next
  case (EvTruncateLog i)
  then show ?thesis
    using step by (auto simp: truncate_log_def case_prod_beta Let_def)
qed

section \<open>Recovery\<close>

text \<open>
  The core after a restart: the constructor, then the recovered snapshot, hard state and log entries in
  the order of \<^verbatim>\<open>ReplicaLoop::handle_call(RecoverCall)\<close>.
\<close>

definition recover_core :: "RaftCore \<Rightarrow> SnapshotHeader option \<Rightarrow> RaftMeta \<Rightarrow> LogEntry list \<Rightarrow> bool \<Rightarrow> RaftCore" where
  "recover_core c snapshot meta wal_entries need_recover =
    (let c1 = (case snapshot of None \<Rightarrow> c | Some h \<Rightarrow> fst (core_install_snapshot c h no_effects));
         c2 = update_raft_meta c1 meta;
         c3 = update_log_entries c2 wal_entries
     in if need_recover then enter_recovering c3 else c3)"

definition recovered_snapshot_index :: "SnapshotHeader option \<Rightarrow> LogIndex" where
  "recovered_snapshot_index snapshot = (case snapshot of None \<Rightarrow> 0 | Some h \<Rightarrow> sh_apply_index h)"

definition recovered_ok :: "SnapshotHeader option \<Rightarrow> RaftMeta \<Rightarrow> LogEntry list \<Rightarrow> bool" where
  "recovered_ok snapshot meta wal_entries \<longleftrightarrow>
     0 \<le> rmeta_current_term meta \<and> contiguous (recovered_snapshot_index snapshot + 1) wal_entries
     \<and> (\<forall>h. snapshot = Some h \<longrightarrow> 0 \<le> sh_apply_index h \<and> members_wf (sh_members h))"

lemma new_RaftCore_sel [simp]:
  "co_self_id (new_RaftCore timeout self members) = self"
  "co_role (new_RaftCore timeout self members) = FOLLOWER"
  "co_term (new_RaftCore timeout self members) = 0"
  "el_voted_for (co_election (new_RaftCore timeout self members)) = None"
  "co_membership (new_RaftCore timeout self members) = reset_voters members"
  "co_commit (new_RaftCore timeout self members) = 0"
  "co_applied (new_RaftCore timeout self members) = 0"
  "rl_snapshot_index (co_log (new_RaftCore timeout self members)) = 0"
  by (simp_all add: new_RaftCore_def new_RaftElection_def new_RaftApply_def new_RaftLog_def)

lemma new_RaftCore_restored:
  assumes wf: "core_wf (new_RaftCore timeout self members)" and ok: "recovered_ok snapshot meta es"
  defines "c1 \<equiv> case snapshot of None \<Rightarrow> new_RaftCore timeout self members
    | Some h \<Rightarrow> fst (core_install_snapshot (new_RaftCore timeout self members) h no_effects)"
  shows "core_wf c1 \<and> co_election c1 = co_election (new_RaftCore timeout self members) \<and> co_self_id c1 = self
    \<and> rl_snapshot_index (co_log c1) = recovered_snapshot_index snapshot
    \<and> co_applied c1 = recovered_snapshot_index snapshot \<and> co_commit c1 = recovered_snapshot_index snapshot
    \<and> co_membership c1 = (case snapshot of Some h \<Rightarrow> if sh_members h = [] then reset_voters members else sh_members h
        | None \<Rightarrow> reset_voters members)"
proof (cases snapshot)
  case None
  then show ?thesis
    using wf by (simp add: c1_def recovered_snapshot_index_def)
next
  case (Some h)
  define c where "c = new_RaftCore timeout self members"
  have sel: "co_self_id c = self" "co_membership c = reset_voters members" "co_commit c = 0" "co_applied c = 0"
      "co_role c = FOLLOWER" "core_wf c"
    using wf by (simp_all add: c_def)
  have h: "0 \<le> sh_apply_index h" "members_wf (sh_members h)"
    using ok Some by (simp_all add: recovered_ok_def)
  obtain c' eff' where run: "core_install_snapshot c h no_effects = (c', eff')"
    by fastforce
  note I = core_install_snapshot_wf [OF sel(6) _ h(2) sel(5) run, unfolded sel(3), OF h(1)]
  have "co_self_id c' = self \<and> co_applied c' = sh_apply_index h \<and> co_commit c' = sh_apply_index h
      \<and> co_membership c' = (if sh_members h = [] then reset_voters members else sh_members h)"
    using run sel h(1)
    by (auto simp: core_install_snapshot_def install_snapshot_into_log_def apply_install_snapshot_def Let_def
        case_prod_beta)
  then show ?thesis
    using I run by (simp add: c1_def Some recovered_snapshot_index_def flip: c_def)
qed

lemma recover_core_wf:
  assumes ids: "distinct (map pm_replica_id members)" and tmo: "timeouts_ok timeout"
    and ok: "recovered_ok snapshot meta es"
    and c': "c' = recover_core (new_RaftCore timeout self members) snapshot meta es need"
  shows "core_wf c'" "hard_state (co_election c') = meta" "co_role c' = FOLLOWER" "co_self_id c' = self"
    "rl_log_entries (co_log c') = es" "rl_snapshot_index (co_log c') = recovered_snapshot_index snapshot"
    "co_membership c' = (case snapshot of Some h \<Rightarrow> if sh_members h = [] then reset_voters members else sh_members h
      | None \<Rightarrow> reset_voters members)"
proof -
  let ?c = "new_RaftCore timeout self members"
  define c1 where "c1 = (case snapshot of None \<Rightarrow> ?c | Some h \<Rightarrow> fst (core_install_snapshot ?c h no_effects))"
  have wf0: "core_wf ?c"
    using ids tmo by (simp add: new_RaftCore_wf timeouts_ok_def)
  have 1: "core_wf c1" "co_election c1 = co_election ?c" "co_self_id c1 = self"
      "rl_snapshot_index (co_log c1) = recovered_snapshot_index snapshot"
      "co_applied c1 = recovered_snapshot_index snapshot" "co_commit c1 = recovered_snapshot_index snapshot"
      "co_membership c1 = (case snapshot of Some h \<Rightarrow> if sh_members h = [] then reset_voters members else sh_members h
        | None \<Rightarrow> reset_voters members)"
    using new_RaftCore_restored [OF wf0 ok] unfolding c1_def by blast+
  define c3 where "c3 = update_log_entries (update_raft_meta c1 meta) es"
  have e3: "election_wf (co_election c3)"
    using core_wfD(2) [OF wf0] ok 1(2)
    by (simp add: c3_def update_log_entries_def update_raft_meta_def update_meta_def election_wf_def recovered_ok_def)
  have l3: "log_wf (co_log c3)" "rl_snapshot_index (co_log c3) = recovered_snapshot_index snapshot"
      "rl_log_entries (co_log c3) = es"
    using log_wfD(1) [OF core_wfD(1) [OF 1(1)]] ok 1(4)
    by (simp_all add: c3_def update_log_entries_def update_raft_meta_def log_wf_def recovered_ok_def
        update_entries_def rebuild_request_index_def)
  have r3: "co_role c3 = FOLLOWER"
    using 1(2) by (simp add: c3_def update_log_entries_def update_raft_meta_def update_meta_def)
  have "0 \<le> int (length es)"
    by simp
  then have a3: "apply_wf (co_log c3) (co_apply c3)"
    using 1(5,6) l3 log_wfD(1) [OF l3(1)]
    by (simp add: apply_wf_def last_log_index_wf [OF l3(1)]) (simp add: c3_def update_log_entries_def update_raft_meta_def)
  have 3: "core_wf c3" "hard_state (co_election c3) = meta" "co_self_id c3 = self" "co_membership c3 = co_membership c1"
    using 1(1,3) e3 l3(1) a3 r3
    by (simp_all add: core_wf_def c3_def update_log_entries_def update_raft_meta_def update_meta_def hard_state_def)
  have c'3: "c' = (if need then enter_recovering c3 else c3)"
    by (simp add: c' recover_core_def c3_def c1_def Let_def)
  show "core_wf c'" "hard_state (co_election c') = meta" "co_role c' = FOLLOWER" "co_self_id c' = self"
      "rl_log_entries (co_log c') = es" "rl_snapshot_index (co_log c') = recovered_snapshot_index snapshot"
      "co_membership c' = (case snapshot of Some h \<Rightarrow> if sh_members h = [] then reset_voters members else sh_members h
        | None \<Rightarrow> reset_voters members)"
    using 3 l3 r3 1(7)
    by (auto simp: c'3 enter_recovering_def clear_recent_leader_active_def become_follower_def hard_state_def
        core_wf_def Let_def election_wf_def)
qed

section \<open>The cluster\<close>

text \<open>
  The replicas, the vote responses the network has ever carried, and two histories that no replica reads:
  the votes that were cast, as term, voter and candidate, and the replicas that led, with their terms.
\<close>

record Cluster =
  cl_nodes :: "ReplicaID \<Rightarrow> RaftCore"
  cl_responses :: "(ReplicaID \<times> ReplicaID \<times> RequestVoteResult) set"
  cl_votes :: "(Term \<times> ReplicaID \<times> ReplicaID) set"
  cl_leaders :: "(Term \<times> ReplicaID) set"

definition cluster_start :: "(ReplicaID \<Rightarrow> nat \<Rightarrow> int) \<Rightarrow> PeerMember list \<Rightarrow> Cluster" where
  "cluster_start timeout members = \<lparr>cl_nodes = (\<lambda>r. new_RaftCore (timeout r) r members), cl_responses = {},
     cl_votes = {}, cl_leaders = {}\<rparr>"

definition node_moves :: "Cluster \<Rightarrow> ReplicaID \<Rightarrow> RaftCore \<Rightarrow> Cluster" where
  "node_moves s r c' = s\<lparr>cl_nodes := (cl_nodes s)(r := c'),
     cl_votes := cl_votes s \<union> {(t, v, x). t = co_term c' \<and> v = r \<and> el_voted_for (co_election c') = Some x},
     cl_leaders := cl_leaders s \<union> {(t, l). t = co_term c' \<and> l = r \<and> co_role c' = LEADER}\<rparr>"

text \<open>
  A replica handles an event; a vote response it handles was produced by the voter it names, for it.  A
  vote request may come from anywhere, and its response enters the network.  A restarted replica has the
  hard state it had; its log and snapshot are any that recovery accepts.
\<close>

inductive cluster_reachable :: "(ReplicaID \<Rightarrow> nat \<Rightarrow> int) \<Rightarrow> PeerMember list \<Rightarrow> Cluster \<Rightarrow> bool"
  for timeout :: "ReplicaID \<Rightarrow> nat \<Rightarrow> int" and members :: "PeerMember list" where
  cluster_init: "cluster_reachable timeout members (cluster_start timeout members)"
| cluster_event: "cluster_reachable timeout members s \<Longrightarrow> event_ok (cl_nodes s r) ev \<Longrightarrow>
    (\<And>from res. ev = EvVoteResponse from res \<Longrightarrow> (from, r, res) \<in> cl_responses s) \<Longrightarrow>
    raft_step (cl_nodes s r) ev = (c', eff) \<Longrightarrow> co_membership c' = reset_voters members \<Longrightarrow>
    cluster_reachable timeout members (node_moves s r c')"
| cluster_vote: "cluster_reachable timeout members s \<Longrightarrow>
    handle_request_vote (cl_nodes s r) p no_effects = (c', eff, res) \<Longrightarrow>
    cluster_reachable timeout members
      ((node_moves s r c')\<lparr>cl_responses := insert (r, rv_from p, res) (cl_responses s)\<rparr>)"
| cluster_restart: "cluster_reachable timeout members s \<Longrightarrow> timeouts_ok draws \<Longrightarrow>
    recovered_ok snapshot (hard_state (co_election (cl_nodes s r))) entries \<Longrightarrow>
    (\<And>h. snapshot = Some h \<Longrightarrow> sh_members h \<in> {[], reset_voters members}) \<Longrightarrow>
    cluster_reachable timeout members (node_moves s r
      (recover_core (new_RaftCore draws r members) snapshot (hard_state (co_election (cl_nodes s r))) entries need))"

definition elected :: "RaftMembership \<Rightarrow> Cluster \<Rightarrow> Term \<Rightarrow> ReplicaID \<Rightarrow> bool" where
  "elected ms s t r \<longleftrightarrow> (\<exists>Q. voter_quorum ms Q \<and> (\<forall>v\<in>Q. (t, v, r) \<in> cl_votes s))"

definition cluster_inv :: "RaftMembership \<Rightarrow> Cluster \<Rightarrow> bool" where
  "cluster_inv ms s \<longleftrightarrow>
     (\<forall>r. core_wf (cl_nodes s r) \<and> co_self_id (cl_nodes s r) = r \<and> co_membership (cl_nodes s r) = ms)
     \<and> (\<forall>t r x. (t, r, x) \<in> cl_votes s \<longrightarrow> t \<le> co_term (cl_nodes s r)
          \<and> (t = co_term (cl_nodes s r) \<longrightarrow> el_voted_for (co_election (cl_nodes s r)) = Some x))
     \<and> (\<forall>t r x y. (t, r, x) \<in> cl_votes s \<and> (t, r, y) \<in> cl_votes s \<longrightarrow> x = y)
     \<and> (\<forall>r v. co_role (cl_nodes s r) = CANDIDATE \<and> v \<in> el_granted_voters (co_election (cl_nodes s r))
          \<longrightarrow> v \<in> voter_ids ms \<and> (co_term (cl_nodes s r), v, r) \<in> cl_votes s)
     \<and> (\<forall>v x res. (v, x, res) \<in> cl_responses s \<and> rvr_vote_granted res \<longrightarrow> (rvr_term res, v, x) \<in> cl_votes s)
     \<and> (\<forall>t r. (t, r) \<in> cl_leaders s \<longrightarrow> elected ms s t r)
     \<and> (\<forall>r. co_role (cl_nodes s r) = LEADER \<longrightarrow> (co_term (cl_nodes s r), r) \<in> cl_leaders s)"

lemma cluster_invD:
  assumes "cluster_inv ms s"
  shows "core_wf (cl_nodes s r)" "co_self_id (cl_nodes s r) = r" "co_membership (cl_nodes s r) = ms"
    "(t, r, x) \<in> cl_votes s \<Longrightarrow> t \<le> co_term (cl_nodes s r)"
    "(co_term (cl_nodes s r), r, x) \<in> cl_votes s \<Longrightarrow> el_voted_for (co_election (cl_nodes s r)) = Some x"
    "(t, r, x) \<in> cl_votes s \<Longrightarrow> (t, r, y) \<in> cl_votes s \<Longrightarrow> x = y"
    "co_role (cl_nodes s r) = CANDIDATE \<Longrightarrow> v \<in> el_granted_voters (co_election (cl_nodes s r)) \<Longrightarrow>
       v \<in> voter_ids ms \<and> (co_term (cl_nodes s r), v, r) \<in> cl_votes s"
    "(v, x, res) \<in> cl_responses s \<Longrightarrow> rvr_vote_granted res \<Longrightarrow> (rvr_term res, v, x) \<in> cl_votes s"
    "(t, r) \<in> cl_leaders s \<Longrightarrow> elected ms s t r"
    "co_role (cl_nodes s r) = LEADER \<Longrightarrow> (co_term (cl_nodes s r), r) \<in> cl_leaders s"
  using assms unfolding cluster_inv_def by blast+

lemma node_moves_sel [simp]:
  "cl_nodes (node_moves s r c') = (cl_nodes s)(r := c')" "cl_responses (node_moves s r c') = cl_responses s"
  "cl_votes (node_moves s r c') =
     cl_votes s \<union> {(t, v, x). t = co_term c' \<and> v = r \<and> el_voted_for (co_election c') = Some x}"
  "cl_leaders (node_moves s r c') = cl_leaders s \<union> {(t, l). t = co_term c' \<and> l = r \<and> co_role c' = LEADER}"
  by (simp_all add: node_moves_def)

lemma elected_mono: "elected ms s t r \<Longrightarrow> elected ms (node_moves s r' c') t r"
  unfolding elected_def by fastforce

section \<open>The invariant is kept\<close>

text \<open>One lemma for every way a replica moves: it keeps its vote, and its election state makes an election step.\<close>

lemma node_moves_votes:
  assumes inv: "cluster_inv ms s" and kept: "vote_kept (cl_nodes s r) c'"
    and vote: "(t, v, x) \<in> cl_votes (node_moves s r c')"
  shows "t \<le> co_term (((cl_nodes s)(r := c')) v)"
    "t = co_term (((cl_nodes s)(r := c')) v) \<Longrightarrow> el_voted_for (co_election (((cl_nodes s)(r := c')) v)) = Some x"
proof -
  show "t \<le> co_term (((cl_nodes s)(r := c')) v)"
    using vote cluster_invD(4) [OF inv, of t v x] kept by (auto simp: vote_kept_def)
  assume t: "t = co_term (((cl_nodes s)(r := c')) v)"
  show "el_voted_for (co_election (((cl_nodes s)(r := c')) v)) = Some x"
  proof (cases "(t, v, x) \<in> cl_votes s")
    case True
    have "v = r \<Longrightarrow> co_term c' = co_term (cl_nodes s r)"
      using cluster_invD(4) [OF inv True] t kept by (auto simp: vote_kept_def)
    then show ?thesis
      using True t cluster_invD(5) [OF inv, of v x] kept by (cases "v = r") (auto simp: vote_kept_def)
  next
    case False
    then show ?thesis
      using vote by simp
  qed
qed

lemma node_moves_elected:
  assumes inv: "cluster_inv ms s" and step: "election_step new (cl_nodes s r) c'"
    and self: "co_self_id c' = r" and ms: "co_membership c' = ms" and wf: "core_wf c'"
    and new: "\<And>v. v \<in> new \<Longrightarrow> v \<in> voter_ids ms \<and> (co_term (cl_nodes s r), v, r) \<in> cl_votes s" "finite new"
    and lead: "co_role c' = LEADER"
  shows "elected ms (node_moves s r c') (co_term c') r"
proof -
  let ?c = "cl_nodes s r" and ?s' = "node_moves s r c'"
  from step lead consider
      (led) "co_role ?c = LEADER" "co_term c' = co_term ?c"
    | (won) "co_role ?c = CANDIDATE" "co_term c' = co_term ?c"
        "has_quorum ms (int (card (el_granted_voters (co_election ?c) \<union> new)))"
    | (alone) "self_elected c'" "has_quorum ms 1"
    unfolding election_step_def ms by blast
  then show ?thesis
  proof cases
    case led
    then show ?thesis
      using elected_mono [OF cluster_invD(9) [OF inv cluster_invD(10) [OF inv led(1)]]] by simp
  next
    case won
    let ?Q = "el_granted_voters (co_election ?c) \<union> new"
    have "voter_quorum ms ?Q"
      using won(3) cluster_invD(7) [OF inv won(1)] new by (auto simp: voter_quorum_def)
    moreover have "\<forall>v\<in>?Q. (co_term c', v, r) \<in> cl_votes ?s'"
      using won(2) cluster_invD(7) [OF inv won(1)] new by auto
    ultimately show ?thesis
      unfolding elected_def by blast
  next
    case alone
    then have "voter_quorum ms {r} \<and> (co_term c', r, r) \<in> cl_votes ?s'"
      using self ms by (simp add: voter_quorum_def self_elected_def)
    then show ?thesis
      unfolding elected_def by blast
  qed
qed

lemma node_moves_granted:
  assumes inv: "cluster_inv ms s" and step: "election_step new (cl_nodes s r) c'"
    and self: "co_self_id c' = r" and ms: "co_membership c' = ms"
    and new: "\<And>v. v \<in> new \<Longrightarrow> v \<in> voter_ids ms \<and> (co_term (cl_nodes s r), v, r) \<in> cl_votes s"
    and cand: "co_role c' = CANDIDATE" and v: "v \<in> el_granted_voters (co_election c')"
  shows "v \<in> voter_ids ms \<and> (co_term c', v, r) \<in> cl_votes (node_moves s r c')"
proof -
  let ?c = "cl_nodes s r"
  from step cand consider
      (same) "co_role ?c = CANDIDATE" "co_term c' = co_term ?c" "v \<in> el_granted_voters (co_election ?c) \<union> new"
    | (alone) "el_granted_voters (co_election c') = {co_self_id c'}" "self_elected c'"
    using v unfolding election_step_def by blast
  then show ?thesis
  proof cases
    case same
    then show ?thesis
      using cluster_invD(7) [OF inv same(1)] new by auto
  next
    case alone
    then show ?thesis
      using v self ms by (simp add: self_elected_def)
  qed
qed

lemma node_moves_inv:
  assumes inv: "cluster_inv ms s" and kept: "vote_kept (cl_nodes s r) c'"
    and step: "election_step new (cl_nodes s r) c'"
    and c': "core_wf c'" "co_self_id c' = r" "co_membership c' = ms"
    and new: "\<And>v. v \<in> new \<Longrightarrow> v \<in> voter_ids ms \<and> (co_term (cl_nodes s r), v, r) \<in> cl_votes s" "finite new"
  shows "cluster_inv ms (node_moves s r c')"
proof -
  let ?s' = "node_moves s r c'"
  note votes = node_moves_votes [OF inv kept]
  have uniq: "x = y" if "(t, v, x) \<in> cl_votes ?s'" "(t, v, y) \<in> cl_votes ?s'" for t v x y
  proof (cases "(t, v, x) \<in> cl_votes s \<and> (t, v, y) \<in> cl_votes s")
    case True
    then show ?thesis
      using cluster_invD(6) [OF inv] by blast
  next
    case False
    then have "t = co_term (((cl_nodes s)(r := c')) v)"
      using that by auto
    then show ?thesis
      using votes(2) [OF that(1)] votes(2) [OF that(2)] by simp
  qed
  have granted: "v \<in> voter_ids ms \<and> (co_term (cl_nodes ?s' q), v, q) \<in> cl_votes ?s'"
    if "co_role (cl_nodes ?s' q) = CANDIDATE" "v \<in> el_granted_voters (co_election (cl_nodes ?s' q))" for q v
    using that node_moves_granted [OF inv step c'(2,3) new(1)] cluster_invD(7) [OF inv, of q v]
    by (cases "q = r") auto
  have leaders: "elected ms ?s' t q" if "(t, q) \<in> cl_leaders ?s'" for t q
    using that elected_mono [OF cluster_invD(9) [OF inv]] node_moves_elected [OF inv step c'(2,3,1) new] by auto
  have now: "(co_term (cl_nodes ?s' q), q) \<in> cl_leaders ?s'" if "co_role (cl_nodes ?s' q) = LEADER" for q
    using that cluster_invD(10) [OF inv] by (cases "q = r") auto
  have nodes: "core_wf (cl_nodes ?s' q) \<and> co_self_id (cl_nodes ?s' q) = q \<and> co_membership (cl_nodes ?s' q) = ms" for q
    using c' cluster_invD(1-3) [OF inv] by simp
  have responses: "(rvr_term res, v, x) \<in> cl_votes ?s'" if "(v, x, res) \<in> cl_responses ?s'" "rvr_vote_granted res" for v x res
    using that cluster_invD(8) [OF inv] by simp
  show ?thesis
    unfolding cluster_inv_def using nodes votes uniq granted responses leaders now
    by (simp only: node_moves_sel(1)) blast
qed

lemma raft_step_self:
  assumes wf: "core_wf c" and ok: "event_ok c ev" and step: "raft_step c ev = (c', eff)"
  shows "co_self_id c' = co_self_id c"
proof (cases ev)
  case (EvAppendEntries p)
  then obtain r where run: "handle_append_entries c p no_effects = (c', eff, r)"
    using step by (auto split: prod.splits)
  have "contiguous (ae_prev_log_index p + 1) (ae_entries p)"
    using ok EvAppendEntries by (simp add: batch_ok_def)
  from wf this run show ?thesis
  proof (cases rule: handle_append_entries_cases)
    case rejected
    then show ?thesis
      using evolvesD(1) by blast
  next
    case (accepted c1 eff1 l ar)
    then show ?thesis
      using evolvesD(1) [OF accepted(2)] by simp
  qed
next
  case (EvApplyConfig e)
  obtain d s where d: "apply_config_entry c e = (d, s)"
    by fastforce
  from d have "co_self_id d = co_self_id c"
  proof (cases rule: apply_config_entry_cases)
    case (2 ms)
    then show ?thesis
      by (simp add: advance_last_applied_def step_down_if_become_non_member_def clear_recent_leader_active_def Let_def)
  qed simp
  then show ?thesis
    using step EvApplyConfig d by auto
next
  case (EvInstallSnapshot h)
  then show ?thesis
    using step by (auto simp: core_install_snapshot_def install_snapshot_into_log_def Let_def case_prod_beta)
next
  case (EvAdvanceApplied i)
  then show ?thesis
    using step by (auto simp: advance_last_applied_def)
next
  case (EvTruncateLog i)
  then show ?thesis
    using step by (auto simp: truncate_log_def case_prod_beta Let_def)
next
  case (EvAddLearner p)
  then show ?thesis
    using step by (auto dest: ensure_change_evolves(2) [OF wf, OF disjI1, THEN evolvesD(1)] split: prod.splits)
next
  case (EvRemoveMember p)
  then show ?thesis
    using step by (auto dest: ensure_change_evolves(2) [OF wf, OF disjI2, THEN evolvesD(1)] split: prod.splits)
qed (use step in \<open>auto simp: handle_install_snapshot_send_failed_def split: prod.splits
      dest: core_tick_evolves(2) [OF wf, THEN evolvesD(1)]
        propose_evolves(2) [OF wf, THEN evolvesD(1)]
        propose_batch_evolves(2) [OF wf, THEN evolvesD(1)]
        handle_request_vote_evolves(2) [OF wf, THEN evolvesD(1)]
        handle_append_response_evolves(2) [OF wf, THEN evolvesD(1)]
        prepare_install_snapshot_evolves(2) [OF wf, THEN evolvesD(1)]
        handle_vote_response_evolves(2) [OF wf, THEN evolvesD(1)]
        handle_pre_vote_response_evolves(2) [OF wf, THEN evolvesD(1)]
        handle_install_snapshot_response_evolves(2) [OF wf, THEN evolvesD(1)]\<close>)

lemma response_inv:
  assumes "cluster_inv ms s" and "rvr_vote_granted res \<Longrightarrow> (rvr_term res, v, x) \<in> cl_votes s"
  shows "cluster_inv ms (s\<lparr>cl_responses := insert (v, x, res) (cl_responses s)\<rparr>)"
proof -
  have "elected ms (s\<lparr>cl_responses := R\<rparr>) t r = elected ms s t r" for R t r
    by (simp add: elected_def)
  then show ?thesis
    using assms unfolding cluster_inv_def by auto
qed

lemma vote_request_inv:
  assumes inv: "cluster_inv ms s" and run: "handle_request_vote (cl_nodes s r) p no_effects = (c', eff, res)"
  shows "cluster_inv ms ((node_moves s r c')\<lparr>cl_responses := insert (r, rv_from p, res) (cl_responses s)\<rparr>)"
proof -
  note V = handle_request_vote_evolves [OF cluster_invD(1) [OF inv] run]
  have "cluster_inv ms (node_moves s r c')"
  proof (rule node_moves_inv [OF inv, where new = "{}"])
    show "vote_kept (cl_nodes s r) c'" "election_step {} (cl_nodes s r) c'"
      using V(2) run by (simp_all add: evolves_vote_kept handle_request_vote_election [OF cluster_invD(1) [OF inv]])
    show "co_self_id c' = r" "co_membership c' = ms"
      using evolvesD(1,2) [OF V(2)] cluster_invD(2,3) [OF inv] by simp_all
  qed (use V(1) in simp_all)
  moreover have "rvr_vote_granted res \<Longrightarrow> (rvr_term res, r, rv_from p) \<in> cl_votes (node_moves s r c')"
    using V(4,5) by simp
  ultimately show ?thesis
    using response_inv [of ms "node_moves s r c'" res r "rv_from p"] by (simp only: node_moves_sel(2))
qed

lemma restart_inv:
  assumes inv: "cluster_inv (reset_voters members) s" and ids: "distinct (map pm_replica_id members)"
    and tmo: "timeouts_ok draws" and ok: "recovered_ok snapshot (hard_state (co_election (cl_nodes s r))) entries"
    and ms: "\<And>h. snapshot = Some h \<Longrightarrow> sh_members h \<in> {[], reset_voters members}"
  shows "cluster_inv (reset_voters members) (node_moves s r
      (recover_core (new_RaftCore draws r members) snapshot (hard_state (co_election (cl_nodes s r))) entries need))"
    (is "cluster_inv _ (node_moves s r ?c')")
proof -
  note R = recover_core_wf [OF ids tmo ok refl, of r need]
  show ?thesis
  proof (rule node_moves_inv [OF inv, where new = "{}"])
    show "vote_kept (cl_nodes s r) ?c'"
      by (rule same_hard_state_kept [OF R(2)])
    show "election_step {} (cl_nodes s r) ?c'"
      by (rule election_step_other) (simp add: R(3))
    show "co_membership ?c' = reset_voters members"
      using R(7) ms by (auto split: option.splits)
  qed (use R(1,4) in simp_all)
qed

lemma event_inv:
  assumes inv: "cluster_inv ms s" and ok: "event_ok (cl_nodes s r) ev"
    and delivered: "\<And>src res. ev = EvVoteResponse src res \<Longrightarrow> (src, r, res) \<in> cl_responses s"
    and step: "raft_step (cl_nodes s r) ev = (c', eff)" and ms: "co_membership c' = ms"
  shows "cluster_inv ms (node_moves s r c')"
proof (rule node_moves_inv [OF inv])
  note I = cluster_invD(1-3) [OF inv, of r]
  show "vote_kept (cl_nodes s r) c'" "core_wf c'"
    using raft_step_ok [OF I(1) ok step] by (simp_all add: step_ok_def)
  show "election_step (vote_delivered (cl_nodes s r) ev) (cl_nodes s r) c'"
    by (rule raft_step_election [OF I(1) step])
  show "co_self_id c' = r"
    using raft_step_self [OF I(1) ok step] I(2) by simp
  show "finite (vote_delivered (cl_nodes s r) ev)"
    by (cases ev) auto
  show "v \<in> voter_ids ms \<and> (co_term (cl_nodes s r), v, r) \<in> cl_votes s"
    if "v \<in> vote_delivered (cl_nodes s r) ev" for v
    using that delivered I(3) by (cases ev) (auto dest: cluster_invD(8) [OF inv] split: if_splits)
qed (fact ms)

lemma cluster_start_inv:
  assumes "distinct (map pm_replica_id members)" and "\<And>r. timeouts_ok (timeout r)"
  shows "cluster_inv (reset_voters members) (cluster_start timeout members)"
  using assms by (simp add: cluster_inv_def cluster_start_def new_RaftCore_wf timeouts_ok_def)

lemma cluster_reachable_inv:
  assumes "cluster_reachable timeout members s"
    and "distinct (map pm_replica_id members)" and "\<And>r. timeouts_ok (timeout r)"
  shows "cluster_inv (reset_voters members) s"
  using assms
proof (induction rule: cluster_reachable.induct)
  case cluster_init
  then show ?case
    by (simp add: cluster_start_inv)
next
  case (cluster_event s r ev c' eff)
  then show ?case
    using event_inv [of "reset_voters members" s r ev c' eff] by simp
next
  case (cluster_vote s r p c' eff res)
  then show ?case
    by (intro vote_request_inv) simp_all
next
  case (cluster_restart s draws snapshot r entries need)
  then show ?case
    by (intro restart_inv) simp_all
qed

text \<open>Two quorums of one term share a voter, and a voter votes once: the winner is unique.\<close>

lemma elected_unique:
  assumes "cluster_inv ms s" and "elected ms s t a" and "elected ms s t b"
  shows "a = b"
proof -
  obtain A B where A: "voter_quorum ms A" "\<And>v. v \<in> A \<Longrightarrow> (t, v, a) \<in> cl_votes s"
      and B: "voter_quorum ms B" "\<And>v. v \<in> B \<Longrightarrow> (t, v, b) \<in> cl_votes s"
    using assms(2,3) unfolding elected_def by blast
  have "members_wf ms"
    using core_wfD(3) [OF cluster_invD(1) [OF assms(1)]] cluster_invD(3) [OF assms(1)] by simp
  from membership.same_config_meet [OF this A(1) B(1)] obtain v where "v \<in> A" "v \<in> B"
    by blast
  then show ?thesis
    using A(2) B(2) cluster_invD(6) [OF assms(1)] by blast
qed

section \<open>Election safety\<close>

text \<open>C12. A term has at most one leader.  In every state a group of replicas with a fixed membership can
  reach, with messages lost, repeated and reordered and with replicas restarting from their stored hard
  state, two replicas that lead or ever led in the same term are the same replica.\<close>

theorem election_safety:
  assumes "cluster_reachable timeout members s"
    and "distinct (map pm_replica_id members)" and "\<And>r. timeouts_ok (timeout r)"
  shows "((t, a) \<in> cl_leaders s \<and> (t, b) \<in> cl_leaders s \<longrightarrow> a = b)
    \<and> (co_role (cl_nodes s a) = LEADER \<longrightarrow> (co_term (cl_nodes s a), a) \<in> cl_leaders s)"
  using cluster_reachable_inv [OF assms] elected_unique cluster_invD(9,10) by blast

text \<open>A replica that is alone in its group leads after its election timeout.\<close>

lemma cluster_ticks:
  assumes "distinct (map pm_replica_id members)" and "\<And>r. timeouts_ok (timeout r)"
  shows "cluster_reachable timeout members s \<Longrightarrow>
    \<exists>s'. cluster_reachable timeout members s' \<and> cl_nodes s' r = fst (run_ticks n (cl_nodes s r))"
proof (induction n arbitrary: s)
  case (Suc n)
  note I = cluster_invD(1,3) [OF cluster_reachable_inv [OF Suc.prems assms], of r]
  obtain c1 eff where step: "raft_step (cl_nodes s r) EvTick = (c1, eff)"
    by fastforce
  have ms: "co_membership c1 = reset_voters members"
    using evolvesD(2) [OF core_tick_evolves(2) [OF I(1)], of no_effects c1 eff] step I(2) by simp
  have "cluster_reachable timeout members (node_moves s r c1)"
    by (rule cluster_event [OF Suc.prems _ _ step ms]) simp_all
  from Suc.IH [OF this] show ?case
    using step by (auto simp: case_prod_beta Let_def)
qed auto

definition demo_solo :: Cluster where
  "demo_solo = cluster_start (\<lambda>r. demo_timeout) [demo_peer 1]"

lemma demo_solo_electable:
  "electable (cl_nodes demo_solo (demo_id 1))" "has_quorum (co_membership (cl_nodes demo_solo (demo_id 1))) 1"
proof -
  define c where "c = new_RaftCore demo_timeout (demo_id 1) [demo_peer 1]"
  have "core_wf c"
    unfolding c_def using demo_timeouts_ok by (intro new_RaftCore_wf) (simp_all add: timeouts_ok_def)
  moreover have "\<not> co_recovering c" "\<not> tt_stop_flag (co_election_tick c)"
    by (simp_all add: c_def new_RaftCore_def new_TickTrigger_func_def make_next_limit_def)
  moreover have "co_self_id c = demo_id 1" "co_role c = FOLLOWER" "co_membership c = reset_voters [demo_peer 1]"
    by (simp_all add: c_def)
  moreover have "demo_id 1 \<in> voter_ids (reset_voters [demo_peer 1])" "has_quorum (reset_voters [demo_peer 1]) 1"
    by (simp_all add: is_raft_voter_def has_quorum_def quorum_size_def voters_def)
  ultimately show "electable (cl_nodes demo_solo (demo_id 1))"
      "has_quorum (co_membership (cl_nodes demo_solo (demo_id 1))) 1"
    by (simp_all add: demo_solo_def cluster_start_def electable_def flip: c_def)
qed

theorem election_safety_witness:
  "\<exists>s. cluster_reachable (\<lambda>r. demo_timeout) [demo_peer 1] s \<and> (1, demo_id 1) \<in> cl_leaders s
     \<and> (\<forall>b. (1, b) \<in> cl_leaders s \<longrightarrow> b = demo_id 1)"
proof -
  let ?c = "cl_nodes demo_solo (demo_id 1)"
  have setting: "distinct (map pm_replica_id [demo_peer 1])" "\<And>r::ReplicaID. timeouts_ok demo_timeout"
    using demo_timeouts_ok by simp_all
  have start: "cluster_reachable (\<lambda>r. demo_timeout) [demo_peer 1] demo_solo"
    by (simp add: demo_solo_def cluster_init)
  have "fst (run_ticks (ticks_left ?c) ?c) = fst (core_become_pre_candidate (timed_out ?c) no_effects)"
    by (simp add: run_ticks_timeout [OF demo_solo_electable(1)] case_prod_beta Let_def)
  moreover have "co_term ?c = 0"
    by (simp add: demo_solo_def cluster_start_def)
  ultimately have lead: "co_role (fst (run_ticks (ticks_left ?c) ?c)) = LEADER"
      "co_term (fst (run_ticks (ticks_left ?c) ?c)) = 1"
    using only_voter_elects_itself [OF demo_solo_electable, of "fst (core_become_pre_candidate (timed_out ?c) no_effects)"
        "snd (core_become_pre_candidate (timed_out ?c) no_effects)"] by simp_all
  obtain s where s: "cluster_reachable (\<lambda>r. demo_timeout) [demo_peer 1] s"
      "cl_nodes s (demo_id 1) = fst (run_ticks (ticks_left ?c) ?c)"
    using cluster_ticks [OF setting start] by blast
  show ?thesis
    using election_safety [OF s(1) setting] s lead by (intro exI [of _ s]) metis
qed

end
