(* ===== verification/Persist_Engine.thy ===== *)
theory Persist_Engine
  imports Wal_Store Snapshot_Safety Raft_Cluster
begin

text \<open>
  The persistence of one replica (\<^verbatim>\<open>storage/persist/persist_engine.cpp\<close>,
  \<^verbatim>\<open>storage/persist/replica_meta_persist_engine.cpp\<close>): the write-ahead log, the stored hard state and the
  snapshot under one directory, and the description of the replica.  The stores implement what the effect
  executor relies on, so a replica that answered before a crash comes back with what it answered for.
\<close>

section \<open>The engine\<close>

record PersistEngine =
  pe_data_dir :: string
  pe_dir_path :: string
  pe_replica_id :: ReplicaID
  pe_wal :: WalStore
  pe_raft_meta_path :: string
  pe_snapshot :: SnapshotStore

definition new_PersistEngine :: "string \<Rightarrow> ReplicaID \<Rightarrow> PersistEngine" where
  "new_PersistEngine data_dir replica_id =
    (let dir_path = replica_dir data_dir replica_id in
     \<lparr>pe_data_dir = data_dir, pe_dir_path = dir_path, pe_replica_id = replica_id,
      pe_wal = \<lparr>ws_path = wal_file dir_path, ws_file = None\<rparr>, pe_raft_meta_path = raft_meta_file dir_path,
      pe_snapshot = \<lparr>ss_snapshot_path = snapshot_file dir_path, ss_dir_path = dir_path\<rparr>\<rparr>)"

text \<open>The directory is created before; that it could not be is only logged.\<close>

definition persist_init :: "PersistEngine \<Rightarrow> Disk \<Rightarrow> PersistEngine \<times> Disk \<times> Status" where
  "persist_init e d =
    (if pe_data_dir e = [] then (e, d, INVALID_ARGUMENT)
     else if rid_replica_seq (pe_replica_id e) = -1 \<or> rid_shard_index (pe_replica_id e) = -1 \<or> rid_table_id (pe_replica_id e) = -1
     then (e, d, INVALID_ARGUMENT)
     else let (w, d1, s) = wal_open (pe_wal e) d in if fail s then (e\<lparr>pe_wal := w\<rparr>, d1, s) else (e\<lparr>pe_wal := w\<rparr>, d1, OK))"

definition persist_close :: "PersistEngine \<Rightarrow> Disk \<Rightarrow> PersistEngine \<times> Disk \<times> Status" where
  "persist_close e d = (let (w, d1, s) = wal_close (pe_wal e) d in (e\<lparr>pe_wal := w\<rparr>, d1, s))"

record RecoverResult =
  rc_snapshot :: "SnapshotHeader option"
  rc_raft_meta :: RaftMeta
  rc_wal_entries :: "LogEntry list"
  rc_need_recover :: bool

definition persist_recover :: "PersistEngine \<Rightarrow> Disk \<Rightarrow> PersistEngine \<times> Disk \<times> (Status + RecoverResult)" where
  "persist_recover e d =
    (let (d1, header) = load_header (pe_snapshot e) d in
     case header of Inl s \<Rightarrow> (e, d1, Inl s)
     | Inr snapshot \<Rightarrow>
       let snapshot_index = (case snapshot of None \<Rightarrow> 0 | Some h \<Rightarrow> sh_apply_index h);
           (d2, s2, meta) = raft_meta_load (pe_raft_meta_path e) d1 in
       if fail s2 then (e, d2, Inl s2)
       else let (w, d3, s3, entries, need_recover) = wal_recover (pe_wal e) snapshot_index d2 in
         if fail s3 then (e\<lparr>pe_wal := w\<rparr>, d3, Inl s3)
         else (e\<lparr>pe_wal := w\<rparr>, d3, Inr \<lparr>rc_snapshot = snapshot, rc_raft_meta = meta, rc_wal_entries = entries,
           rc_need_recover = need_recover\<rparr>))"

section \<open>The description of a replica\<close>

definition save_replica_meta :: "string \<Rightarrow> ReplicaMetaPayload \<Rightarrow> Disk \<Rightarrow> Disk \<times> Status" where
  "save_replica_meta data_dir payload =
    atomic_replace (replica_meta_file (replica_dir data_dir (ip_replica_id (mp_init_param payload)))) (\<lambda>file d.
      let (fw, d1, s1) = fw_encode_crc encode_ReplicaMetaPayload payload (new_FileWriter file) d in
      if fail s1 then (d1, s1) else let (fw2, d2, s2) = fw_flush fw d1 in (d2, s2))"

definition load_replica_meta_file :: "string \<Rightarrow> Disk \<Rightarrow> Disk \<times> (Status + ReplicaMetaPayload)" where
  "load_replica_meta_file path d =
    (let (d1, s, f) = open_for_read path d in
     if fail s then (d1, Inl s)
     else case f of None \<Rightarrow> (d1, Inl ERROR)
       | Some data \<Rightarrow> (case decode_crc decode_ReplicaMetaPayload data of Inl s \<Rightarrow> (d1, Inl s) | Inr (p, rest) \<Rightarrow> (d1, Inr p)))"

definition load_replica_meta :: "string \<Rightarrow> ReplicaID \<Rightarrow> Disk \<Rightarrow> Disk \<times> (Status + ReplicaMetaPayload)" where
  "load_replica_meta data_dir replica_id = load_replica_meta_file (replica_meta_file (replica_dir data_dir replica_id))"

section \<open>The stores of the effect executor\<close>

definition store_save :: "PersistEngine \<times> Disk \<Rightarrow> RaftMeta \<Rightarrow> (PersistEngine \<times> Disk) \<times> Status" where
  "store_save p m = (let (d, s) = raft_meta_save (pe_raft_meta_path (fst p)) m (snd p) in ((fst p, d), s))"

definition store_rewrite :: "PersistEngine \<times> Disk \<Rightarrow> LogEntry list \<Rightarrow> (PersistEngine \<times> Disk) \<times> Status" where
  "store_rewrite p es = (let (w, d, s) = rewrite_wal (pe_wal (fst p)) es (snd p) in (((fst p)\<lparr>pe_wal := w\<rparr>, d), s))"

definition store_append :: "PersistEngine \<times> Disk \<Rightarrow> LogEntry list \<Rightarrow> (PersistEngine \<times> Disk) \<times> Status" where
  "store_append p es = (let (d, s) = wal_append_batch (pe_wal (fst p)) es (snd p) in ((fst p, d), s))"

text \<open>What the files hold.  The stored log is every record that can be read, gaps included.\<close>

function wal_entries :: "byte list \<Rightarrow> LogEntry list" where
  "wal_entries data = (case decode_crc decode_LogEntry data of Inl s \<Rightarrow> [] | Inr (e, rest) \<Rightarrow> e # wal_entries rest)"
  by pat_completeness auto
termination
  by (relation "measure length") (auto dest: decode_crc_consumes)

declare wal_entries.simps [simp del]

definition stored_meta :: "PersistEngine \<times> Disk \<Rightarrow> RaftMeta" where
  "stored_meta p = (case dk_files (snd p) (pe_raft_meta_path (fst p)) of None \<Rightarrow> default_RaftMeta
     | Some data \<Rightarrow> (case decode_crc decode_RaftMeta data of Inl s \<Rightarrow> default_RaftMeta | Inr (m, rest) \<Rightarrow> m))"

definition stored_wal :: "PersistEngine \<times> Disk \<Rightarrow> LogEntry list" where
  "stored_wal p = wal_entries (content (snd p) (ws_path (pe_wal (fst p))))"

definition wal_clean :: "PersistEngine \<times> Disk \<Rightarrow> LogEntry list \<Rightarrow> bool" where
  "wal_clean p log \<longleftrightarrow> content (snd p) (ws_path (pe_wal (fst p))) = frames encode_LogEntry log \<and> list_all storable log"

definition store_ok :: "PersistEngine \<times> Disk \<Rightarrow> bool" where
  "store_ok p \<longleftrightarrow> ws_file (pe_wal (fst p)) = Some (ws_path (pe_wal (fst p)))
     \<and> ws_path (pe_wal (fst p)) = wal_file (pe_dir_path (fst p)) \<and> pe_raft_meta_path (fst p) = raft_meta_file (pe_dir_path (fst p))
     \<and> wal_clean p (stored_wal p)
     \<and> (dk_files (snd p) (pe_raft_meta_path (fst p)) = None
        \<or> (\<exists>m. fits_RaftMeta m \<and> dk_files (snd p) (pe_raft_meta_path (fst p)) = Some (frame encode_RaftMeta m)))"

lemma wal_entries_frames: "list_all storable es \<Longrightarrow> wal_entries (frames encode_LogEntry es) = es"
proof (induction es)
  case Nil
  then show ?case
    by (simp add: wal_entries.simps [of "[]"] decode_crc_def decode_int32_def read_raw_def and_then_def)
next
  case (Cons e es)
  then show ?case
    by (simp add: wal_entries.simps [of "frame encode_LogEntry e @ _"] read_frame)
qed

lemma wal_clean_stored: "wal_clean p log \<Longrightarrow> stored_wal p = log"
  by (simp add: wal_clean_def stored_wal_def wal_entries_frames)

lemma stored_meta_frame:
  assumes "dk_files (snd p) (pe_raft_meta_path (fst p)) = Some (frame encode_RaftMeta m)" and "fits_RaftMeta m"
  shows "stored_meta p = m"
  using raft_meta.frame_roundtrip [of m "frame encode_RaftMeta m" "[]"] assms
  by (simp add: stored_meta_def encode_crc_frame RaftMeta_frame_fits)

lemma store_okD:
  assumes "store_ok p"
  shows "ws_file (pe_wal (fst p)) = Some (ws_path (pe_wal (fst p)))" "ws_path (pe_wal (fst p)) = wal_file (pe_dir_path (fst p))"
    "pe_raft_meta_path (fst p) = raft_meta_file (pe_dir_path (fst p))"
    "content (snd p) (ws_path (pe_wal (fst p))) = frames encode_LogEntry (stored_wal p)" "list_all storable (stored_wal p)"
  using assms unfolding store_ok_def wal_clean_def by blast+

lemma store_save_result:
  assumes ok: "store_ok p" and run: "store_save p m = (p', s)"
  shows "fst p' = fst p" "wal_clean p' (stored_wal p)"
    "dk_files (snd p') (pe_raft_meta_path (fst p)) = dk_files (snd p) (pe_raft_meta_path (fst p))
      \<or> dk_files (snd p') (pe_raft_meta_path (fst p)) = Some (frame encode_RaftMeta m)"
    "s = OK \<Longrightarrow> dk_files (snd p') (pe_raft_meta_path (fst p)) = Some (frame encode_RaftMeta m)"
    "fits_RaftMeta m \<Longrightarrow> store_ok p'"
proof -
  obtain d where d: "raft_meta_save (pe_raft_meta_path (fst p)) m (snd p) = (d, s)" "p' = (fst p, d)"
    using run by (auto simp: store_save_def split: prod.splits)
  note S = raft_meta_save_result [OF d(1)]
  show "fst p' = fst p"
    by (simp add: d(2))
  show "dk_files (snd p') (pe_raft_meta_path (fst p)) = dk_files (snd p) (pe_raft_meta_path (fst p))
      \<or> dk_files (snd p') (pe_raft_meta_path (fst p)) = Some (frame encode_RaftMeta m)"
    "s = OK \<Longrightarrow> dk_files (snd p') (pe_raft_meta_path (fst p)) = Some (frame encode_RaftMeta m)"
    using S(1,2) by (simp_all add: d(2))
  have "dk_files d (ws_path (pe_wal (fst p))) = dk_files (snd p) (ws_path (pe_wal (fst p)))"
    by (rule S(3)) (simp_all add: store_okD(2,3) [OF ok])
  then have "content d (ws_path (pe_wal (fst p))) = content (snd p) (ws_path (pe_wal (fst p)))"
    by (simp add: content_def)
  then show wal: "wal_clean p' (stored_wal p)"
    using store_okD(4,5) [OF ok] by (simp add: wal_clean_def d(2))
  show "fits_RaftMeta m \<Longrightarrow> store_ok p'"
    using ok wal wal_clean_stored [OF wal] S(1) by (auto simp: store_ok_def d(2))
qed

lemma store_rewrite_result:
  assumes ok: "store_ok p" and es: "\<forall>e\<in>set es. fits_LogEntry e" and run: "store_rewrite p es = (p', s)"
  shows "dk_files (snd p') (pe_raft_meta_path (fst p)) = dk_files (snd p) (pe_raft_meta_path (fst p))"
    "ws_path (pe_wal (fst p')) = ws_path (pe_wal (fst p))" "pe_raft_meta_path (fst p') = pe_raft_meta_path (fst p)"
    "dk_files (snd p') (ws_path (pe_wal (fst p))) = dk_files (snd p) (ws_path (pe_wal (fst p)))
      \<or> dk_files (snd p') (ws_path (pe_wal (fst p))) = Some (frames encode_LogEntry es)
        \<and> (\<forall>e\<in>set es. frame_fits encode_LogEntry e)"
    "s = OK \<Longrightarrow> wal_clean p' es \<and> store_ok p'"
proof -
  obtain w d where d: "rewrite_wal (pe_wal (fst p)) es (snd p) = (w, d, s)" "p' = ((fst p)\<lparr>pe_wal := w\<rparr>, d)"
    using run by (auto simp: store_rewrite_def split: prod.splits)
  note R = rewrite_wal_result [OF d(1)]
  show meta: "dk_files (snd p') (pe_raft_meta_path (fst p)) = dk_files (snd p) (pe_raft_meta_path (fst p))"
    using ok R(3) by (simp add: d(2) store_ok_def)
  show paths: "ws_path (pe_wal (fst p')) = ws_path (pe_wal (fst p))" "pe_raft_meta_path (fst p') = pe_raft_meta_path (fst p)"
    using R(4) by (simp_all add: d(2))
  show "dk_files (snd p') (ws_path (pe_wal (fst p))) = dk_files (snd p) (ws_path (pe_wal (fst p)))
      \<or> dk_files (snd p') (ws_path (pe_wal (fst p))) = Some (frames encode_LogEntry es)
        \<and> (\<forall>e\<in>set es. frame_fits encode_LogEntry e)"
    using R(1) by (simp add: d(2))
  show "s = OK \<Longrightarrow> wal_clean p' es \<and> store_ok p'"
  proof -
    assume "s = OK"
    then have w: "dk_files d (ws_path (pe_wal (fst p))) = Some (frames encode_LogEntry es)" "ws_file w = Some (ws_path w)"
        "\<forall>e\<in>set es. frame_fits encode_LogEntry e"
      using R(2,4) by simp_all
    have clean: "wal_clean p' es"
      using w(1,3) es R(4) by (simp add: wal_clean_def d(2) content_def storable_def list_all_iff)
    then show ?thesis
      using ok w(2) meta paths wal_clean_stored [OF clean] by (auto simp: store_ok_def d(2))
  qed
qed

lemma store_append_result:
  assumes ok: "store_ok p" and es: "\<forall>e\<in>set es. fits_LogEntry e" and run: "store_append p es = (p', s)"
  shows "fst p' = fst p" "dk_files (snd p') (pe_raft_meta_path (fst p)) = dk_files (snd p) (pe_raft_meta_path (fst p))"
    "\<exists>k. content (snd p') (ws_path (pe_wal (fst p))) = frames encode_LogEntry (stored_wal p) @ take k (frames encode_LogEntry es)"
    "s = OK \<Longrightarrow> wal_clean p' (stored_wal p @ es) \<and> store_ok p'"
proof -
  obtain d where d: "wal_append_batch (pe_wal (fst p)) es (snd p) = (d, s)" "p' = (fst p, d)"
    using run by (auto simp: store_append_def split: prod.splits)
  have open_wal: "ws_file (pe_wal (fst p)) = Some (ws_path (pe_wal (fst p)))"
    using ok by (simp add: store_ok_def)
  note A = wal_append_batch_result [OF open_wal d(1)]
  have old: "content (snd p) (ws_path (pe_wal (fst p))) = frames encode_LogEntry (stored_wal p)" "list_all storable (stored_wal p)"
    by (fact store_okD(4,5) [OF ok])+
  show "fst p' = fst p"
    by (simp add: d(2))
  show meta: "dk_files (snd p') (pe_raft_meta_path (fst p)) = dk_files (snd p) (pe_raft_meta_path (fst p))"
    using ok A(3) by (simp add: d(2) store_ok_def)
  show "\<exists>k. content (snd p') (ws_path (pe_wal (fst p))) = frames encode_LogEntry (stored_wal p) @ take k (frames encode_LogEntry es)"
    using A(1) old(1) by (auto simp: d(2))
  show "s = OK \<Longrightarrow> wal_clean p' (stored_wal p @ es) \<and> store_ok p'"
  proof -
    assume s: "s = OK"
    have "content d (ws_path (pe_wal (fst p))) = frames encode_LogEntry (stored_wal p @ es)"
      using A(1) old(1) s by (auto simp: frames_def)
    then have clean: "wal_clean p' (stored_wal p @ es)"
      using old(2) es A(2) s by (auto simp: wal_clean_def d(2) storable_def list_all_iff)
    then show ?thesis
      using ok meta wal_clean_stored [OF clean] by (auto simp: store_ok_def d(2))
  qed
qed

interpretation stores: raft_storage store_ok fits_RaftMeta fits_LogEntry stored_meta stored_wal store_save store_rewrite store_append
proof
  fix p m p' assume ok: "store_ok p" "fits_RaftMeta m" "store_save p m = (p', OK)"
  note S = store_save_result [OF ok(1,3)]
  show "store_ok p' \<and> stored_meta p' = m \<and> stored_wal p' = stored_wal p"
    using S(5) [OF ok(2)] stored_meta_frame [OF _ ok(2), of p'] S(1,4) wal_clean_stored [OF S(2)] by simp
next
  fix p es p' assume ok: "store_ok p" "\<forall>e\<in>set es. fits_LogEntry e" "store_rewrite p es = (p', OK)"
  note R = store_rewrite_result [OF ok]
  show "store_ok p' \<and> stored_meta p' = stored_meta p \<and> stored_wal p' = es"
    using R(5) wal_clean_stored R(1,3) by (auto simp: stored_meta_def)
next
  fix p es p' assume ok: "store_ok p" "\<forall>e\<in>set es. fits_LogEntry e" "store_append p es = (p', OK)"
  note A = store_append_result [OF ok]
  show "store_ok p' \<and> stored_meta p' = stored_meta p \<and> stored_wal p' = stored_wal p @ es"
    using A(4) wal_clean_stored A(1,2) by (auto simp: stored_meta_def)
qed

section \<open>Restart\<close>

text \<open>The engine of the process that comes up after the crash; it finds the files that are there.\<close>

definition restarted :: "PersistEngine \<times> Disk \<Rightarrow> PersistEngine \<Rightarrow> Disk \<Rightarrow> bool" where
  "restarted p e d \<longleftrightarrow> dk_files d = dk_files (snd p) \<and> ws_path (pe_wal e) = ws_path (pe_wal (fst p))
     \<and> pe_raft_meta_path e = pe_raft_meta_path (fst p)"

lemma load_header_files: "load_header ss d = (d', r) \<Longrightarrow> dk_files d' = dk_files d"
  by (auto simp: load_header_def open_reader_def open_for_read_def syscall_def Let_def split: if_splits prod.splits)

lemma raft_meta_load_files: "raft_meta_load path d = (d', s, m) \<Longrightarrow> dk_files d' = dk_files d"
  by (auto simp: raft_meta_load_def open_for_read_def syscall_def Let_def split: if_splits option.splits sum.splits)

lemma persist_recover_parts:
  assumes "persist_recover e d = (e', d', Inr r)"
  obtains d1 d2 w where "load_header (pe_snapshot e) d = (d1, Inr (rc_snapshot r))"
    "raft_meta_load (pe_raft_meta_path e) d1 = (d2, OK, rc_raft_meta r)" "dk_files d1 = dk_files d" "dk_files d2 = dk_files d"
    "wal_recover (pe_wal e) (recovered_snapshot_index (rc_snapshot r)) d2 = (w, d', OK, rc_wal_entries r, rc_need_recover r)"
    "e' = e\<lparr>pe_wal := w\<rparr>"
proof -
  obtain d1 h where 1: "load_header (pe_snapshot e) d = (d1, h)" by fastforce
  obtain snap where h: "h = Inr snap"
    using assms 1 by (auto simp: persist_recover_def split: sum.splits)
  obtain d2 s2 m where 2: "raft_meta_load (pe_raft_meta_path e) d1 = (d2, s2, m)" by (metis prod_cases3)
  obtain w d3 s3 es need where 3: "wal_recover (pe_wal e) (recovered_snapshot_index snap) d2 = (w, d3, s3, es, need)"
    by (metis prod_cases5)
  have "(e', d', Inr r) = (if fail s2 then (e, d2, Inl s2) else if fail s3 then (e\<lparr>pe_wal := w\<rparr>, d3, Inl s3)
      else (e\<lparr>pe_wal := w\<rparr>, d3, Inr \<lparr>rc_snapshot = snap, rc_raft_meta = m, rc_wal_entries = es, rc_need_recover = need\<rparr>))"
    using assms 2 3 [unfolded recovered_snapshot_index_def] by (simp add: persist_recover_def 1 h Let_def split: if_splits)
  then have "s2 = OK" "s3 = OK" "d' = d3" "e' = e\<lparr>pe_wal := w\<rparr>"
      "r = \<lparr>rc_snapshot = snap, rc_raft_meta = m, rc_wal_entries = es, rc_need_recover = need\<rparr>"
    by (auto simp: fail_iff split: if_splits)
  then show thesis
    using that [of d1 d2 w] 1 2 3 h load_header_files [OF 1] raft_meta_load_files [OF 2] by simp
qed

lemma raft_meta_load_stored:
  assumes "raft_meta_load path d = (d', OK, m)" and "pe_raft_meta_path (fst p) = path" and "dk_files d = dk_files (snd p)"
  shows "m = stored_meta p"
  using assms by (auto simp: raft_meta_load_def open_for_read_def syscall_def stored_meta_def fail_iff Let_def
      split: if_splits option.splits sum.splits)

text \<open>
  Recovery of a log that is the stored log of the replica, when the snapshot on disk is not older than
  that of the replica.
\<close>

lemma recover_stored_wal:
  assumes ok: "store_ok p" and mir: "mirrors (stored_meta p) (stored_wal p) c" and chain: "wal_chain (stored_wal p) c"
    and re: "restarted p e d" and run: "persist_recover e d = (e', d', Inr r)"
    and snap: "rl_snapshot_index (co_log c) \<le> recovered_snapshot_index (rc_snapshot r)"
  shows "rc_raft_meta r = hard_state (co_election c)" "\<not> rc_need_recover r"
    "rc_wal_entries r = filter (\<lambda>x. recovered_snapshot_index (rc_snapshot r) < le_index x) (rl_log_entries (co_log c))"
proof -
  let ?s = "rl_snapshot_index (co_log c)" and ?si = "recovered_snapshot_index (rc_snapshot r)"
  obtain d1 d2 w where 1: "raft_meta_load (pe_raft_meta_path e) d1 = (d2, OK, rc_raft_meta r)"
      "dk_files d1 = dk_files d" "dk_files d2 = dk_files d"
      "wal_recover (pe_wal e) ?si d2 = (w, d', OK, rc_wal_entries r, rc_need_recover r)"
    using persist_recover_parts [OF run] by metis
  have files: "dk_files d = dk_files (snd p)" "ws_path (pe_wal e) = ws_path (pe_wal (fst p))"
      "pe_raft_meta_path e = pe_raft_meta_path (fst p)"
    using re by (simp_all add: restarted_def)
  have "rc_raft_meta r = stored_meta p"
    by (rule raft_meta_load_stored [OF 1(1)]) (simp_all add: files 1(2))
  then show "rc_raft_meta r = hard_state (co_election c)"
    using mir by (simp add: mirrors_def)
  obtain i where i: "contiguous i (stored_wal p)" "i \<le> ?s + 1"
    using chain by (auto simp: wal_chain_def)
  have "content d2 (ws_path (pe_wal e)) = frames encode_LogEntry (stored_wal p)"
    using store_okD(4) [OF ok] files 1(3) by (simp add: content_def)
  then have "read_records (content d2 (ws_path (pe_wal e))) None = (stored_wal p, False)"
    using read_written [OF store_okD(5) [OF ok] i(1)] by simp
  note W = wal_recover_read [OF this i(1) _ 1(4)]
  show "\<not> rc_need_recover r"
    using W(2) i(2) snap by simp
  have "rl_log_entries (co_log c) = filter (\<lambda>x. ?s < le_index x) (stored_wal p)"
    using mir by (simp add: mirrors_def)
  then have "filter (\<lambda>x. ?si < le_index x) (rl_log_entries (co_log c)) = filter (\<lambda>x. ?si < le_index x) (stored_wal p)"
    using snap by (auto intro!: filter_cong)
  then show "rc_wal_entries r = filter (\<lambda>x. ?si < le_index x) (rl_log_entries (co_log c))"
    using W(1) i(2) snap by simp
qed


lemma no_faults_raft_meta_save:
  assumes nf: "no_faults d" and dir: "CHR ''/'' \<in> set path" and run: "raft_meta_save path m d = (d', s)"
  shows "s = OK \<and> no_faults d'"
proof -
  let ?tmp = "atomic_replace_temp_path path"
  define w where "w = (\<lambda>f d. let (fw, d1, s1) = fw_encode_crc encode_RaftMeta m (new_FileWriter f) d in
    if fail s1 then (d1, s1) else let (fw2, d2, s2) = fw_flush fw d1 in (d2, s2))"
  define d0 where "d0 = d\<lparr>dk_calls := dk_calls d + 1\<rparr>"
  have sys: "syscall d = (None, d0)" "no_faults d0"
    using nf by (simp_all add: d0_def syscall_def no_faults_def)
  obtain d1 s1 f where 1: "open_for_write ?tmp d0 = (d1, s1, f)" by (metis prod_cases3)
  have ok1: "s1 = OK" "f = Some ?tmp" "no_faults d1" "dk_files d1 ?tmp = Some []"
    using no_faults_calls(1) [OF sys(2) 1] open_for_write_result(1) [OF 1] by simp_all
  obtain fw d2' s2' where e: "fw_encode_crc encode_RaftMeta m (new_FileWriter (Some ?tmp)) d1 = (fw, d2', s2')" by (metis prod_cases3)
  have fo: "fw_file (new_FileWriter (Some ?tmp)) = Some ?tmp"
    by (simp add: new_FileWriter_def)
  have "fw_encode_crcs encode_RaftMeta [m] (new_FileWriter (Some ?tmp)) d1 = (fw, d2', s2')"
    using e by (auto simp: fail_iff)
  from no_faults_fw_encode_crcs [OF ok1(3) fo _ this]
  have e': "s2' = OK" "no_faults d2'" "fw_file fw = Some ?tmp"
    by (simp_all add: RaftMeta_frame_fits)
  obtain fw2 d2 s2 where fl: "fw_flush fw d2' = (fw2, d2, s2)" by (metis prod_cases3)
  have ok2: "s2 = OK" "no_faults d2"
    using no_faults_fw_flush [OF e'(2,3) fl] by simp_all
  have w: "w f d1 = (d2, OK)"
    by (simp add: w_def ok1(2) e e'(1) fl ok2(1) fail_iff)
  have new: "dk_files d2 ?tmp \<noteq> None"
    using fw_encode_crc_fills [of encode_RaftMeta m, unfolded fills_def, rule_format, of d1 ?tmp d2 OK] ok1(2,4) w by (simp add: w_def)
  obtain d3 s3 where 3: "file_fsync f d2 = (d3, s3)" by fastforce
  have ok3: "s3 = OK" "no_faults d3"
    using no_faults_calls(6) [OF ok2(2), of ?tmp] 3 ok1(2) by simp_all
  obtain d4 s4 where 4: "file_close f d3 = (d4, s4)" by fastforce
  have ok4: "s4 = OK" "no_faults d4"
    using no_faults_calls(4) [OF ok3(2) 4] by simp_all
  obtain d5 s5 where 5: "file_rename ?tmp path d4 = (d5, s5)" by fastforce
  have ok5: "s5 = OK" "no_faults d5"
    using no_faults_calls(8) [OF ok4(2) 5] new quiet_calls(1) [OF 3] quiet_calls(2) [OF 4] by simp_all
  obtain d6 s6 where 6: "fsync_dir d5 = (d6, s6)" by fastforce
  have "s6 = OK" "no_faults d6"
    using no_faults_calls(7) [OF ok5(2) 6] by simp_all
  then show ?thesis
    using run no_faults_calls(9) [of d6 ?tmp] unfolding raft_meta_save_def w_def [symmetric]
    by (auto simp: atomic_replace_def dir sys(1) 1 w 3 4 5 6 ok1(1) ok3(1) ok4(1) ok5(1) fail_iff)
qed

text \<open>A replica with an empty data directory for the witnesses; it stores a vote and restarts.\<close>

definition demo_store :: "PersistEngine \<times> Disk" where
  "demo_store = ((new_PersistEngine ''data'' (demo_id 1))
     \<lparr>pe_wal := \<lparr>ws_path = wal_file (replica_dir ''data'' (demo_id 1)), ws_file = Some (wal_file (replica_dir ''data'' (demo_id 1)))\<rparr>\<rparr>,
     demo_disk)"

lemma demo_meta_fits: "fits_RaftMeta \<lparr>rmeta_current_term = 1, rmeta_voted_for = Some (demo_id 2)\<rparr>"
  by (simp add: fits_RaftMeta_def fits_signed_def fits_ReplicaID_def demo_id_def)

lemma wal_entries_Nil [simp]: "wal_entries [] = []"
  using wal_entries_frames [of "[]"] by simp

lemma demo_store_facts:
  "store_ok demo_store" "mirrors (stored_meta demo_store) (stored_wal demo_store) demo_core" "wal_chain (stored_wal demo_store) demo_core"
proof -
  have wal: "stored_wal demo_store = []" "stored_meta demo_store = default_RaftMeta"
    by (simp_all add: stored_wal_def stored_meta_def demo_store_def demo_disk_def content_def)
  show "store_ok demo_store"
    by (simp add: store_ok_def wal_clean_def wal) (simp add: demo_store_def new_PersistEngine_def demo_disk_def content_def Let_def)
  show "mirrors (stored_meta demo_store) (stored_wal demo_store) demo_core"
    by (simp add: wal mirrors_def hard_state_def new_RaftElection_def default_RaftMeta_def new_RaftLog_def)
  show "wal_chain (stored_wal demo_store) demo_core"
    by (simp add: wal wal_chain_def new_RaftLog_def last_log_index_def)
qed

lemma persist_recover_progress:
  assumes nf: "no_faults d" and snap: "dk_files d (snapshot_file (replica_dir dir rid)) = None"
    and meta: "dk_files d (raft_meta_file (replica_dir dir rid)) = Some (frame encode_RaftMeta m) \<and> fits_RaftMeta m"
    and wal: "dk_files d (wal_file (replica_dir dir rid)) = None"
  shows "\<exists>e' d' r. persist_recover (new_PersistEngine dir rid) d = (e', d', Inr r) \<and> rc_snapshot r = None"
proof -
  define e where "e = new_PersistEngine dir rid"
  have paths: "ss_snapshot_path (pe_snapshot e) = snapshot_file (replica_dir dir rid)"
      "pe_raft_meta_path e = raft_meta_file (replica_dir dir rid)" "ws_path (pe_wal e) = wal_file (replica_dir dir rid)"
    by (simp_all add: e_def new_PersistEngine_def Let_def)
  obtain d1 s1 f where 1: "open_for_read (snapshot_file (replica_dir dir rid)) d = (d1, s1, f)" by (metis prod_cases3)
  have ok1: "s1 = OK" "f = None" "no_faults d1" "dk_files d1 = dk_files d"
    using no_faults_calls(3) [OF nf 1] snap by simp_all
  have header: "load_header (pe_snapshot e) d = (d1, Inr None)"
    by (simp add: load_header_def open_reader_def paths 1 ok1(1,2) fail_iff)
  obtain d2 s2 g where 2: "open_for_read (raft_meta_file (replica_dir dir rid)) d1 = (d2, s2, g)" by (metis prod_cases3)
  have ok2: "s2 = OK" "g = Some (frame encode_RaftMeta m)" "no_faults d2" "dk_files d2 = dk_files d"
    using no_faults_calls(3) [OF ok1(3) 2] meta ok1(4) by simp_all
  have "decode_crc decode_RaftMeta (frame encode_RaftMeta m) = Inr (m, [])"
    using raft_meta.frame_roundtrip [of m "frame encode_RaftMeta m" "[]"] meta by (simp add: encode_crc_frame RaftMeta_frame_fits)
  then have load: "raft_meta_load (pe_raft_meta_path e) d1 = (d2, OK, m)"
    by (simp add: raft_meta_load_def paths 2 ok2(1,2) fail_iff)
  have "read_records (content d2 (ws_path (pe_wal e))) None = ([], False)"
    by (simp add: content_def ok2(4) wal paths)
  from no_faults_wal_recover [OF ok2(3) this, of 0]
  obtain w d3 es need where "wal_recover (pe_wal e) 0 d2 = (w, d3, OK, es, need)"
    by auto
  then show ?thesis
    by (simp add: persist_recover_def header load fail_iff flip: e_def)
qed

lemma demo_vote_stored:
  obtains c' eff p' e d e' d' r where "raft_step demo_core (EvRequestVote demo_vote_request) = (c', eff)"
    "ef_hard_state eff = Some \<lparr>rmeta_current_term = 1, rmeta_voted_for = Some (demo_id 2)\<rparr>"
    "ef_entries_to_append eff = []" "ef_entries_to_rewrite eff = None" "ef_messages eff = []" "co_log c' = new_RaftLog"
    "hard_state (co_election c') = \<lparr>rmeta_current_term = 1, rmeta_voted_for = Some (demo_id 2)\<rparr>"
    "persist_effects store_save store_rewrite store_append demo_store eff = (p', OK, False)"
    "restarted p' e d" "persist_recover e d = (e', d', Inr r)" "rc_snapshot r = None"
proof -
  obtain c' eff r0 where h: "handle_request_vote demo_core demo_vote_request no_effects = (c', eff, r0)"
    by (metis prod_cases3)
  have "\<not> fail (ensure_vote_preconditions demo_core demo_vote_request)" "co_term demo_core = 0"
    by (simp_all add: ensure_vote_preconditions_def is_voter_iff ensure_ready_def new_RaftElection_def)
  then have v: "ef_hard_state eff = Some \<lparr>rmeta_current_term = 1, rmeta_voted_for = Some (demo_id 2)\<rparr>"
      "ef_entries_to_append eff = []" "ef_entries_to_rewrite eff = None" "ef_messages eff = []" "co_log c' = new_RaftLog"
      "hard_state (co_election c') = \<lparr>rmeta_current_term = 1, rmeta_voted_for = Some (demo_id 2)\<rparr>"
    using h by (auto simp: handle_request_vote_def core_become_follower_def Let_def become_follower_def
        later_than_other_def new_RaftLog_def last_log_index_def last_log_term_def grant_vote_to_def no_effects_def record_hard_state_def
        can_grant_vote_to_def clear_recent_leader_active_def hard_state_def)
  define m where "m = \<lparr>rmeta_current_term = 1, rmeta_voted_for = Some (demo_id 2)\<rparr>"
  define dir where "dir = replica_dir ''data'' (demo_id 1)"
  obtain d s where sv: "raft_meta_save (raft_meta_file dir) m demo_disk = (d, s)" by fastforce
  have ok: "s = OK" "no_faults d"
    using no_faults_raft_meta_save [OF _ _ sv]
    by (simp_all add: no_faults_def demo_disk_def raft_meta_file_def path_join_def dir_def replica_dir_def)
  note S = raft_meta_save_result [OF sv]
  have files: "dk_files d (snapshot_file dir) = None" "dk_files d (wal_file dir) = None"
      "dk_files d (raft_meta_file dir) = Some (frame encode_RaftMeta m)"
    using S(2,3) ok(1) by (simp_all add: demo_disk_def)
  have save: "store_save demo_store m = ((fst demo_store, d), OK)"
    using sv ok(1) by (simp add: store_save_def demo_store_def new_PersistEngine_def Let_def dir_def)
  have pe: "persist_effects store_save store_rewrite store_append demo_store eff = ((fst demo_store, d), OK, False)"
    using save by (simp add: persist_effects_def v m_def [symmetric] fail_iff)
  obtain e' d' r where rec: "persist_recover (new_PersistEngine ''data'' (demo_id 1)) d = (e', d', Inr r)" "rc_snapshot r = None"
    using persist_recover_progress [OF ok(2), of "''data''" "demo_id 1" m] files demo_meta_fits
    unfolding dir_def m_def by blast
  have "restarted (fst demo_store, d) (new_PersistEngine ''data'' (demo_id 1)) d"
    by (simp add: restarted_def demo_store_def new_PersistEngine_def Let_def)
  then show thesis
    using that [OF _ v pe _ rec] h by simp
qed


section \<open>A crash while the effects are written\<close>

lemma recover_cut_wal:
  assumes wal: "content (snd p) (ws_path (pe_wal (fst p))) = frames encode_LogEntry old @ take k (frames encode_LogEntry new)"
    and fits: "list_all storable (old @ new)" and cont: "contiguous i (old @ new)"
    and re: "restarted p e d" and run: "persist_recover e d = (e', d', Inr r)"
    and i: "i \<le> recovered_snapshot_index (rc_snapshot r) + 1"
  shows "rc_raft_meta r = stored_meta p"
    "\<exists>n \<le> length new. rc_wal_entries r = filter (\<lambda>x. recovered_snapshot_index (rc_snapshot r) < le_index x) (old @ take n new)"
proof -
  let ?si = "recovered_snapshot_index (rc_snapshot r)"
  obtain d1 d2 w where 1: "raft_meta_load (pe_raft_meta_path e) d1 = (d2, OK, rc_raft_meta r)"
      "dk_files d1 = dk_files d" "dk_files d2 = dk_files d"
      "wal_recover (pe_wal e) ?si d2 = (w, d', OK, rc_wal_entries r, rc_need_recover r)"
    using persist_recover_parts [OF run] by metis
  have files: "dk_files d = dk_files (snd p)" "ws_path (pe_wal e) = ws_path (pe_wal (fst p))"
      "pe_raft_meta_path e = pe_raft_meta_path (fst p)"
    using re by (simp_all add: restarted_def)
  show "rc_raft_meta r = stored_meta p"
    by (rule raft_meta_load_stored [OF 1(1)]) (simp_all add: files 1(2))
  obtain n err where n: "n \<le> length new"
      "read_records (frames encode_LogEntry old @ take k (frames encode_LogEntry new)) None = (old @ take n new, err)"
    using read_cut_off [OF fits cont, of k] by blast
  have "read_records (content d2 (ws_path (pe_wal e))) None = (old @ take n new, err)"
    using n(2) wal files 1(3) by (simp add: content_def)
  moreover have "contiguous i (old @ take n new)"
    using cont contiguous_take [of i "old @ new" "length old + n"] by simp
  ultimately show "\<exists>n \<le> length new. rc_wal_entries r = filter (\<lambda>x. ?si < le_index x) (old @ take n new)"
    using wal_recover_read(1) [OF _ _ i 1(4)] n(1) by blast
qed

text \<open>What the files may hold when writing the effects ends at any point.\<close>

definition cut_state :: "PersistEngine \<times> Disk \<Rightarrow> RaftEffects \<Rightarrow> PersistEngine \<times> Disk \<Rightarrow> bool" where
  "cut_state p eff p' \<longleftrightarrow> (let m = (case ef_hard_state eff of None \<Rightarrow> stored_meta p | Some m \<Rightarrow> m);
       wal = content (snd p') (ws_path (pe_wal (fst p'))) in
     stored_meta p' \<in> {stored_meta p, m} \<and> wal = frames encode_LogEntry (stored_wal p)
     \<or> stored_meta p' = m \<and> (case ef_entries_to_rewrite eff of
         Some es \<Rightarrow> wal = frames encode_LogEntry es
       | None \<Rightarrow> \<exists>k. wal = frames encode_LogEntry (stored_wal p) @ take k (frames encode_LogEntry (ef_entries_to_append eff))))"

lemma stores_saved:
  assumes ok: "store_ok p" and m: "\<forall>m. hs = Some m \<longrightarrow> fits_RaftMeta m"
    and run: "(case hs of None \<Rightarrow> (p, OK) | Some m \<Rightarrow> store_save p m) = (p1, s1)"
  shows "store_ok p1" "stored_wal p1 = stored_wal p" "stored_meta p1 \<in> {stored_meta p, case hs of None \<Rightarrow> stored_meta p | Some m \<Rightarrow> m}"
    "s1 = OK \<Longrightarrow> stored_meta p1 = (case hs of None \<Rightarrow> stored_meta p | Some m \<Rightarrow> m)"
proof -
  have "store_ok p1 \<and> stored_wal p1 = stored_wal p \<and> stored_meta p1 \<in> {stored_meta p, case hs of None \<Rightarrow> stored_meta p | Some m \<Rightarrow> m}
      \<and> (s1 = OK \<longrightarrow> stored_meta p1 = (case hs of None \<Rightarrow> stored_meta p | Some m \<Rightarrow> m))"
  proof (cases hs)
    case None
    then show ?thesis
      using ok run by simp
  next
    case (Some x)
    have x: "fits_RaftMeta x" and save: "store_save p x = (p1, s1)"
      using m run Some by simp_all
    note S = store_save_result [OF ok save]
    have "stored_meta p1 = stored_meta p \<or> stored_meta p1 = x"
      using S(1,3) stored_meta_frame [OF _ x, of p1] by (auto simp: stored_meta_def)
    moreover have "s1 = OK \<longrightarrow> stored_meta p1 = x"
      using S(1,4) stored_meta_frame [OF _ x, of p1] by auto
    ultimately show ?thesis
      using S(5) [OF x] wal_clean_stored [OF S(2)] Some by simp
  qed
  then show "store_ok p1" "stored_wal p1 = stored_wal p"
      "stored_meta p1 \<in> {stored_meta p, case hs of None \<Rightarrow> stored_meta p | Some m \<Rightarrow> m}"
      "s1 = OK \<Longrightarrow> stored_meta p1 = (case hs of None \<Rightarrow> stored_meta p | Some m \<Rightarrow> m)"
    by blast+
qed

lemma persist_effects_cut:
  assumes ok: "store_ok p" and m: "\<forall>m. ef_hard_state eff = Some m \<longrightarrow> fits_RaftMeta m"
    and es: "\<forall>es. ef_entries_to_rewrite eff = Some es \<longrightarrow> (\<forall>x \<in> set es. fits_LogEntry x)"
    and app: "\<forall>x \<in> set (ef_entries_to_append eff). fits_LogEntry x"
    and run: "persist_effects store_save store_rewrite store_append p eff = (p', s, f)"
  shows "cut_state p eff p'"
proof -
  define m' where "m' = (case ef_hard_state eff of None \<Rightarrow> stored_meta p | Some m \<Rightarrow> m)"
  obtain p1 s1 where 1: "(case ef_hard_state eff of None \<Rightarrow> (p, OK) | Some m \<Rightarrow> store_save p m) = (p1, s1)" by fastforce
  obtain p2 s2 where 2: "(case ef_entries_to_rewrite eff of None \<Rightarrow> (p1, OK) | Some es \<Rightarrow> store_rewrite p1 es) = (p2, s2)" by fastforce
  obtain p3 s3 where 3: "(if ef_entries_to_append eff = [] then (p2, OK) else store_append p2 (ef_entries_to_append eff)) = (p3, s3)" by fastforce
  have outcome: "p' = p \<and> ef_entries_to_rewrite eff \<noteq> None \<and> ef_entries_to_append eff \<noteq> [] \<or> p' = p1 \<and> s1 \<noteq> OK
      \<or> p' = p2 \<and> s1 = OK \<and> s2 \<noteq> OK \<or> p' = p3 \<and> s1 = OK \<and> s2 = OK \<and> (ef_entries_to_rewrite eff = None \<or> ef_entries_to_append eff = [])"
    using run 1 2 3 by (auto simp: persist_effects_def fail_iff split: if_splits)
  have p1: "store_ok p1" "stored_wal p1 = stored_wal p" "stored_meta p1 \<in> {stored_meta p, m'}" "s1 = OK \<Longrightarrow> stored_meta p1 = m'"
    using stores_saved [OF ok m 1] by (simp_all add: m'_def)
  have wal1: "content (snd p1) (ws_path (pe_wal (fst p1))) = frames encode_LogEntry (stored_wal p)"
    using store_okD(4) [OF p1(1)] p1(2) by simp
  have cutI: "cut_state p eff q" if "stored_meta q = m'" "case ef_entries_to_rewrite eff of
      Some es \<Rightarrow> content (snd q) (ws_path (pe_wal (fst q))) = frames encode_LogEntry es
    | None \<Rightarrow> \<exists>k. content (snd q) (ws_path (pe_wal (fst q)))
          = frames encode_LogEntry (stored_wal p) @ take k (frames encode_LogEntry (ef_entries_to_append eff))" for q
    using that unfolding cut_state_def m'_def [symmetric] Let_def by blast
  have keepI: "cut_state p eff q" if "stored_meta q \<in> {stored_meta p, m'}"
      "content (snd q) (ws_path (pe_wal (fst q))) = frames encode_LogEntry (stored_wal p)" for q
    using that unfolding cut_state_def m'_def [symmetric] Let_def by blast
  consider "p' = p" | "p' = p1" | "p' = p2" "s1 = OK" | "p' = p3" "s1 = OK" "s2 = OK" "ef_entries_to_rewrite eff = None"
    using outcome 3 by (auto split: if_splits)
  then show ?thesis
  proof cases
    case 1
    then show ?thesis
      using store_okD(4) [OF ok] by (intro keepI) simp_all
  next
    case 2
    then show ?thesis
      using p1(3) wal1 by (intro keepI) simp_all
  next
    case 3
    show ?thesis
    proof (cases "ef_entries_to_rewrite eff")
      case None
      then show ?thesis
        using 3 2 p1(3) wal1 by (intro keepI) simp_all
    next
      case (Some xs)
      have "store_rewrite p1 xs = (p2, s2)" "\<forall>e\<in>set xs. fits_LogEntry e"
        using 2 Some es by simp_all
      note R = store_rewrite_result [OF p1(1) this(2,1)]
      have meta: "stored_meta p2 = m'"
        using R(1,3) p1(4) [OF 3(2)] by (simp add: stored_meta_def)
      consider "content (snd p2) (ws_path (pe_wal (fst p2))) = frames encode_LogEntry (stored_wal p)"
        | "content (snd p2) (ws_path (pe_wal (fst p2))) = frames encode_LogEntry xs"
        using R(2,4) wal1 by (auto simp: content_def)
      then show ?thesis
        using meta 3(1) Some cutI [of p2] keepI [of p2] by cases simp_all
    qed
  next
    case 4
    then have "p2 = p1"
      using 2 by simp
    show ?thesis
    proof (cases "ef_entries_to_append eff = []")
      case True
      then show ?thesis
        using 3 4 \<open>p2 = p1\<close> p1(3) wal1 by (intro keepI) simp_all
    next
      case False
      then have "store_append p1 (ef_entries_to_append eff) = (p3, s3)"
        using 3 \<open>p2 = p1\<close> by simp
      note A = store_append_result [OF p1(1) app this]
      have "stored_meta p3 = m'"
        using A(1,2) p1(4) [OF 4(2)] by (simp add: stored_meta_def)
      then show ?thesis
        using A(1,3) 4(1,4) p1(2) by (intro cutI) simp_all
    qed
  qed
qed

lemma mirrors_filter:
  assumes "mirrors m wal c" and "rl_snapshot_index (co_log c) \<le> si"
  shows "filter (\<lambda>x. si < le_index x) (wal @ es) = filter (\<lambda>x. si < le_index x) (rl_log_entries (co_log c) @ es)"
proof -
  have "rl_log_entries (co_log c) = filter (\<lambda>x. rl_snapshot_index (co_log c) < le_index x) wal"
    using assms(1) by (simp add: mirrors_def)
  then show ?thesis
    using assms(2) by (auto intro!: filter_cong)
qed



end
