(* ===== verification/Shard_Range.thy ===== *)
theory Shard_Range
  imports Model
begin

text \<open>
  The stable hash and the division of the hash space into shards (\<^verbatim>\<open>common/stable_hash.h\<close>,
  \<^verbatim>\<open>common/shard_range.h\<close>).  The hash is computed on 64-bit words that wrap around.  Bucket numbers do not
  leave \<^verbatim>\<open>[0, K_HASH_BUCKET_COUNT]\<close>, so the 32-bit bounds of a range are natural numbers.  With a valid list of
  ranges every key belongs to exactly one shard, and the binary search of the router finds it.
\<close>

unbundle bit_operations_syntax

section \<open>The stable hash\<close>

definition K_FNV1A64_OFFSET_BASIS :: "64 word" where
  "K_FNV1A64_OFFSET_BASIS = 0xcbf29ce484222325"

definition K_FNV1A64_PRIME :: "64 word" where
  "K_FNV1A64_PRIME = 0x100000001b3"

definition K_STABLE_HASH_MIX_MULTIPLIER_1 :: "64 word" where
  "K_STABLE_HASH_MIX_MULTIPLIER_1 = 0xff51afd7ed558ccd"

definition K_STABLE_HASH_MIX_MULTIPLIER_2 :: "64 word" where
  "K_STABLE_HASH_MIX_MULTIPLIER_2 = 0xc4ceb9fe1a85ec53"

definition append_byte :: "64 word \<Rightarrow> byte \<Rightarrow> 64 word" where
  "append_byte hash b = (hash XOR ucast b) * K_FNV1A64_PRIME"

definition append_string :: "64 word \<Rightarrow> string \<Rightarrow> 64 word" where
  "append_string hash data = foldl append_byte hash (map (\<lambda>c. word_of_nat (of_char c)) data)"

definition append_uint64 :: "64 word \<Rightarrow> 64 word \<Rightarrow> 64 word" where
  "append_uint64 hash value = foldl append_byte hash (map (\<lambda>k. ucast (drop_bit (8 * k) value)) [0..<8])"

definition get_mixed_hash :: "64 word \<Rightarrow> 64 word" where
  "get_mixed_hash hash =
    (let v1 = hash XOR drop_bit 33 hash;
         v2 = v1 * K_STABLE_HASH_MIX_MULTIPLIER_1;
         v3 = v2 XOR drop_bit 33 v2;
         v4 = v3 * K_STABLE_HASH_MIX_MULTIPLIER_2
     in v4 XOR drop_bit 33 v4)"

definition write_op_value :: "WriteOpType \<Rightarrow> int" where
  "write_op_value op = (case op of NONE \<Rightarrow> 0 | PUT \<Rightarrow> 1 | DEL \<Rightarrow> 2 | ADD_LEARNER \<Rightarrow> 3 | PROMOTE_VOTER \<Rightarrow> 4
     | REMOVE_MEMBER \<Rightarrow> 5 | CAS \<Rightarrow> 6)"

definition request_payload_hash :: "WriteOpType \<Rightarrow> Key \<Rightarrow> Value \<Rightarrow> Value \<Rightarrow> 64 word" where
  "request_payload_hash op key value expected =
    (let h1 = append_uint64 K_FNV1A64_OFFSET_BASIS (word_of_int (write_op_value op));
         h2 = append_string (append_uint64 h1 (word_of_nat (length key))) key;
         h3 = append_string (append_uint64 h2 (word_of_nat (length value))) value
     in append_string (append_uint64 h3 (word_of_nat (length expected))) expected)"

section \<open>Ranges\<close>

definition K_HASH_BUCKET_COUNT :: nat where
  "K_HASH_BUCKET_COUNT = 65536"

record HashRange =
  hr_start :: nat
  hr_end :: nat

definition range_contains :: "HashRange \<Rightarrow> nat \<Rightarrow> bool" where
  "range_contains r bucket \<longleftrightarrow> hr_start r \<le> bucket \<and> bucket < hr_end r"

record ShardRange =
  shr_shard_index :: int
  shr_range :: HashRange

definition hash_bucket_for_key :: "Key \<Rightarrow> nat" where
  "hash_bucket_for_key key =
    unat (get_mixed_hash (append_string K_FNV1A64_OFFSET_BASIS key)) mod K_HASH_BUCKET_COUNT"

definition make_shard_ranges :: "int \<Rightarrow> ShardRange list" where
  "make_shard_ranges count =
    (if count \<le> 0 \<or> count > int K_HASH_BUCKET_COUNT then []
     else map (\<lambda>i. \<lparr>shr_shard_index = int i,
            shr_range = \<lparr>hr_start = (K_HASH_BUCKET_COUNT * i) div nat count,
                        hr_end = (K_HASH_BUCKET_COUNT * (i + 1)) div nat count\<rparr>\<rparr>) [0..<nat count])"

text \<open>The loop of the check, with the ids seen so far and the expected start.\<close>

fun check_ranges :: "int set \<Rightarrow> nat \<Rightarrow> ShardRange list \<Rightarrow> Status" where
  "check_ranges ids expected_start [] = OK"
| "check_ranges ids expected_start (r # rs) =
    (if shr_shard_index r < 0 then INVALID_ARGUMENT
     else if shr_shard_index r \<in> ids then INVALID_ARGUMENT
     else if hr_start (shr_range r) \<noteq> expected_start \<or> hr_end (shr_range r) \<le> hr_start (shr_range r)
        \<or> hr_end (shr_range r) > K_HASH_BUCKET_COUNT
        \<or> (rs = [] \<and> hr_end (shr_range r) \<noteq> K_HASH_BUCKET_COUNT) then INVALID_ARGUMENT
     else check_ranges (insert (shr_shard_index r) ids) (hr_end (shr_range r)) rs)"

definition check_shard_ranges_is_valid :: "int \<Rightarrow> ShardRange list \<Rightarrow> Status" where
  "check_shard_ranges_is_valid count ranges =
    (if count \<le> 0 \<or> count > int K_HASH_BUCKET_COUNT then INVALID_ARGUMENT
     else if int (length ranges) \<noteq> count then INVALID_ARGUMENT
     else check_ranges {} 0 ranges)"

text \<open>\<^verbatim>\<open>std::upper_bound\<close>: the binary search for the first element for which the comparison holds, in the
  \<^verbatim>\<open>len\<close> elements from position \<^verbatim>\<open>first\<close>.\<close>

function upper_bound :: "('a \<Rightarrow> bool) \<Rightarrow> 'a list \<Rightarrow> nat \<Rightarrow> nat \<Rightarrow> nat" where
  "upper_bound beyond xs first len =
    (if len = 0 then first
     else let half = len div 2 in
       if beyond (xs ! (first + half)) then upper_bound beyond xs first half
       else upper_bound beyond xs (first + half + 1) (len - half - 1))"
  by pat_completeness auto
termination
  by (relation "measure (\<lambda>(beyond, xs, first, len). len)") auto

declare upper_bound.simps [simp del]

definition find_shard_range :: "ShardRange list \<Rightarrow> nat \<Rightarrow> nat" where
  "find_shard_range ranges bucket =
    (let it = upper_bound (\<lambda>r. bucket < hr_start (shr_range r)) ranges 0 (length ranges) in
     if it = 0 then length ranges
     else if range_contains (shr_range (ranges ! (it - 1))) bucket then it - 1 else length ranges)"

section \<open>The search\<close>

lemma upper_bound_spec:
  assumes "first + len \<le> length xs" and "\<And>i j. i < j \<Longrightarrow> j < length xs \<Longrightarrow> beyond (xs ! i) \<Longrightarrow> beyond (xs ! j)"
    and "\<forall>i < first. \<not> beyond (xs ! i)" and "\<forall>i. first + len \<le> i \<and> i < length xs \<longrightarrow> beyond (xs ! i)"
  shows "upper_bound beyond xs first len \<le> length xs" "\<forall>i < upper_bound beyond xs first len. \<not> beyond (xs ! i)"
    "\<forall>i. upper_bound beyond xs first len \<le> i \<and> i < length xs \<longrightarrow> beyond (xs ! i)"
proof -
  have "upper_bound beyond xs first len \<le> length xs \<and> (\<forall>i < upper_bound beyond xs first len. \<not> beyond (xs ! i))
    \<and> (\<forall>i. upper_bound beyond xs first len \<le> i \<and> i < length xs \<longrightarrow> beyond (xs ! i))"
    using assms(1,3,4)
  proof (induction len arbitrary: first rule: less_induct)
    case (less len)
    show ?case
    proof (cases "len = 0")
      case True
      then show ?thesis
        using less.prems by (simp add: upper_bound.simps [of _ _ first])
    next
      case False
      define half where "half = len div 2"
      have half: "half < len" "first + half < length xs"
        using False less.prems(1) by (auto simp: half_def)
      show ?thesis
      proof (cases "beyond (xs ! (first + half))")
        case True
        have "\<forall>i. first + half \<le> i \<and> i < length xs \<longrightarrow> beyond (xs ! i)"
          using True assms(2) le_neq_implies_less by blast
        then have "upper_bound beyond xs first half \<le> length xs \<and> (\<forall>i < upper_bound beyond xs first half. \<not> beyond (xs ! i))
            \<and> (\<forall>i. upper_bound beyond xs first half \<le> i \<and> i < length xs \<longrightarrow> beyond (xs ! i))"
          using less.prems half by (intro less.IH) simp_all
        then show ?thesis
          using False True by (simp add: upper_bound.simps [of _ _ first len] half_def [symmetric])
      next
        case no: False
        let ?f = "first + half + 1" and ?l = "len - half - 1"
        have "\<not> beyond (xs ! i)" if "i < ?f" for i
          using no assms(2) [of i "first + half"] half(2) that by (cases "i = first + half") auto
        then have "\<forall>i < ?f. \<not> beyond (xs ! i)"
          by blast
        moreover have "?l < len" "?f + ?l \<le> length xs" "\<forall>i. ?f + ?l \<le> i \<and> i < length xs \<longrightarrow> beyond (xs ! i)"
          using less.prems half by auto
        ultimately have "upper_bound beyond xs ?f ?l \<le> length xs \<and> (\<forall>i < upper_bound beyond xs ?f ?l. \<not> beyond (xs ! i))
            \<and> (\<forall>i. upper_bound beyond xs ?f ?l \<le> i \<and> i < length xs \<longrightarrow> beyond (xs ! i))"
          by (intro less.IH)
        then show ?thesis
          using False no by (simp add: upper_bound.simps [of _ _ first len] half_def [symmetric])
      qed
    qed
  qed
  then show "upper_bound beyond xs first len \<le> length xs" "\<forall>i < upper_bound beyond xs first len. \<not> beyond (xs ! i)"
      "\<forall>i. upper_bound beyond xs first len \<le> i \<and> i < length xs \<longrightarrow> beyond (xs ! i)"
    by blast+
qed

section \<open>Valid lists of ranges\<close>

text \<open>Each range starts where the one before it ends, the last ends at the bucket count.\<close>

fun tiles :: "nat \<Rightarrow> ShardRange list \<Rightarrow> bool" where
  "tiles lo [] \<longleftrightarrow> True"
| "tiles lo (r # rs) \<longleftrightarrow> hr_start (shr_range r) = lo \<and> lo < hr_end (shr_range r)
     \<and> (rs = [] \<longrightarrow> hr_end (shr_range r) = K_HASH_BUCKET_COUNT) \<and> tiles (hr_end (shr_range r)) rs"

lemma check_ranges_iff:
  "check_ranges ids lo rs = OK \<longleftrightarrow> tiles lo rs \<and> distinct (map shr_shard_index rs) \<and> (\<forall>r\<in>set rs. 0 \<le> shr_shard_index r)
     \<and> ids \<inter> shr_shard_index ` set rs = {} \<and> (\<forall>r\<in>set rs. hr_end (shr_range r) \<le> K_HASH_BUCKET_COUNT)"
  by (induction ids lo rs rule: check_ranges.induct) auto

lemma check_shard_ranges_OK:
  "check_shard_ranges_is_valid count rs = OK \<longleftrightarrow> 0 < count \<and> count \<le> int K_HASH_BUCKET_COUNT \<and> int (length rs) = count
     \<and> tiles 0 rs \<and> distinct (map shr_shard_index rs) \<and> (\<forall>r\<in>set rs. 0 \<le> shr_shard_index r)
     \<and> (\<forall>r\<in>set rs. hr_end (shr_range r) \<le> K_HASH_BUCKET_COUNT)"
  by (auto simp: check_shard_ranges_is_valid_def check_ranges_iff)

lemma tiles_nth:
  assumes "tiles lo rs" and "i < length rs"
  shows "lo \<le> hr_start (shr_range (rs ! i))" "hr_start (shr_range (rs ! i)) < hr_end (shr_range (rs ! i))"
    "Suc i < length rs \<Longrightarrow> hr_start (shr_range (rs ! Suc i)) = hr_end (shr_range (rs ! i))"
    "Suc i = length rs \<Longrightarrow> hr_end (shr_range (rs ! i)) = K_HASH_BUCKET_COUNT"
    "i = 0 \<Longrightarrow> hr_start (shr_range (rs ! i)) = lo"
proof -
  have "lo \<le> hr_start (shr_range (rs ! i)) \<and> hr_start (shr_range (rs ! i)) < hr_end (shr_range (rs ! i))
      \<and> (Suc i < length rs \<longrightarrow> hr_start (shr_range (rs ! Suc i)) = hr_end (shr_range (rs ! i)))
      \<and> (Suc i = length rs \<longrightarrow> hr_end (shr_range (rs ! i)) = K_HASH_BUCKET_COUNT) \<and> (i = 0 \<longrightarrow> hr_start (shr_range (rs ! i)) = lo)"
    using assms
  proof (induction rs arbitrary: lo i)
    case (Cons r rs)
    show ?case
    proof (cases i)
      case 0
      then show ?thesis
        using Cons.prems by (cases rs) auto
    next
      case (Suc j)
      have "tiles (hr_end (shr_range r)) rs" "j < length rs" "lo < hr_end (shr_range r)"
        using Cons.prems Suc by simp_all
      then show ?thesis
        using Cons.IH [of "hr_end (shr_range r)" j] unfolding Suc nth_Cons_Suc by auto
    qed
  qed simp
  then show "lo \<le> hr_start (shr_range (rs ! i))" "hr_start (shr_range (rs ! i)) < hr_end (shr_range (rs ! i))"
    "Suc i < length rs \<Longrightarrow> hr_start (shr_range (rs ! Suc i)) = hr_end (shr_range (rs ! i))"
    "Suc i = length rs \<Longrightarrow> hr_end (shr_range (rs ! i)) = K_HASH_BUCKET_COUNT"
    "i = 0 \<Longrightarrow> hr_start (shr_range (rs ! i)) = lo"
    by simp_all
qed

lemma tiles_mono:
  assumes "tiles lo rs" and "i < j" and "j < length rs"
  shows "hr_end (shr_range (rs ! i)) \<le> hr_start (shr_range (rs ! j))"
  using assms(2,3)
proof (induction j)
  case (Suc j)
  have step: "hr_start (shr_range (rs ! Suc j)) = hr_end (shr_range (rs ! j))" "hr_start (shr_range (rs ! j)) < hr_end (shr_range (rs ! j))"
    using tiles_nth(2,3) [OF assms(1), of j] Suc.prems(2) by simp_all
  show ?case
  proof (cases "i = j")
    case False
    then show ?thesis
      using Suc step by simp
  qed (simp add: step)
qed simp

lemma find_shard_range_finds:
  assumes t: "tiles 0 rs" and ne: "rs \<noteq> []" and b: "bucket < K_HASH_BUCKET_COUNT"
  shows "find_shard_range rs bucket < length rs" "range_contains (shr_range (rs ! find_shard_range rs bucket)) bucket"
proof -
  define beyond where "beyond = (\<lambda>r :: ShardRange. bucket < hr_start (shr_range r))"
  have mono: "beyond (rs ! j)" if "i < j" "j < length rs" "beyond (rs ! i)" for i j
    using tiles_mono [OF t that(1,2)] tiles_nth(2) [OF t, of i] that by (simp add: beyond_def)
  define it where "it = upper_bound beyond rs 0 (length rs)"
  have it: "it \<le> length rs" "\<forall>i < it. \<not> beyond (rs ! i)" "\<forall>i. it \<le> i \<and> i < length rs \<longrightarrow> beyond (rs ! i)"
    unfolding it_def by (rule upper_bound_spec; (use mono in auto))+
  have "\<not> beyond (rs ! 0)"
    using tiles_nth(5) [OF t, of 0] ne by (simp add: beyond_def)
  then have pos: "0 < it"
    using it(3) ne by (cases "it = 0") auto
  have low: "hr_start (shr_range (rs ! (it - 1))) \<le> bucket"
    using it(2) pos by (simp add: beyond_def not_less)
  have high: "bucket < hr_end (shr_range (rs ! (it - 1)))"
  proof (cases "it = length rs")
    case True
    then show ?thesis
      using tiles_nth(4) [OF t, of "it - 1"] pos b by simp
  next
    case False
    then have "it < length rs"
      using it(1) by simp
    then show ?thesis
      using it(3) tiles_nth(3) [OF t, of "it - 1"] pos by (auto simp: beyond_def)
  qed
  have "find_shard_range rs bucket = it - 1"
    using pos low high by (simp add: find_shard_range_def it_def beyond_def range_contains_def Let_def)
  then show "find_shard_range rs bucket < length rs" "range_contains (shr_range (rs ! find_shard_range rs bucket)) bucket"
    using pos it(1) low high by (simp_all add: range_contains_def)
qed

section \<open>The ranges a table is created with\<close>

lemma tiles_map:
  assumes "\<And>i. f i < f (Suc i)" and "f n = K_HASH_BUCKET_COUNT"
  shows "tiles (f m) (map (\<lambda>i. \<lparr>shr_shard_index = g i, shr_range = \<lparr>hr_start = f i, hr_end = f (Suc i)\<rparr>\<rparr>) [m..<n])"
proof (induction "n - m" arbitrary: m)
  case (Suc k)
  then have "[m..<n] = m # [Suc m..<n]" and "k = n - Suc m"
    by (simp_all add: upt_conv_Cons)
  then show ?case
    using Suc.hyps(1) [of "Suc m"] assms(1) [of m] assms(2) by (cases "Suc m = n") (auto simp: upt_eq_Nil_conv)
qed simp

lemma div_step:
  assumes "0 < n" and "n \<le> (k :: nat)"
  shows "k * i div n < k * Suc i div n"
proof -
  have "Suc (k * i div n) = (k * i + n) div n"
    using div_add_self2 [of n "k * i"] assms(1) by linarith
  also have "\<dots> \<le> k * Suc i div n"
    using assms(2) by (intro div_le_mono) simp
  finally show ?thesis
    by simp
qed

lemma make_shard_ranges_tiles:
  assumes "0 < count" and "count \<le> int K_HASH_BUCKET_COUNT"
  shows "tiles 0 (make_shard_ranges count)" "make_shard_ranges count \<noteq> []"
proof -
  have n: "0 < nat count" "nat count \<le> K_HASH_BUCKET_COUNT"
    using assms by auto
  have "K_HASH_BUCKET_COUNT * nat count div nat count = K_HASH_BUCKET_COUNT"
    using n by simp
  from tiles_map [of "\<lambda>i. K_HASH_BUCKET_COUNT * i div nat count" "nat count" 0 int, OF div_step [OF n] this]
  show "tiles 0 (make_shard_ranges count)"
    using assms by (simp add: make_shard_ranges_def)
  show "make_shard_ranges count \<noteq> []"
    using assms by (simp add: make_shard_ranges_def)
qed

lemma tiles_end_le:
  assumes "tiles lo rs" and "r \<in> set rs"
  shows "hr_end (shr_range r) \<le> K_HASH_BUCKET_COUNT"
proof -
  obtain i where i: "i < length rs" "r = rs ! i"
    using assms(2) by (auto simp: in_set_conv_nth)
  define l where "l = length rs - 1"
  have l: "Suc l = length rs" "l < length rs" "i \<le> l"
    using i(1) by (auto simp: l_def)
  have "hr_end (shr_range (rs ! i)) \<le> hr_end (shr_range (rs ! l))"
    using tiles_mono [OF assms(1), of i l] tiles_nth(2) [OF assms(1) l(2)] l by (cases "i = l") auto
  then show ?thesis
    using tiles_nth(4) [OF assms(1) l(2,1)] i(2) by simp
qed

lemma make_shard_ranges_valid:
  assumes "0 < count" and "count \<le> int K_HASH_BUCKET_COUNT"
  shows "check_shard_ranges_is_valid count (make_shard_ranges count) = OK"
  using assms make_shard_ranges_tiles [OF assms] tiles_end_le [OF make_shard_ranges_tiles(1) [OF assms]]
  by (auto simp: check_shard_ranges_OK make_shard_ranges_def distinct_map inj_on_def comp_def)

lemma make_shard_ranges_index:
  assumes "i < length (make_shard_ranges count)"
  shows "shr_shard_index (make_shard_ranges count ! i) = int i"
  using assms by (auto simp: make_shard_ranges_def split: if_splits)

lemma hash_bucket_bound: "hash_bucket_for_key key < K_HASH_BUCKET_COUNT"
  by (simp add: hash_bucket_for_key_def K_HASH_BUCKET_COUNT_def)

lemma range_unique:
  assumes "tiles lo rs" and "i < length rs" and "j < length rs"
    and "range_contains (shr_range (rs ! i)) b" and "range_contains (shr_range (rs ! j)) b"
  shows "i = j"
  using tiles_mono [OF assms(1), of i j] tiles_mono [OF assms(1), of j i] assms(2-)
  by (cases i j rule: linorder_cases) (auto simp: range_contains_def)

lemma distinct_set_single: "distinct xs \<Longrightarrow> set xs = {x} \<Longrightarrow> xs = [x]"
  by (cases xs; cases "tl xs") auto

section \<open>Routing\<close>

text \<open>C26. A list of ranges that the check accepts routes every key: the binary search of the router returns a
  position in the list whose range holds the key's bucket, that position is the only one, and it is the position a
  scan of the whole list finds.\<close>

theorem routing_total_and_unique:
  assumes "check_shard_ranges_is_valid count ranges = OK"
  shows "find_shard_range ranges (hash_bucket_for_key key) < length ranges
    \<and> [i \<leftarrow> [0..<length ranges]. range_contains (shr_range (ranges ! i)) (hash_bucket_for_key key)]
       = [find_shard_range ranges (hash_bucket_for_key key)]"
proof -
  define b f where "b = hash_bucket_for_key key" and "f = find_shard_range ranges (hash_bucket_for_key key)"
  have t: "tiles 0 ranges" "ranges \<noteq> []"
    using assms by (auto simp: check_shard_ranges_OK)
  have f: "f < length ranges" "range_contains (shr_range (ranges ! f)) b"
    using find_shard_range_finds [OF t hash_bucket_bound [of key]] by (simp_all add: f_def b_def)
  define ps where "ps = [i \<leftarrow> [0..<length ranges]. range_contains (shr_range (ranges ! i)) b]"
  have "set ps = {f}"
  proof (rule set_eqI)
    fix i
    have "i \<in> set ps \<longleftrightarrow> i < length ranges \<and> range_contains (shr_range (ranges ! i)) b"
      by (auto simp: ps_def)
    then show "i \<in> set ps \<longleftrightarrow> i \<in> {f}"
      using f range_unique [OF t(1) _ f(1) _ f(2), of i] by blast
  qed
  moreover have "distinct ps"
    by (simp add: ps_def)
  ultimately have "ps = [f]"
    by (rule distinct_set_single [rotated])
  then show ?thesis
    using f(1) by (simp add: ps_def b_def f_def)
qed

theorem routing_witness:
  "find_shard_range (make_shard_ranges 3) (hash_bucket_for_key ''k'') < length (make_shard_ranges 3)"
proof -
  have "check_shard_ranges_is_valid 3 (make_shard_ranges 3) = OK"
    by (rule make_shard_ranges_valid) (simp_all add: K_HASH_BUCKET_COUNT_def)
  then show ?thesis
    using routing_total_and_unique by blast
qed

text \<open>C27. Creating a table with any number of shards between one and the bucket count gives ranges that the check
  accepts, with one range per shard and shard \<open>i\<close> at position \<open>i\<close>, and the shard a key is routed to holds a range of
  at least one bucket; outside these bounds no ranges are made and the check refuses every list.\<close>

theorem make_shard_ranges_correct:
  "(if 0 < count \<and> count \<le> int K_HASH_BUCKET_COUNT
    then check_shard_ranges_is_valid count (make_shard_ranges count) = OK \<and> int (length (make_shard_ranges count)) = count
      \<and> map shr_shard_index (make_shard_ranges count) = map int [0..<nat count]
      \<and> shr_shard_index (make_shard_ranges count ! find_shard_range (make_shard_ranges count) (hash_bucket_for_key key))
         = int (find_shard_range (make_shard_ranges count) (hash_bucket_for_key key))
    else make_shard_ranges count = [] \<and> check_shard_ranges_is_valid count ranges = INVALID_ARGUMENT)"
proof (cases "0 < count \<and> count \<le> int K_HASH_BUCKET_COUNT")
  case True
  then have "find_shard_range (make_shard_ranges count) (hash_bucket_for_key key) < length (make_shard_ranges count)"
    using find_shard_range_finds(1) [OF make_shard_ranges_tiles hash_bucket_bound [of key]] by blast
  from make_shard_ranges_index [OF this] show ?thesis
    using True make_shard_ranges_valid by (simp add: make_shard_ranges_def comp_def)
next
  case False
  then show ?thesis
    by (auto simp: make_shard_ranges_def check_shard_ranges_is_valid_def)
qed

end
