(* ===== verification/KV_Engine.thy ===== *)
theory KV_Engine
  imports Model "HOL-Library.List_Lexorder" "HOL-Library.Char_ord"
begin

text \<open>
  The key-value engine under a replica (\<^verbatim>\<open>storage/engine/kv_engine.h\<close>, \<^verbatim>\<open>storage/engine/map_engine.*\<close>).
  The abstract class is a record of the functions a caller dispatches to; the contract its callers rely on is the locale
  \<open>kv_engine\<close>.  \<^verbatim>\<open>MapEngine\<close> keeps a \<^verbatim>\<open>std::map\<close>, which is the list of its pairs in key order.  Strings
  are ordered by their bytes, as \<^verbatim>\<open>std::string\<close> orders them.  The mutex of the engine makes each call atomic and
  has no model of its own.
\<close>

section \<open>The interface\<close>

record 'e KVEngine =
  en_put :: "Key \<Rightarrow> Value \<Rightarrow> 'e \<Rightarrow> 'e \<times> Status"
  en_get :: "Key \<Rightarrow> 'e \<Rightarrow> Status + Value"
  en_del :: "Key \<Rightarrow> 'e \<Rightarrow> 'e \<times> Status"
  en_clear :: "'e \<Rightarrow> 'e \<times> Status"
  en_dump_all :: "'e \<Rightarrow> KV list"

section \<open>MapEngine\<close>

type_synonym MapEngine = "KV list"

text \<open>\<^verbatim>\<open>map[key] = value\<close>, \<^verbatim>\<open>map.count(key)\<close> and \<^verbatim>\<open>map.erase(key)\<close> of \<^verbatim>\<open>std::map\<close>.\<close>

fun std_map_assign :: "Key \<Rightarrow> Value \<Rightarrow> KV list \<Rightarrow> KV list" where
  "std_map_assign k v [] = [(k, v)]"
| "std_map_assign k v ((k', v') # m) =
    (if k < k' then (k, v) # (k', v') # m else if k = k' then (k, v) # m else (k', v') # std_map_assign k v m)"

definition std_map_count :: "Key \<Rightarrow> KV list \<Rightarrow> bool" where
  "std_map_count k m \<longleftrightarrow> list_ex (\<lambda>kv. fst kv = k) m"

fun std_map_erase :: "Key \<Rightarrow> KV list \<Rightarrow> KV list" where
  "std_map_erase k [] = []"
| "std_map_erase k ((k', v') # m) = (if k = k' then m else (k', v') # std_map_erase k m)"

definition map_put :: "Key \<Rightarrow> Value \<Rightarrow> MapEngine \<Rightarrow> MapEngine \<times> Status" where
  "map_put key value m = (std_map_assign key value m, OK)"

definition map_get :: "Key \<Rightarrow> MapEngine \<Rightarrow> Status + Value" where
  "map_get key m = (if \<not> std_map_count key m then Inl KEY_NOT_FOUND else Inr (the (map_of m key)))"

definition map_del :: "Key \<Rightarrow> MapEngine \<Rightarrow> MapEngine \<times> Status" where
  "map_del key m = (if \<not> std_map_count key m then (m, OK) else (std_map_erase key m, OK))"

definition map_dump_all :: "MapEngine \<Rightarrow> KV list" where
  "map_dump_all m = map (\<lambda>(k, v). (k, v)) m"

definition map_clear :: "MapEngine \<Rightarrow> MapEngine \<times> Status" where
  "map_clear m = ([], OK)"

fun map_for_each_kv :: "('s \<Rightarrow> Key \<Rightarrow> Value \<Rightarrow> 's \<times> Status) \<Rightarrow> MapEngine \<Rightarrow> 's \<Rightarrow> 's \<times> Status" where
  "map_for_each_kv fn [] st = (st, OK)"
| "map_for_each_kv fn ((k, v) # m) st = (let (st1, s1) = fn st k v in if fail s1 then (st1, s1) else map_for_each_kv fn m st1)"

definition map_engine :: "MapEngine KVEngine" where
  "map_engine = \<lparr>en_put = map_put, en_get = map_get, en_del = map_del, en_clear = map_clear, en_dump_all = map_dump_all\<rparr>"

section \<open>The contract of an engine\<close>

text \<open>An engine holds a finite map: \<open>stored\<close> is what it stores, \<open>valid\<close> its representation invariant.\<close>

locale kv_engine =
  fixes E :: "'e KVEngine" and valid :: "'e \<Rightarrow> bool" and stored :: "'e \<Rightarrow> Key \<rightharpoonup> Value"
  assumes put_law: "valid e \<Longrightarrow> en_put E k v e = (e', s) \<Longrightarrow> s = OK \<and> valid e' \<and> stored e' = (stored e)(k \<mapsto> v)"
    and get_law: "valid e \<Longrightarrow> en_get E k e = (case stored e k of None \<Rightarrow> Inl KEY_NOT_FOUND | Some v \<Rightarrow> Inr v)"
    and del_law: "valid e \<Longrightarrow> en_del E k e = (e', s) \<Longrightarrow> s = OK \<and> valid e' \<and> stored e' = (stored e)(k := None)"
    and clear_law: "valid e \<Longrightarrow> en_clear E e = (e', s) \<Longrightarrow> valid e' \<and> stored e' = Map.empty"
    and dump_law: "valid e \<Longrightarrow> distinct (map fst (en_dump_all E e)) \<and> map_of (en_dump_all E e) = stored e"
begin

text \<open>Writing a dump of one engine into another one.\<close>

lemma load_pairs:
  assumes "valid e"
  shows "\<exists>e'. visit_all (\<lambda>e kv. en_put E (fst kv) (snd kv) e) kvs e = (e', OK) \<and> valid e'
    \<and> (\<forall>k. stored e' k = (case map_of (rev kvs) k of None \<Rightarrow> stored e k | Some v \<Rightarrow> Some v))"
  using assms
proof (induction kvs arbitrary: e)
  case (Cons kv kvs)
  obtain e1 s1 where 1: "en_put E (fst kv) (snd kv) e = (e1, s1)"
    by fastforce
  note p = put_law [OF Cons.prems 1]
  then obtain e' where "visit_all (\<lambda>e kv. en_put E (fst kv) (snd kv) e) kvs e1 = (e', OK)" "valid e'"
      "\<And>k. stored e' k = (case map_of (rev kvs) k of None \<Rightarrow> stored e1 k | Some v \<Rightarrow> Some v)"
    using Cons.IH [of e1] by blast
  then show ?case
    using 1 p by (cases kv) (auto simp: fail_def ok_def map_add_def split: option.splits)
qed simp

lemma load_dump:
  assumes "valid e" and "stored e = Map.empty" and "valid f"
  shows "\<exists>e'. visit_all (\<lambda>e kv. en_put E (fst kv) (snd kv) e) (en_dump_all E f) e = (e', OK) \<and> valid e' \<and> stored e' = stored f"
proof -
  have "map_of (rev (en_dump_all E f)) = stored f"
    using dump_law [OF assms(3)] map_of_inject_set [of "rev (en_dump_all E f)" "en_dump_all E f"] by (simp flip: rev_map)
  then show ?thesis
    using load_pairs [OF assms(1), of "en_dump_all E f"] assms(2) by (fastforce split: option.splits)
qed

end

section \<open>MapEngine meets the contract\<close>

definition std_map_ok :: "KV list \<Rightarrow> bool" where
  "std_map_ok m \<longleftrightarrow> sorted_wrt (<) (map fst m)"

lemma std_map_assign_keys: "fst ` set (std_map_assign k v m) = insert k (fst ` set m)"
  by (induction k v m rule: std_map_assign.induct) auto

lemma std_map_assign_ok: "std_map_ok m \<Longrightarrow> std_map_ok (std_map_assign k v m)"
proof (induction k v m rule: std_map_assign.induct)
  case (2 k v k' v' m)
  have "\<forall>x \<in> fst ` set (std_map_assign k v m). k' < x" if "\<not> k < k'" "k \<noteq> k'"
    using 2(2) that by (auto simp: std_map_ok_def std_map_assign_keys)
  then show ?case
    using 2 by (auto simp: std_map_ok_def)
qed (simp add: std_map_ok_def)

lemma std_map_assign_map_of: "std_map_ok m \<Longrightarrow> map_of (std_map_assign k v m) = (map_of m)(k \<mapsto> v)"
  by (induction k v m rule: std_map_assign.induct) (auto simp: std_map_ok_def fun_upd_twist)

lemma std_map_erase_ok: "std_map_ok m \<Longrightarrow> std_map_ok (std_map_erase k m)"
proof (induction k m rule: std_map_erase.induct)
  case (2 k k' v' m)
  have "set (std_map_erase k m) \<subseteq> set m"
    by (induction k m rule: std_map_erase.induct) auto
  then show ?case
    using 2 by (fastforce simp: std_map_ok_def)
qed (simp add: std_map_ok_def)

lemma std_map_erase_map_of: "std_map_ok m \<Longrightarrow> map_of (std_map_erase k m) = (map_of m)(k := None)"
proof (induction k m rule: std_map_erase.induct)
  case (2 k k' v' m)
  have "map_of m k' = None"
    using 2(2) by (auto simp: std_map_ok_def map_of_eq_None_iff)
  then show ?case
    using 2 by (auto simp: std_map_ok_def fun_upd_twist)
qed simp

lemma std_map_count_iff: "std_map_count k m \<longleftrightarrow> map_of m k \<noteq> None"
  by (auto simp: std_map_count_def list_ex_iff map_of_eq_None_iff)

interpretation map_kv: kv_engine map_engine std_map_ok map_of
proof unfold_locales
  fix m k show "std_map_ok m \<Longrightarrow> en_get map_engine k m = (case map_of m k of None \<Rightarrow> Inl KEY_NOT_FOUND | Some v \<Rightarrow> Inr v)"
    by (auto simp: map_engine_def map_get_def std_map_count_iff split: option.splits)
next
  fix m m' s k assume "std_map_ok m" "en_del map_engine k m = (m', s)"
  then show "s = OK \<and> std_map_ok m' \<and> map_of m' = (map_of m)(k := None)"
    by (auto simp: map_engine_def map_del_def std_map_count_iff std_map_erase_ok std_map_erase_map_of split: if_splits)
next
  fix m :: MapEngine assume "std_map_ok m"
  then show "distinct (map fst (en_dump_all map_engine m)) \<and> map_of (en_dump_all map_engine m) = map_of m"
    by (auto simp: map_engine_def map_dump_all_def std_map_ok_def strict_sorted_iff)
qed (auto simp: map_engine_def map_put_def map_clear_def std_map_assign_ok std_map_assign_map_of, simp add: std_map_ok_def)

lemma map_for_each_kv_visits: "map_for_each_kv fn m st = visit_all (\<lambda>st kv. fn st (fst kv) (snd kv)) m st"
  by (induction fn m st rule: map_for_each_kv.induct) (simp_all add: Let_def split: prod.splits)

end
