(* ===== verification/KV_State_Machine.thy ===== *)
theory KV_State_Machine
  imports Snapshot_Safety Shard_Range KV_Engine "HOL-Library.Multiset"
begin

text \<open>
  The replicated state machine (\<^verbatim>\<open>storage/raft/state_machine/kv_state_machine.*\<close>): it applies committed log
  entries to an engine, remembers the outcome of every request that has an id, and is captured into and restored from
  snapshots.  The operations are proved against a specification on maps for every engine that meets the contract
  \<open>kv_engine\<close>, and the properties are stated for the \<^verbatim>\<open>MapEngine\<close> the program uses.

  The request records are a \<^verbatim>\<open>std::unordered_map\<close>.  They are an association list with distinct ids; the order in which
  the container is walked is not specified by the library, so the functions that walk it take the order as an argument,
  and the theorems hold for every order.  \<^verbatim>\<open>EngineType\<close> has the one value \<^verbatim>\<open>MAP\<close>, for which the constructor
  creates an engine, so the engine pointer is never null.
\<close>

section \<open>State and operations\<close>

record 'e KvStateMachine =
  sm_engine :: 'e
  sm_apply_index :: LogIndex
  sm_apply_term :: Term
  sm_request_records :: "(string \<times> RequestRecord) list"

definition new_KvStateMachine :: "EngineType \<Rightarrow> MapEngine KvStateMachine" where
  "new_KvStateMachine engine_type = (case engine_type of MAP \<Rightarrow>
     \<lparr>sm_engine = [], sm_apply_index = 0, sm_apply_term = 0, sm_request_records = []\<rparr>)"

definition sm_find_request :: "string \<Rightarrow> 'e KvStateMachine \<Rightarrow> Status + RequestRecord" where
  "sm_find_request request_id sm =
    (if request_id = [] then Inl INVALID_ARGUMENT
     else case map_of (sm_request_records sm) request_id of None \<Rightarrow> Inl KEY_NOT_FOUND | Some record \<Rightarrow> Inr record)"

definition mark_applied :: "LogEntry \<Rightarrow> 'e KvStateMachine \<Rightarrow> 'e KvStateMachine" where
  "mark_applied entry sm = sm\<lparr>sm_apply_term := le_term entry, sm_apply_index := le_index entry\<rparr>"

text \<open>The switch on the operation: the engine after it, the status the switch returns with, and the status to record.\<close>

definition apply_op :: "'e KVEngine \<Rightarrow> LogEntry \<Rightarrow> 'e \<Rightarrow> 'e \<times> Status \<times> Status" where
  "apply_op E entry e = (case le_op_type entry of
      PUT \<Rightarrow> (let (e1, status) = en_put E (le_key entry) (le_value entry) e in (e1, status, OK))
    | DEL \<Rightarrow> (let (e1, status) = en_del E (le_key entry) e in (e1, status, OK))
    | CAS \<Rightarrow> (case en_get E (le_key entry) e of
          Inl get_status \<Rightarrow> if get_status = KEY_NOT_FOUND then (e, OK, KEY_NOT_FOUND) else (e, get_status, OK)
        | Inr current \<Rightarrow>
            if current \<noteq> le_expected entry then (e, OK, CONDITION_NOT_MET)
            else (let (e1, status) = en_put E (le_key entry) (le_value entry) e in (e1, status, OK)))
    | _ \<Rightarrow> (e, OK, OK))"

definition emplace_record :: "LogEntry \<Rightarrow> Status \<Rightarrow> (string \<times> RequestRecord) list \<Rightarrow> (string \<times> RequestRecord) list" where
  "emplace_record entry apply_status records =
    (if map_of records (le_request_id entry) \<noteq> None then records
     else (le_request_id entry, \<lparr>rr_request_id = le_request_id entry, rr_op = le_op_type entry,
        rr_payload_hash = request_payload_hash (le_op_type entry) (le_key entry) (le_value entry) (le_expected entry),
        rr_apply_status = apply_status, rr_apply_msg = []\<rparr>) # records)"

definition apply_entry :: "'e KVEngine \<Rightarrow> LogEntry \<Rightarrow> 'e KvStateMachine \<Rightarrow> 'e KvStateMachine \<times> Status" where
  "apply_entry E entry sm =
    (if le_request_id entry \<noteq> [] \<and> \<not> is_kv_write_op (le_op_type entry) then (sm, INVALID_ARGUMENT)
     else if le_request_id entry \<noteq> [] \<and> is_kv_write_op (le_op_type entry) \<and> \<not> isl (sm_find_request (le_request_id entry) sm)
       then (mark_applied entry sm, OK)
     else let (e1, status, apply_status) = apply_op E entry (sm_engine sm); sm1 = sm\<lparr>sm_engine := e1\<rparr> in
       if fail status then (sm1, status)
       else let sm2 = (if le_request_id entry \<noteq> [] \<and> is_kv_write_op (le_op_type entry)
              then sm1\<lparr>sm_request_records := emplace_record entry apply_status (sm_request_records sm1)\<rparr> else sm1)
         in (mark_applied entry sm2, OK))"

definition store_record :: "RequestRecord \<Rightarrow> (string \<times> RequestRecord) list \<Rightarrow> (string \<times> RequestRecord) list" where
  "store_record record records = (rr_request_id record, record) # filter (\<lambda>p. fst p \<noteq> rr_request_id record) records"

definition put_visitor :: "'e KVEngine \<Rightarrow> 'e KvStateMachine \<Rightarrow> Key \<Rightarrow> Value \<Rightarrow> 'e KvStateMachine \<times> Status" where
  "put_visitor E sm key value = (let (e1, status) = en_put E key value (sm_engine sm) in (sm\<lparr>sm_engine := e1\<rparr>, status))"

definition record_visitor :: "'e KvStateMachine \<Rightarrow> RequestRecord \<Rightarrow> 'e KvStateMachine \<times> Status" where
  "record_visitor sm record =
    (if rr_request_id record = [] then (sm, INVALID_ARGUMENT)
     else (sm\<lparr>sm_request_records := store_record record (sm_request_records sm)\<rparr>, OK))"

text \<open>The two functions that walk the snapshot share a reader, whose state is passed along.\<close>

definition restore :: "'e KVEngine \<Rightarrow> SnapshotHeader option
    \<Rightarrow> (('e KvStateMachine \<Rightarrow> Key \<Rightarrow> Value \<Rightarrow> 'e KvStateMachine \<times> Status) \<Rightarrow> 'r \<Rightarrow> 'e KvStateMachine \<Rightarrow> 'r \<times> 'e KvStateMachine \<times> Status) option
    \<Rightarrow> (('e KvStateMachine \<Rightarrow> RequestRecord \<Rightarrow> 'e KvStateMachine \<times> Status) \<Rightarrow> 'r \<Rightarrow> 'e KvStateMachine \<Rightarrow> 'r \<times> 'e KvStateMachine \<times> Status) option
    \<Rightarrow> 'r \<Rightarrow> 'e KvStateMachine \<Rightarrow> 'r \<times> 'e KvStateMachine \<times> Status" where
  "restore E snap for_each_kv for_each_request reader sm = (case snap of None \<Rightarrow> (reader, sm, ERROR)
    | Some header \<Rightarrow>
      let sm0 = sm\<lparr>sm_engine := fst (en_clear E (sm_engine sm)), sm_request_records := []\<rparr>;
          (r1, sm1, s1) = (case for_each_kv of None \<Rightarrow> (reader, sm0, OK) | Some walk \<Rightarrow> walk (put_visitor E) reader sm0)
      in if fail s1 then (r1, sm1, s1)
         else let (r2, sm2, s2) = (case for_each_request of None \<Rightarrow> (r1, sm1, OK) | Some walk \<Rightarrow> walk record_visitor r1 sm1)
           in if fail s2 then (r2, sm2, s2)
              else (r2, sm2\<lparr>sm_apply_index := sh_apply_index header, sm_apply_term := sh_apply_term header\<rparr>, OK))"

definition sm_get :: "'e KVEngine \<Rightarrow> Key \<Rightarrow> 'e KvStateMachine \<Rightarrow> Status + Value" where
  "sm_get E key sm = en_get E key (sm_engine sm)"

definition capture_snapshot ::
  "'e KVEngine \<Rightarrow> (RequestRecord list \<Rightarrow> RequestRecord list) \<Rightarrow> 'e KvStateMachine \<Rightarrow> SnapshotData \<times> Status" where
  "capture_snapshot E order sm =
    (\<lparr>sd_header = \<lparr>sh_apply_index = sm_apply_index sm, sh_apply_term = sm_apply_term sm, sh_members = []\<rparr>,
       sd_kvs = en_dump_all E (sm_engine sm), sd_request_records = order (map snd (sm_request_records sm))\<rparr>, OK)"

definition sm_for_each_request ::
  "(RequestRecord list \<Rightarrow> RequestRecord list) \<Rightarrow> ('s \<Rightarrow> RequestRecord \<Rightarrow> 's \<times> Status) option \<Rightarrow> 'e KvStateMachine \<Rightarrow> 's
     \<Rightarrow> 's \<times> Status" where
  "sm_for_each_request order fn sm st = (case fn of None \<Rightarrow> (st, INVALID_ARGUMENT)
    | Some f \<Rightarrow> visit_all f (order (map snd (sm_request_records sm))) st)"

definition sm_for_each_kv :: "('s \<Rightarrow> Key \<Rightarrow> Value \<Rightarrow> 's \<times> Status) \<Rightarrow> MapEngine KvStateMachine \<Rightarrow> 's \<Rightarrow> 's \<times> Status" where
  "sm_for_each_kv fn sm st = map_for_each_kv fn (sm_engine sm) st"

section \<open>Specification\<close>

text \<open>What a replica promises: a map, the outcome of every identified request, and the last applied position.\<close>

record KvSpec =
  sp_content :: "Key \<rightharpoonup> Value"
  sp_results :: "string \<rightharpoonup> RequestRecord"
  sp_index :: LogIndex
  sp_term :: Term

definition empty_spec :: KvSpec where
  "empty_spec = \<lparr>sp_content = Map.empty, sp_results = Map.empty, sp_index = 0, sp_term = 0\<rparr>"

definition write_result :: "LogEntry \<Rightarrow> (Key \<rightharpoonup> Value) \<Rightarrow> Status" where
  "write_result entry m = (if le_op_type entry \<noteq> CAS then OK
     else case m (le_key entry) of None \<Rightarrow> KEY_NOT_FOUND | Some v \<Rightarrow> if v = le_expected entry then OK else CONDITION_NOT_MET)"

definition write_effect :: "LogEntry \<Rightarrow> (Key \<rightharpoonup> Value) \<Rightarrow> (Key \<rightharpoonup> Value)" where
  "write_effect entry m = (if \<not> is_kv_write_op (le_op_type entry) \<or> write_result entry m \<noteq> OK then m
     else m(le_key entry := (if le_op_type entry = DEL then None else Some (le_value entry))))"

definition request_record_of :: "LogEntry \<Rightarrow> (Key \<rightharpoonup> Value) \<Rightarrow> RequestRecord" where
  "request_record_of entry m = \<lparr>rr_request_id = le_request_id entry, rr_op = le_op_type entry,
     rr_payload_hash = request_payload_hash (le_op_type entry) (le_key entry) (le_value entry) (le_expected entry),
     rr_apply_status = write_result entry m, rr_apply_msg = []\<rparr>"

definition spec_apply :: "KvSpec \<Rightarrow> LogEntry \<Rightarrow> KvSpec \<times> Status" where
  "spec_apply sp entry =
    (let id = le_request_id entry; moved = sp\<lparr>sp_index := le_index entry, sp_term := le_term entry\<rparr> in
     if id \<noteq> [] \<and> \<not> is_kv_write_op (le_op_type entry) then (sp, INVALID_ARGUMENT)
     else if id \<noteq> [] \<and> sp_results sp id \<noteq> None then (moved, OK)
     else (moved\<lparr>sp_content := write_effect entry (sp_content sp),
            sp_results := (if id = [] then sp_results sp else (sp_results sp)(id \<mapsto> request_record_of entry (sp_content sp)))\<rparr>, OK))"

definition sm_abs :: "('e \<Rightarrow> Key \<rightharpoonup> Value) \<Rightarrow> 'e KvStateMachine \<Rightarrow> KvSpec" where
  "sm_abs stored sm = \<lparr>sp_content = stored (sm_engine sm), sp_results = map_of (sm_request_records sm),
     sp_index = sm_apply_index sm, sp_term = sm_apply_term sm\<rparr>"

definition records_ok :: "(string \<times> RequestRecord) list \<Rightarrow> bool" where
  "records_ok records \<longleftrightarrow> distinct (map fst records)
     \<and> list_all (\<lambda>(id, r). id \<noteq> [] \<and> rr_request_id r = id \<and> is_kv_write_op (rr_op r)) records"

definition sm_ok :: "('e \<Rightarrow> bool) \<Rightarrow> 'e KvStateMachine \<Rightarrow> bool" where
  "sm_ok valid sm \<longleftrightarrow> valid (sm_engine sm) \<and> records_ok (sm_request_records sm)"

section \<open>Request records\<close>

lemma store_record_ok:
  assumes "records_ok records" and "rr_request_id x \<noteq> []" and "is_kv_write_op (rr_op x)"
  shows "records_ok (store_record x records)" "map_of (store_record x records) = (map_of records)(rr_request_id x \<mapsto> x)"
proof -
  have "map_of (filter (\<lambda>p. fst p \<noteq> k) ps) k' = (if k' = k then None else map_of ps k')" for k k' and ps :: "(string \<times> RequestRecord) list"
    by (induction ps) auto
  then show "map_of (store_record x records) = (map_of records)(rr_request_id x \<mapsto> x)"
    by (auto simp: store_record_def)
  show "records_ok (store_record x records)"
    using assms by (auto simp: records_ok_def store_record_def distinct_map_filter list_all_iff)
qed

lemma visit_records_general:
  assumes "list_all (\<lambda>x. rr_request_id x \<noteq> [] \<and> is_kv_write_op (rr_op x)) rs" and "records_ok (sm_request_records sm)"
  shows "\<exists>recs. visit_all record_visitor rs sm = (sm\<lparr>sm_request_records := recs\<rparr>, OK) \<and> records_ok recs
    \<and> map_of recs = map_of (sm_request_records sm) ++ map_of (rev (map (\<lambda>x. (rr_request_id x, x)) rs))"
  using assms
proof (induction rs arbitrary: sm)
  case Nil
  then show ?case
    by (intro exI [of _ "sm_request_records sm"]) simp
next
  case (Cons x rs)
  let ?sm = "sm\<lparr>sm_request_records := store_record x (sm_request_records sm)\<rparr>"
  have x: "rr_request_id x \<noteq> []" "is_kv_write_op (rr_op x)"
    using Cons.prems(1) by simp_all
  note st = store_record_ok [OF Cons.prems(2) x]
  obtain recs where "visit_all record_visitor rs ?sm = (?sm\<lparr>sm_request_records := recs\<rparr>, OK)" "records_ok recs"
      "map_of recs = map_of (store_record x (sm_request_records sm)) ++ map_of (rev (map (\<lambda>x. (rr_request_id x, x)) rs))"
    using Cons.IH [of ?sm] Cons.prems(1) st(1) by auto
  moreover have "record_visitor sm x = (?sm, OK)"
    using x by (simp add: record_visitor_def)
  ultimately show ?case
    using st(2) by (auto simp: fail_def ok_def)
qed

lemma visit_records:
  assumes "list_all (\<lambda>x. rr_request_id x \<noteq> [] \<and> is_kv_write_op (rr_op x)) rs" and "distinct (map rr_request_id rs)"
    and "sm_request_records sm = []"
  shows "\<exists>recs. visit_all record_visitor rs sm = (sm\<lparr>sm_request_records := recs\<rparr>, OK) \<and> records_ok recs
    \<and> map_of recs = map_of (map (\<lambda>x. (rr_request_id x, x)) rs)"
proof -
  let ?ps = "map (\<lambda>x. (rr_request_id x, x)) rs"
  have "map fst ?ps = map rr_request_id rs"
    by simp
  then have "map_of (rev ?ps) = map_of ?ps"
    using assms(2) map_of_inject_set [of "rev ?ps" ?ps] by (metis distinct_rev rev_map set_rev)
  then show ?thesis
    using visit_records_general [OF assms(1), of sm] assms(3) by (auto simp: records_ok_def)
qed

text \<open>The records of a state machine, walked in any order, are the same records.\<close>

lemma walked_records:
  assumes "records_ok records" and "mset rs = mset (map snd records)"
  shows "list_all (\<lambda>x. rr_request_id x \<noteq> [] \<and> is_kv_write_op (rr_op x)) rs" "distinct (map rr_request_id rs)"
    "map_of (map (\<lambda>x. (rr_request_id x, x)) rs) = map_of records"
proof -
  let ?ps = "map (\<lambda>x. (rr_request_id x, x)) rs"
  have set: "set rs = snd ` set records"
    using assms(2) by (metis mset_eq_setD set_map)
  have ids: "map (\<lambda>x. (rr_request_id x, x)) (map snd records) = records" "map rr_request_id (map snd records) = map fst records"
    using assms(1) by (induction records) (auto simp: records_ok_def)
  show "list_all (\<lambda>x. rr_request_id x \<noteq> [] \<and> is_kv_write_op (rr_op x)) rs"
    using assms(1) by (auto simp: records_ok_def list_all_iff set)
  have "mset (map rr_request_id rs) = mset (map fst records)"
    using assms(2) ids(2) by (metis mset_map)
  then show d: "distinct (map rr_request_id rs)"
    using assms(1) by (metis records_ok_def mset_eq_imp_distinct_iff)
  have "set ?ps = set (map (\<lambda>x. (rr_request_id x, x)) (map snd records))"
    by (simp add: set image_image)
  then have "set ?ps = set records"
    unfolding ids(1) .
  moreover have "distinct (map fst ?ps)"
    using d by (simp add: comp_def)
  ultimately show "map_of ?ps = map_of records"
    using assms(1) map_of_inject_set [of ?ps records] by (simp add: records_ok_def)
qed

section \<open>The operations meet the specification\<close>

context kv_engine
begin

lemma apply_op_effect:
  assumes "valid e" and "apply_op E entry e = (e', status, apply_status)"
  shows "status = OK" "valid e'" "stored e' = write_effect entry (stored e)" "apply_status = write_result entry (stored e)"
  using assms put_law [OF assms(1)] del_law [OF assms(1)]
  by (auto simp: apply_op_def write_effect_def write_result_def is_kv_write_op_def get_law
      split: WriteOpType.splits prod.splits option.splits if_splits)

lemma emplace_record_ok:
  assumes "records_ok records" and "le_request_id entry \<noteq> []" and "is_kv_write_op (le_op_type entry)"
  shows "records_ok (emplace_record entry s records)"
  using assms by (auto simp: records_ok_def emplace_record_def map_of_eq_None_iff image_iff)

lemma apply_entry_refines:
  assumes ok: "sm_ok valid sm" and run: "apply_entry E entry sm = (sm', s)"
  shows "sm_ok valid sm' \<and> spec_apply (sm_abs stored sm) entry = (sm_abs stored sm', s)"
proof -
  obtain e1 status apply_status where op: "apply_op E entry (sm_engine sm) = (e1, status, apply_status)"
    by (metis prod_cases3)
  note eff = apply_op_effect [OF _ op]
  have "valid (sm_engine sm)" "records_ok (sm_request_records sm)"
    using ok by (simp_all add: sm_ok_def)
  then show ?thesis
    using run op eff emplace_record_ok [of "sm_request_records sm" entry]
    by (auto simp: apply_entry_def spec_apply_def sm_ok_def sm_abs_def mark_applied_def sm_find_request_def emplace_record_def
        request_record_of_def fail_def ok_def Let_def split: if_splits option.splits)
qed

lemma apply_all_refines:
  "sm_ok valid sm \<Longrightarrow> visit_all (\<lambda>sm entry. apply_entry E entry sm) es sm = (sm', s) \<Longrightarrow>
   sm_ok valid sm' \<and> visit_all spec_apply es (sm_abs stored sm) = (sm_abs stored sm', s)"
proof (induction es arbitrary: sm)
  case (Cons x es)
  obtain sm1 s1 where 1: "apply_entry E x sm = (sm1, s1)"
    by fastforce
  note a = apply_entry_refines [OF Cons.prems(1) 1]
  then show ?case
    using Cons.prems(2) Cons.IH [of sm1] 1 by (auto split: if_splits)
qed simp

text \<open>Restoring from a reader that visits given pairs and then given records.\<close>

lemma put_visitor_all:
  "visit_all (\<lambda>sm kv. put_visitor E sm (fst kv) (snd kv)) kvs sm =
   (let (e, s) = visit_all (\<lambda>e kv. en_put E (fst kv) (snd kv) e) kvs (sm_engine sm) in (sm\<lparr>sm_engine := e\<rparr>, s))"
  by (induction kvs arbitrary: sm) (auto simp: put_visitor_def Let_def split: prod.splits)

lemma restore_visits:
  assumes other: "valid (sm_engine sm)" and source: "valid f"
    and kv: "\<And>sm. snd (walk_kv (put_visitor E) r sm) = visit_all (\<lambda>sm kv. put_visitor E sm (fst kv) (snd kv)) (en_dump_all E f) sm"
    and rec: "\<And>sm sm' r1. walk_kv (put_visitor E) r sm = (r1, sm', OK) \<Longrightarrow> snd (walk_rec record_visitor r1 sm') = visit_all record_visitor rs sm'"
    and ids: "list_all (\<lambda>x. rr_request_id x \<noteq> [] \<and> is_kv_write_op (rr_op x)) rs" "distinct (map rr_request_id rs)"
  shows "\<exists>r' sm'. restore E (Some header) (Some walk_kv) (Some walk_rec) r sm = (r', sm', OK) \<and> sm_ok valid sm'
    \<and> sm_abs stored sm' = \<lparr>sp_content = stored f, sp_results = map_of (map (\<lambda>x. (rr_request_id x, x)) rs),
        sp_index = sh_apply_index header, sp_term = sh_apply_term header\<rparr>"
proof -
  obtain e0 s0 where clear: "en_clear E (sm_engine sm) = (e0, s0)"
    by fastforce
  define sm0 where "sm0 = sm\<lparr>sm_engine := e0, sm_request_records := []\<rparr>"
  obtain e1 where e1: "visit_all (\<lambda>e kv. en_put E (fst kv) (snd kv) e) (en_dump_all E f) e0 = (e1, OK)" "valid e1" "stored e1 = stored f"
    using load_dump [OF _ _ source] clear_law [OF other clear] by blast
  define sm1 where "sm1 = sm0\<lparr>sm_engine := e1\<rparr>"
  have "snd (walk_kv (put_visitor E) r sm0) = (sm1, OK)"
    using e1(1) by (simp add: kv put_visitor_all sm0_def sm1_def)
  then obtain r1 where r1: "walk_kv (put_visitor E) r sm0 = (r1, sm1, OK)"
    by (metis prod.collapse)
  obtain recs where recs: "visit_all record_visitor rs sm1 = (sm1\<lparr>sm_request_records := recs\<rparr>, OK)" "records_ok recs"
      "map_of recs = map_of (map (\<lambda>x. (rr_request_id x, x)) rs)"
    using visit_records [OF ids, of sm1] by (auto simp: sm1_def sm0_def)
  obtain r2 where r2: "walk_rec record_visitor r1 sm1 = (r2, sm1\<lparr>sm_request_records := recs\<rparr>, OK)"
    using rec [OF r1] recs(1) by (metis prod.collapse)
  show ?thesis
    using clear r1 r2 e1(2,3) recs(2,3) by (auto simp: restore_def fail_def ok_def sm_ok_def sm_abs_def sm1_def simp flip: sm0_def)
qed

end

section \<open>Retries at the level of the specification\<close>

text \<open>The log without the entries whose request id occurred before.\<close>

fun first_requests :: "string set \<Rightarrow> LogEntry list \<Rightarrow> LogEntry list" where
  "first_requests seen [] = []"
| "first_requests seen (e # es) =
    (if le_request_id e = [] then e # first_requests seen es
     else if le_request_id e \<in> seen then first_requests seen es
     else e # first_requests (insert (le_request_id e) seen) es)"

definition ids_on_writes :: "LogEntry list \<Rightarrow> bool" where
  "ids_on_writes es \<longleftrightarrow> (\<forall>e \<in> set es. le_request_id e = [] \<or> is_kv_write_op (le_op_type e))"

lemma spec_apply_cases:
  assumes "ids_on_writes [e]"
  shows "snd (spec_apply sp e) = OK"
    "le_request_id e \<noteq> [] \<and> le_request_id e \<in> dom (sp_results sp) \<Longrightarrow>
      sp_content (fst (spec_apply sp e)) = sp_content sp \<and> sp_results (fst (spec_apply sp e)) = sp_results sp"
    "\<not> (le_request_id e \<noteq> [] \<and> le_request_id e \<in> dom (sp_results sp)) \<Longrightarrow>
      sp_content (fst (spec_apply sp e)) = write_effect e (sp_content sp) \<and> sp_results (fst (spec_apply sp e)) =
        (if le_request_id e = [] then sp_results sp else (sp_results sp)(le_request_id e \<mapsto> request_record_of e (sp_content sp)))"
  using assms by (auto simp: spec_apply_def ids_on_writes_def Let_def)

lemma spec_retries:
  assumes "ids_on_writes es" and "sp_content sp = sp_content sq" and "sp_results sp = sp_results sq"
  shows "\<exists>sp' sq'. visit_all spec_apply es sp = (sp', OK) \<and> visit_all spec_apply (first_requests (dom (sp_results sp)) es) sq = (sq', OK)
    \<and> sp_content sp' = sp_content sq' \<and> sp_results sp' = sp_results sq'"
  using assms
proof (induction es arbitrary: sp sq)
  case (Cons e es)
  have e: "ids_on_writes [e]" and es: "ids_on_writes es"
    using Cons.prems(1) by (simp_all add: ids_on_writes_def)
  obtain sp1 where p: "spec_apply sp e = (sp1, OK)"
    using spec_apply_cases(1) [OF e] by (metis prod.collapse)
  obtain sq1 where q: "spec_apply sq e = (sq1, OK)"
    using spec_apply_cases(1) [OF e] by (metis prod.collapse)
  note P = spec_apply_cases(2,3) [OF e, of sp, unfolded p fst_conv] and Q = spec_apply_cases(3) [OF e, of sq, unfolded q fst_conv]
  show ?case
  proof (cases "le_request_id e \<noteq> [] \<and> le_request_id e \<in> dom (sp_results sp)")
    case True
    then show ?thesis
      using Cons.IH [OF es, of sp1 sq] P(1) p Cons.prems(2,3) by (auto simp: fail_def ok_def)
  next
    case False
    have "sp_content sp1 = sp_content sq1" "sp_results sp1 = sp_results sq1"
      using P(2) [OF False] Q False Cons.prems(2,3) by auto
    moreover have "first_requests (dom (sp_results sp)) (e # es) = e # first_requests (dom (sp_results sp1)) es"
      using P(2) [OF False] False by auto
    ultimately show ?thesis
      using Cons.IH [OF es, of sp1 sq1] p q by (auto simp: fail_def ok_def)
  qed
qed simp

section \<open>The state machine over MapEngine\<close>

text \<open>Applying a list of committed entries, up to the first failure, as the apply loop of a replica does.\<close>

abbreviation apply_all :: "LogEntry list \<Rightarrow> MapEngine KvStateMachine \<Rightarrow> MapEngine KvStateMachine \<times> Status" where
  "apply_all es sm \<equiv> visit_all (\<lambda>sm entry. apply_entry map_engine entry sm) es sm"

lemma new_KvStateMachine_ok [simp]:
  "sm_ok std_map_ok (new_KvStateMachine t)" "sm_abs map_of (new_KvStateMachine t) = empty_spec"
  by (cases t, simp add: new_KvStateMachine_def sm_ok_def sm_abs_def std_map_ok_def records_ok_def empty_spec_def)+

text \<open>C28. The state machine over \<^verbatim>\<open>MapEngine\<close> implements its specification: applying any list of entries to a new
  state machine, up to the first refused one, ends with the status of the specification, in a state whose contents,
  request results and applied position are those of the specification; reads and request lookups in it are lookups in
  the maps of the specification.\<close>

theorem state_machine_refines_spec:
  assumes "apply_all es (new_KvStateMachine t) = (sm, s)" and "visit_all spec_apply es empty_spec = (sp, s')"
  shows "s = s' \<and> sm_abs map_of sm = sp
    \<and> sm_get map_engine key sm = (case sp_content sp key of None \<Rightarrow> Inl KEY_NOT_FOUND | Some v \<Rightarrow> Inr v)
    \<and> (rid \<noteq> [] \<longrightarrow> sm_find_request rid sm = (case sp_results sp rid of None \<Rightarrow> Inl KEY_NOT_FOUND | Some r \<Rightarrow> Inr r))"
proof -
  have r: "sm_ok std_map_ok sm" "sm_abs map_of sm = sp" "s = s'"
    using map_kv.apply_all_refines [OF _ assms(1)] assms(2) by simp_all
  then show ?thesis
    using map_kv.get_law [of "sm_engine sm" key] by (auto simp: sm_get_def sm_ok_def sm_abs_def sm_find_request_def)
qed

definition demo_write :: "string \<Rightarrow> int \<Rightarrow> LogEntry" where
  "demo_write v i = default_LogEntry\<lparr>le_op_type := PUT, le_key := ''k'', le_value := v, le_index := i, le_term := 1, le_request_id := ''q''\<rparr>"

definition demo_cas :: "string \<Rightarrow> string \<Rightarrow> int \<Rightarrow> LogEntry" where
  "demo_cas x v i = default_LogEntry\<lparr>le_op_type := CAS, le_key := ''k'', le_expected := x, le_value := v, le_index := i, le_term := 1\<rparr>"

theorem state_machine_refines_spec_witness:
  "\<exists>sm. apply_all [demo_write ''a'' 1, demo_cas ''a'' ''b'' 2] (new_KvStateMachine MAP) = (sm, OK) \<and> sm_get map_engine ''k'' sm = Inr ''b''"
proof -
  obtain sm s where 1: "apply_all [demo_write ''a'' 1, demo_cas ''a'' ''b'' 2] (new_KvStateMachine MAP) = (sm, s)"
    by fastforce
  obtain sp s' where 2: "visit_all spec_apply [demo_write ''a'' 1, demo_cas ''a'' ''b'' 2] empty_spec = (sp, s')"
    by fastforce
  then have "s' = OK" "sp_content sp ''k'' = Some ''b''"
    by (auto simp: demo_write_def demo_cas_def default_LogEntry_def spec_apply_def empty_spec_def write_effect_def write_result_def
        is_kv_write_op_def fail_def ok_def Let_def)
  then show ?thesis
    using state_machine_refines_spec [OF 1 2, of "''k''"] 1 by simp
qed

text \<open>C29. Writes take effect once.  In every log whose request ids are on writes, dropping the entries that
  repeat an earlier request id (a client's retries, committed again) changes neither the stored pairs nor any recorded
  request result, and every entry of both logs is applied.\<close>

theorem retries_have_no_effect:
  assumes "ids_on_writes es"
  shows "\<exists>sm sm'. apply_all es (new_KvStateMachine t) = (sm, OK) \<and> apply_all (first_requests {} es) (new_KvStateMachine t) = (sm', OK)
    \<and> (\<forall>key. sm_get map_engine key sm = sm_get map_engine key sm') \<and> (\<forall>id. sm_find_request id sm = sm_find_request id sm')"
proof -
  obtain sm s where 1: "apply_all es (new_KvStateMachine t) = (sm, s)"
    by fastforce
  obtain sm' s' where 2: "apply_all (first_requests {} es) (new_KvStateMachine t) = (sm', s')"
    by fastforce
  note r1 = map_kv.apply_all_refines [OF _ 1, simplified] and r2 = map_kv.apply_all_refines [OF _ 2, simplified]
  have "\<exists>sp sq. visit_all spec_apply es empty_spec = (sp, OK) \<and> visit_all spec_apply (first_requests {} es) empty_spec = (sq, OK)
      \<and> sp_content sp = sp_content sq \<and> sp_results sp = sp_results sq"
    using spec_retries [OF assms, of empty_spec empty_spec] by (simp add: empty_spec_def)
  then have "s = OK" "s' = OK" "map_of (sm_engine sm) = map_of (sm_engine sm')"
      "map_of (sm_request_records sm) = map_of (sm_request_records sm')"
    using r1 r2 by (auto simp: sm_abs_def)
  then show ?thesis
    using 1 2 r1 r2 map_kv.get_law by (auto simp: sm_get_def sm_find_request_def sm_ok_def)
qed

theorem retries_have_no_effect_witness:
  "\<exists>sm. apply_all [demo_write ''a'' 1, demo_cas ''a'' ''b'' 2, demo_write ''a'' 3] (new_KvStateMachine MAP) = (sm, OK)
     \<and> sm_get map_engine ''k'' sm = Inr ''b''"
proof -
  have "ids_on_writes [demo_write ''a'' 1, demo_cas ''a'' ''b'' 2, demo_write ''a'' 3]"
    by (simp add: ids_on_writes_def demo_write_def demo_cas_def default_LogEntry_def is_kv_write_op_def)
  from retries_have_no_effect [OF this, of MAP] obtain sm sm' where
    run: "apply_all [demo_write ''a'' 1, demo_cas ''a'' ''b'' 2, demo_write ''a'' 3] (new_KvStateMachine MAP) = (sm, OK)"
    and run': "apply_all (first_requests {} [demo_write ''a'' 1, demo_cas ''a'' ''b'' 2, demo_write ''a'' 3]) (new_KvStateMachine MAP) = (sm', OK)"
    and same: "sm_get map_engine ''k'' sm = sm_get map_engine ''k'' sm'"
    by blast
  have "first_requests {} [demo_write ''a'' 1, demo_cas ''a'' ''b'' 2, demo_write ''a'' 3] = [demo_write ''a'' 1, demo_cas ''a'' ''b'' 2]"
    by (simp add: demo_write_def demo_cas_def default_LogEntry_def)
  then have "sm_get map_engine ''k'' sm' = Inr ''b''"
    using run' by (auto simp: demo_write_def demo_cas_def default_LogEntry_def apply_entry_def new_KvStateMachine_def sm_find_request_def
        is_kv_write_op_def apply_op_def map_engine_def map_put_def map_get_def std_map_count_def mark_applied_def emplace_record_def
        fail_def ok_def sm_get_def)
  then show ?thesis
    using run same by simp
qed

text \<open>C30. A replica that continues from a snapshot equals one that applied the whole log.  A state machine that
  applied a prefix is captured (its records walked in any order), the snapshot is written and published, and another
  state machine, in any valid state, is restored from the file: the restore succeeds, and after any further entries the
  two have the same contents, request results and applied position, with the same status.\<close>

theorem snapshot_continues_log:
  assumes order: "\<forall>rs. mset (order rs) = mset rs"
    and prefix: "apply_all es (new_KvStateMachine t) = (sm, OK)"
    and capture: "capture_snapshot map_engine order sm = (snapshot, OK)"
    and fits: "fits_snapshot ((sd_header snapshot)\<lparr>sh_members := members\<rparr>) (sd_kvs snapshot) (sd_request_records snapshot)"
    and written: "write_local_snapshot_candidate (new_SnapshotStore dir) snapshot members i d = (d1, OK)"
    and published: "publish_local_snapshot (new_SnapshotStore dir) i d1 = (d2, OK, True)"
    and opened: "open_reader (new_SnapshotStore dir) d2 = (d3, Inr (Some reader))"
    and other: "sm_ok std_map_ok other"
  shows "\<exists>r sm1. restore map_engine (Some (sr_header reader)) (Some sr_for_each_kv) (Some sr_for_each_request) reader other = (r, sm1, OK)
    \<and> map_prod (sm_abs map_of) id (apply_all rest sm1) = map_prod (sm_abs map_of) id (apply_all (es @ rest) (new_KvStateMachine t))"
proof -
  have sm: "sm_ok std_map_ok sm"
    using map_kv.apply_all_refines [OF _ prefix] by simp
  have snap: "sd_kvs snapshot = en_dump_all map_engine (sm_engine sm)" "sd_request_records snapshot = order (map snd (sm_request_records sm))"
      "sh_apply_index (sd_header snapshot) = sm_apply_index sm" "sh_apply_term (sd_header snapshot) = sm_apply_term sm"
    using capture by (auto simp: capture_snapshot_def)
  have init: "sr_initialize (Some (snapshot_bytes ((sd_header snapshot)\<lparr>sh_members := members\<rparr>) (sd_kvs snapshot) (sd_request_records snapshot))) = Inr reader"
    using open_reader_reads [OF opened] published_file [OF written published] by (simp add: snapshot_of_def)
  note readback = sr_reads_back [OF fits init, unfolded reads_back_def, where put = "put_visitor map_engine" and add = record_visitor]
  have recs: "records_ok (sm_request_records sm)" "mset (sd_request_records snapshot) = mset (map snd (sm_request_records sm))"
    using sm order by (simp_all add: sm_ok_def snap)
  note walked = walked_records [OF recs]
  obtain r sm1 where r: "restore map_engine (Some (sr_header reader)) (Some sr_for_each_kv) (Some sr_for_each_request) reader other = (r, sm1, OK)"
      "sm_ok std_map_ok sm1" "sm_abs map_of sm1 = sm_abs map_of sm"
    using map_kv.restore_visits [where sm = other and f = "sm_engine sm" and r = reader and header = "sr_header reader"
        and walk_kv = sr_for_each_kv and walk_rec = sr_for_each_request and rs = "sd_request_records snapshot"]
      readback walked other sm by (auto simp: sm_ok_def snap sm_abs_def)
  have cont: "map_prod (sm_abs map_of) id (apply_all rest x) = visit_all spec_apply rest (sm_abs map_of x)" if "sm_ok std_map_ok x" for x
    using map_kv.apply_all_refines [OF that] by (cases "apply_all rest x") auto
  have "apply_all (es @ rest) (new_KvStateMachine t) = apply_all rest sm"
    by (simp add: visit_all_append prefix fail_def ok_def)
  then show ?thesis
    using r cont [OF sm] cont [OF r(2)] by auto
qed

definition demo_machine :: "MapEngine KvStateMachine" where
  "demo_machine = \<lparr>sm_engine = [(''k'', ''a'')], sm_apply_index = 1, sm_apply_term = 1,
     sm_request_records = [(''q'', request_record_of (demo_write ''a'' 1) Map.empty)]\<rparr>"

lemma demo_machine_run: "apply_all [demo_write ''a'' 1] (new_KvStateMachine MAP) = (demo_machine, OK)"
  by (simp add: demo_machine_def demo_write_def default_LogEntry_def apply_entry_def new_KvStateMachine_def sm_find_request_def
      is_kv_write_op_def apply_op_def map_engine_def map_put_def mark_applied_def emplace_record_def fail_def ok_def
      request_record_of_def write_result_def)

lemma demo_machine_fits:
  "fits_snapshot \<lparr>sh_apply_index = 1, sh_apply_term = 1, sh_members = []\<rparr> [(''k'', ''a'')] [request_record_of (demo_write ''a'' 1) Map.empty]"
  by (simp add: fits_snapshot_def fits_SnapshotHeader_def fits_signed_def fits_kv_def fits_string_def fits_RequestRecord_def
      request_record_of_def demo_write_def write_result_def is_kv_write_op_def to_rpc_code_def status_code_table_def status_of_int_def
      snapshot_bytes_def snapshot_body_def encode_SnapshotHeader_def encode_RequestRecord_def encode_vector_def encode_string_def
      K_SNAPSHOT_TRAILER_BYTES_def)

theorem snapshot_continues_log_witness:
  "\<exists>d1 d2 d3 reader r sm1. write_local_snapshot_candidate (new_SnapshotStore ''r'') (fst (capture_snapshot map_engine rev demo_machine)) [] 1 demo_snapshot_disk = (d1, OK)
     \<and> publish_local_snapshot (new_SnapshotStore ''r'') 1 d1 = (d2, OK, True)
     \<and> open_reader (new_SnapshotStore ''r'') d2 = (d3, Inr (Some reader))
     \<and> restore map_engine (Some (sr_header reader)) (Some sr_for_each_kv) (Some sr_for_each_request) reader (new_KvStateMachine MAP) = (r, sm1, OK)
     \<and> sm_abs map_of sm1 = sm_abs map_of demo_machine"
proof -
  define snapshot where "snapshot = fst (capture_snapshot map_engine rev demo_machine)"
  have capture: "capture_snapshot map_engine rev demo_machine = (snapshot, OK)"
    by (simp add: snapshot_def capture_snapshot_def)
  have snap: "(sd_header snapshot)\<lparr>sh_members := []\<rparr> = \<lparr>sh_apply_index = 1, sh_apply_term = 1, sh_members = []\<rparr>"
      "sd_kvs snapshot = [(''k'', ''a'')]" "sd_request_records snapshot = [request_record_of (demo_write ''a'' 1) Map.empty]"
    by (simp_all add: snapshot_def capture_snapshot_def demo_machine_def map_engine_def map_dump_all_def)
  then have ids: "list_all (\<lambda>r. rr_request_id r \<noteq> []) (sd_request_records snapshot)"
    by (simp add: request_record_of_def demo_write_def)
  obtain d1 d2 where 1: "write_local_snapshot_candidate (new_SnapshotStore ''r'') snapshot [] 1 demo_snapshot_disk = (d1, OK)"
      and 2: "publish_local_snapshot (new_SnapshotStore ''r'') 1 d1 = (d2, OK, True)" and nf: "no_faults d2"
    by (rule empty_disk_publishes [OF ids, of 1 "[]"]) simp_all
  obtain reader where "sr_initialize (Some (snapshot_of snapshot [])) = Inr reader"
    using sr_initialize_written [OF demo_machine_fits] by (simp add: snapshot_of_def snap)
  then obtain d3 where 3: "open_reader (new_SnapshotStore ''r'') d2 = (d3, Inr (Some reader))"
    using open_reader_opens [OF nf, of "new_SnapshotStore ''r''"] published_file [OF 1 2] by auto
  show ?thesis
    using snapshot_continues_log [OF _ demo_machine_run capture _ 1 2 3 new_KvStateMachine_ok(1) [of MAP], where rest = "[]"]
      demo_machine_fits demo_machine_run 1 2 3 by (auto simp: snap simp flip: snapshot_def)
qed

end
