(* ===== verification/Completion.thy ===== *)
theory Completion
  imports Model
begin

text \<open>
  The answer slot between a waiting client thread and the replica loop (\<^verbatim>\<open>common/completion.h\<close>) and the
  registry of the slots still open (\<^verbatim>\<open>storage/replica/completion_registry.h\<close>).  A completion is shared by pointer, so
  the completions of a replica are a heap from identities to slots.  Each method holds the slot's mutex and is one step;
  waiting on the condition variable is the step taken once the slot is no longer pending, or once the time is over.
\<close>

section \<open>Completions\<close>

datatype CompletionState = Pending | Completed | TimedOut

datatype CompleteStatus = Delivered | AlreadyCompleted | CompleteTimedOut

record 'v CompletionResult =
  cr_status :: Status
  cr_value :: "'v option"

definition result_ok :: "'v \<Rightarrow> 'v CompletionResult" where
  "result_ok v = \<lparr>cr_status = OK, cr_value = Some v\<rparr>"

definition result_fail :: "Status \<Rightarrow> 'v CompletionResult" where
  "result_fail s = \<lparr>cr_status = s, cr_value = None\<rparr>"

text \<open>The result of a call without a value.\<close>

definition void_result :: "Status \<Rightarrow> unit CompletionResult" where
  "void_result s = (if ok s then result_ok () else result_fail s)"

record 'v Completion =
  cp_state :: CompletionState
  cp_result :: "'v CompletionResult option"

definition new_Completion :: "'v Completion" where
  "new_Completion = \<lparr>cp_state = Pending, cp_result = None\<rparr>"

definition complete :: "'v CompletionResult \<Rightarrow> 'v Completion \<Rightarrow> 'v Completion \<times> CompleteStatus" where
  "complete result c = (case cp_state c of
      Completed \<Rightarrow> (c, AlreadyCompleted)
    | TimedOut \<Rightarrow> (c, CompleteTimedOut)
    | Pending \<Rightarrow> (c\<lparr>cp_result := Some result, cp_state := Completed\<rparr>, Delivered))"

definition take_result :: "'v Completion \<Rightarrow> 'v Completion \<times> 'v CompletionResult option" where
  "take_result c = (c\<lparr>cp_result := None\<rparr>, cp_result c)"

text \<open>\<^verbatim>\<open>wait_for\<close> when it wakes up: a slot that is still pending then has run out of time.\<close>

definition wait_for :: "Status \<Rightarrow> 'v Completion \<Rightarrow> 'v Completion \<times> 'v CompletionResult option" where
  "wait_for timeout_status c =
    (if cp_state c = Pending then take_result (c\<lparr>cp_result := Some (result_fail timeout_status), cp_state := TimedOut\<rparr>)
     else take_result c)"

definition needs_result :: "'v Completion \<Rightarrow> bool" where
  "needs_result c \<longleftrightarrow> cp_state c = Pending"

type_synonym 'v Completions = "nat \<Rightarrow> 'v Completion"

definition complete_at :: "nat \<Rightarrow> 'v CompletionResult \<Rightarrow> 'v Completions \<Rightarrow> 'v Completions" where
  "complete_at cid result cs = cs(cid := fst (complete result (cs cid)))"

section \<open>The registry\<close>

text \<open>The registry holds pointers to completions of any result type; a pointer says which heap it points into.\<close>

datatype CompletionRef = VoidRef nat | ValueRef nat | VoteRef nat | AppendRef nat

record CompletionRegistry =
  cg_closed :: bool
  cg_pending :: "CompletionRef set"

definition registry_add :: "CompletionRef \<Rightarrow> CompletionRegistry \<Rightarrow> CompletionRegistry \<times> bool" where
  "registry_add ref r = (if cg_closed r then (r, False) else (r\<lparr>cg_pending := insert ref (cg_pending r)\<rparr>, True))"

definition registry_remove :: "CompletionRef \<Rightarrow> CompletionRegistry \<Rightarrow> CompletionRegistry" where
  "registry_remove ref r = r\<lparr>cg_pending := cg_pending r - {ref}\<rparr>"

text \<open>
  Closing fails every open slot; the slots are distinct objects, so the order does not matter.  The second function is the
  effect on one of the heaps.
\<close>

definition registry_close :: "CompletionRegistry \<Rightarrow> CompletionRegistry" where
  "registry_close r = (if cg_closed r then r else r\<lparr>cg_closed := True, cg_pending := {}\<rparr>)"

definition registry_fail :: "(nat \<Rightarrow> CompletionRef) \<Rightarrow> Status \<Rightarrow> CompletionRegistry \<Rightarrow> 'v Completions \<Rightarrow> 'v Completions" where
  "registry_fail ref status r cs =
    (if cg_closed r then cs
     else (\<lambda>cid. if ref cid \<in> cg_pending r then fst (complete (result_fail status) (cs cid)) else cs cid))"

section \<open>The first result wins\<close>

definition slot_ok :: "'v Completion \<Rightarrow> bool" where
  "slot_ok c \<longleftrightarrow> (cp_state c = Pending \<longrightarrow> cp_result c = None)"

lemma new_Completion_ok [simp]: "slot_ok new_Completion" "cp_state new_Completion = Pending"
  by (simp_all add: slot_ok_def new_Completion_def)

lemma complete_state [simp]: "cp_state (fst (complete r c)) \<noteq> Pending"
  by (simp add: complete_def split: CompletionState.splits)

lemma complete_done: "cp_state c \<noteq> Pending \<Longrightarrow> fst (complete r c) = c"
  by (cases "cp_state c") (simp_all add: complete_def)

lemma complete_twice: "fst (complete r' (fst (complete r c))) = fst (complete r c)"
  by (simp add: complete_done)

lemma complete_pending: "cp_state c = Pending \<Longrightarrow> fst (complete r c) = c\<lparr>cp_result := Some r, cp_state := Completed\<rparr>"
  by (simp add: complete_def)

lemma complete_at_other [simp]: "cid \<noteq> cid' \<Longrightarrow> complete_at cid r cs cid' = cs cid'"
  by (simp add: complete_at_def)

lemma complete_at_done: "cp_state (cs cid') \<noteq> Pending \<Longrightarrow> complete_at cid r cs cid' = cs cid'"
  by (auto simp: complete_at_def complete_done)

text \<open>Completing many slots with one result.\<close>

definition complete_all :: "nat list \<Rightarrow> 'v CompletionResult \<Rightarrow> 'v Completions \<Rightarrow> 'v Completions" where
  "complete_all cids result cs = fold (\<lambda>cid. complete_at cid result) cids cs"

lemma complete_all_at: "complete_all cids r cs cid = (if cid \<in> set cids then fst (complete r (cs cid)) else cs cid)"
  by (induction cids arbitrary: cs) (auto simp: complete_all_def complete_at_def complete_twice)

end
