(* ===== verification/Proposal_Tracker.thy ===== *)
theory Proposal_Tracker
  imports Persist_Engine KV_State_Machine Completion
begin

text \<open>
  Writes on their way through the log (\<^verbatim>\<open>storage/replica/proposal_tracker.*\<close>).  The tracker turns a batch of client
  calls into proposals, remembers which request waits at which log index, and answers it once the index is committed
  (a compare-and-swap once it is applied).  Each call has its own completion, so a completion pointer is never null.
\<close>

section \<open>The replica parts the trackers share\<close>

record ReplicaHost =
  ho_core :: RaftCore
  ho_sm :: "MapEngine KvStateMachine"
  ho_store :: "PersistEngine \<times> Disk"
  ho_sent :: "RaftMessage list" \<comment> \<open>messages handed to the dispatcher\<close>
  ho_faulted :: bool \<comment> \<open>a fault was reported\<close>

text \<open>\<^verbatim>\<open>RaftEffectExecutor::execute\<close> on the stores of the replica, after the step gave a core, effects and a status.\<close>

definition host_execute :: "ReplicaHost \<Rightarrow> RaftCore \<Rightarrow> RaftEffects \<Rightarrow> Status \<Rightarrow> ReplicaHost \<times> Status" where
  "host_execute h c eff status =
    (let (p, msgs, s, faulted) = execute store_save store_rewrite store_append (ho_store h) eff status
     in (h\<lparr>ho_core := c, ho_store := p, ho_sent := ho_sent h @ msgs, ho_faulted := (ho_faulted h \<or> faulted)\<rparr>, s))"

section \<open>The tracker\<close>

record ProposalEntry =
  pr_op :: WriteOpType
  pr_payload_hash :: "64 word"
  pr_index :: LogIndex
  pr_committed :: bool
  pr_completions :: "nat list"

text \<open>\<^verbatim>\<open>std::unordered_map\<close> from request ids: an association list with distinct ids.\<close>

type_synonym ProposalTracker = "(string \<times> ProposalEntry) list"

record ProposeQueued =
  qp_param :: ProposeParam
  qp_completion :: nat

definition finish_call :: "ProposeQueued \<Rightarrow> Status \<Rightarrow> unit Completions \<Rightarrow> unit Completions" where
  "finish_call call status cs = complete_at (qp_completion call) (void_result status) cs"

definition finish_completions :: "ProposalEntry \<Rightarrow> Status \<Rightarrow> unit Completions \<Rightarrow> ProposalEntry \<times> unit Completions" where
  "finish_completions entry status cs =
    (entry\<lparr>pr_completions := []\<rparr>, complete_all (pr_completions entry) (void_result status) cs)"

definition fail_request :: "string \<Rightarrow> Status \<Rightarrow> ProposalTracker \<times> unit Completions \<Rightarrow> ProposalTracker \<times> unit Completions" where
  "fail_request request_id status st =
    (case map_of (fst st) request_id of None \<Rightarrow> st
     | Some entry \<Rightarrow> (filter (\<lambda>p. fst p \<noteq> request_id) (fst st), snd (finish_completions entry status (snd st))))"

definition proposals_fail_all :: "Status \<Rightarrow> ProposalTracker \<Rightarrow> unit Completions \<Rightarrow> ProposalTracker \<times> unit Completions" where
  "proposals_fail_all status entries cs = ([], fold (\<lambda>p cs. snd (finish_completions (snd p) status cs)) entries cs)"

definition update_entry :: "string \<Rightarrow> (ProposalEntry \<Rightarrow> ProposalEntry) \<Rightarrow> ProposalTracker \<Rightarrow> ProposalTracker" where
  "update_entry request_id f entries = map (\<lambda>p. if fst p = request_id then (fst p, f (snd p)) else p) entries"

section \<open>Submitting\<close>

text \<open>One round of the loop over the calls; the last two components are \<^verbatim>\<open>params\<close> and \<^verbatim>\<open>candidate_ids\<close>.\<close>

type_synonym SubmitState = "ProposalTracker \<times> unit Completions \<times> ProposeParam list \<times> string list"

definition submit_tracked :: "ProposeQueued \<Rightarrow> ProposalEntry \<Rightarrow> string \<Rightarrow> WriteOpType \<Rightarrow> 64 word \<Rightarrow> SubmitState \<Rightarrow> SubmitState" where
  "submit_tracked call tracked request_id op write_hash st = (case st of (entries, cs, params, ids) \<Rightarrow>
     if pr_payload_hash tracked \<noteq> write_hash then (entries, finish_call call INVALID_ARGUMENT cs, params, ids)
     else if pr_committed tracked \<and> op \<noteq> CAS then (entries, finish_call call OK cs, params, ids)
     else (update_entry request_id (\<lambda>e. e\<lparr>pr_completions := pr_completions e @ [qp_completion call]\<rparr>) entries, cs, params, ids))"

definition submit_untracked ::
  "RaftCore \<Rightarrow> ProposeQueued \<Rightarrow> string \<Rightarrow> WriteOpType \<Rightarrow> 64 word \<Rightarrow> SubmitState \<Rightarrow> SubmitState" where
  "submit_untracked c call request_id op write_hash st = (case st of (entries, cs, params, ids) \<Rightarrow>
     let entry = (\<lambda>i. \<lparr>pr_op = op, pr_payload_hash = write_hash, pr_index = i, pr_committed = False,
           pr_completions = [qp_completion call]\<rparr>) in
     case core_find_request c request_id of
       None \<Rightarrow> ((request_id, entry 0) # entries, cs, params @ [qp_param call], ids @ [request_id])
     | Some logged \<Rightarrow>
         if request_payload_hash (le_op_type logged) (le_key logged) (le_value logged) (le_expected logged) \<noteq> write_hash
         then (entries, finish_call call INVALID_ARGUMENT cs, params, ids)
         else if le_index logged \<le> 0 then (entries, finish_call call ERROR cs, params, ids)
         else ((request_id, entry (le_index logged)) # entries, cs, params, ids))"

definition submit_one :: "RaftCore \<Rightarrow> MapEngine KvStateMachine \<Rightarrow> ProposeQueued \<Rightarrow> SubmitState \<Rightarrow> SubmitState" where
  "submit_one c sm call st = (case st of (entries, cs, params, ids) \<Rightarrow>
     case qp_param call of
       WriteProposal op key value request_id expected \<Rightarrow>
         if request_id = [] then (entries, finish_call call INVALID_ARGUMENT cs, params, ids)
         else let write_hash = request_payload_hash op key value expected in
           (case sm_find_request request_id sm of
              Inr record \<Rightarrow>
                (entries, finish_call call (if rr_payload_hash record = write_hash then rr_apply_status record else INVALID_ARGUMENT) cs,
                 params, ids)
            | Inl find_status \<Rightarrow>
                if find_status \<noteq> KEY_NOT_FOUND then (entries, finish_call call find_status cs, params, ids)
                else (case map_of entries request_id of
                   Some tracked \<Rightarrow> submit_tracked call tracked request_id op write_hash st
                 | None \<Rightarrow> submit_untracked c call request_id op write_hash st))
     | _ \<Rightarrow> (entries, finish_call call INVALID_ARGUMENT cs, params, ids))"

fun record_results :: "(Status \<times> LogIndex) list \<Rightarrow> string list \<Rightarrow> ProposalTracker \<times> unit Completions \<Rightarrow> ProposalTracker \<times> unit Completions" where
  "record_results (r # results) (request_id # ids) st =
    record_results results ids
      (if fail (fst r) then fail_request request_id (fst r) st
       else if snd r \<le> 0 then fail_request request_id ERROR st
       else (update_entry request_id (\<lambda>e. e\<lparr>pr_index := snd r\<rparr>) (fst st), snd st))"
| "record_results _ _ st = st"

definition propose_new :: "ReplicaHost \<Rightarrow> ProposeParam list \<Rightarrow> string list \<Rightarrow> ProposalTracker \<times> unit Completions
    \<Rightarrow> ReplicaHost \<times> (ProposalTracker \<times> unit Completions) \<times> Status" where
  "propose_new h params request_ids st =
    (if params = [] then (h, st, OK)
     else let (c, eff, results) = propose_batch (ho_core h) params no_effects;
              (h1, status) = host_execute h c eff OK in
       if fail status then (h1, fold (\<lambda>rid. fail_request rid status) request_ids st, status)
       else if length results \<noteq> length request_ids then (h1, fold (\<lambda>rid. fail_request rid ERROR) request_ids st, ERROR)
       else (h1, record_results results request_ids st, OK))"

definition submit_batch :: "ReplicaHost \<Rightarrow> ProposeQueued list \<Rightarrow> ProposalTracker \<Rightarrow> unit Completions
    \<Rightarrow> ReplicaHost \<times> (ProposalTracker \<times> unit Completions) \<times> Status" where
  "submit_batch h calls entries cs =
    (let (entries1, cs1, params, ids) = fold (submit_one (ho_core h) (ho_sm h)) calls (entries, cs, [], [])
     in propose_new h params ids (entries1, cs1))"

section \<open>Answering\<close>

definition cas_status :: "MapEngine KvStateMachine \<Rightarrow> string \<Rightarrow> ProposalEntry \<Rightarrow> Status" where
  "cas_status sm request_id entry = (case sm_find_request request_id sm of
      Inl status \<Rightarrow> status
    | Inr record \<Rightarrow> if rr_payload_hash record = pr_payload_hash entry then rr_apply_status record else INVALID_ARGUMENT)"

fun advance_entries :: "RaftCore \<Rightarrow> MapEngine KvStateMachine \<Rightarrow> ProposalTracker \<Rightarrow> unit Completions \<Rightarrow> ProposalTracker \<times> unit Completions" where
  "advance_entries c sm [] cs = ([], cs)"
| "advance_entries c sm ((request_id, entry) # rest) cs =
    (let newly = \<not> pr_committed entry \<and> 0 < pr_index entry \<and> pr_index entry \<le> co_commit c;
         entry1 = (if newly then entry\<lparr>pr_committed := True\<rparr> else entry);
         (entry2, cs2) = (if newly \<and> pr_op entry1 \<noteq> CAS then finish_completions entry1 OK cs else (entry1, cs)) in
     if pr_committed entry2 \<and> 0 < pr_index entry2 \<and> pr_index entry2 \<le> co_applied c
     then advance_entries c sm rest
       (if pr_op entry2 = CAS then snd (finish_completions entry2 (cas_status sm request_id entry2) cs2) else cs2)
     else let (rest', cs') = advance_entries c sm rest cs2 in ((request_id, entry2) # rest', cs'))"

definition proposals_advance :: "RaftCore \<Rightarrow> MapEngine KvStateMachine \<Rightarrow> ProposalTracker \<Rightarrow> unit Completions
    \<Rightarrow> ProposalTracker \<times> unit Completions" where
  "proposals_advance c sm entries cs =
    (let (entries1, cs1) = advance_entries c sm entries cs in
     if \<not> is_leader (co_election c) then proposals_fail_all NOT_LEADER entries1 cs1 else (entries1, cs1))"

end
