(* ===== verification/Proposal_Safety.thy ===== *)
theory Proposal_Safety
  imports Proposal_Tracker
begin

text \<open>
  What an answered write means.  As long as a replica leads, its log only grows and is only compacted behind applied
  entries, so the index a request waits at keeps meaning that request, and an answer \<^verbatim>\<open>OK\<close> is given only for a
  committed entry.  A replica that loses its leadership answers by index as well, which can acknowledge a write that the new
  leader has replaced.
\<close>

section \<open>The log of a leader\<close>

definition keeps :: "RaftCore \<Rightarrow> RaftCore \<Rightarrow> bool" where
  "keeps c c' \<longleftrightarrow> rl_snapshot_index (co_log c) \<le> rl_snapshot_index (co_log c') \<and> co_commit c \<le> co_commit c'
     \<and> (\<forall>i e. entry_at (co_log c) i = Some e \<longrightarrow> i \<le> rl_snapshot_index (co_log c') \<or> entry_at (co_log c') i = Some e)"

lemma keepsD:
  assumes "keeps c c'"
  shows "rl_snapshot_index (co_log c) \<le> rl_snapshot_index (co_log c')" "co_commit c \<le> co_commit c'"
    "entry_at (co_log c) i = Some e \<Longrightarrow> rl_snapshot_index (co_log c') < i \<Longrightarrow> entry_at (co_log c') i = Some e"
  using assms unfolding keeps_def by (blast | fastforce)+

lemma keeps_refl [simp]: "keeps c c"
  by (simp add: keeps_def)

lemma keeps_same: "co_log c' = co_log c \<Longrightarrow> co_commit c \<le> co_commit c' \<Longrightarrow> keeps c c'"
  by (simp add: keeps_def)

lemma entry_at_append:
  assumes "log_wf l" and "log_wf l'" and "rl_snapshot_index l' = rl_snapshot_index l" and "rl_log_entries l' = rl_log_entries l @ es"
    and "entry_at l i = Some e"
  shows "entry_at l' i = Some e"
  using entry_at_SomeD [OF assms(1,5)] entry_at_mem [OF assms(2), of e] assms(4) by simp

lemma evolves_keeps:
  assumes "core_wf c" and "core_wf c'" and "evolves c eff c' eff'"
  shows "keeps c c'"
proof -
  note D = evolvesD [OF assms(3)]
  obtain es where "rl_log_entries (co_log c') = rl_log_entries (co_log c) @ es"
    using D(12) by blast
  then show ?thesis
    using D(5,9) entry_at_append [OF core_wfD(1) [OF assms(1)] core_wfD(1) [OF assms(2)]] by (simp add: keeps_def)
qed

text \<open>Dropping the entries up to an index.\<close>

lemma compact_keeps:
  assumes "core_wf c" and "core_wf c'" and "rl_snapshot_index (co_log c) \<le> rl_snapshot_index (co_log c')"
    and "set (filter (\<lambda>e. rl_snapshot_index (co_log c') < le_index e) (rl_log_entries (co_log c))) \<subseteq> set (rl_log_entries (co_log c'))"
    and "co_commit c \<le> co_commit c'"
  shows "keeps c c'"
  unfolding keeps_def
proof (intro conjI allI impI assms(3,5))
  fix i e assume e: "entry_at (co_log c) i = Some e"
  note E = entry_at_SomeD [OF core_wfD(1) [OF assms(1)] e]
  show "i \<le> rl_snapshot_index (co_log c') \<or> entry_at (co_log c') i = Some e"
  proof (cases "i \<le> rl_snapshot_index (co_log c')")
    case False
    then have "e \<in> set (rl_log_entries (co_log c'))"
      using E assms(4) by auto
    then show ?thesis
      using entry_at_mem [OF core_wfD(1) [OF assms(2)]] E(1) by blast
  qed simp
qed

lemma filter_past_is_drop:
  assumes "log_wf l" and "rl_snapshot_index l \<le> i"
  shows "filter (\<lambda>e. i < le_index e) (rl_log_entries l) = drop (nat (i - rl_snapshot_index l)) (rl_log_entries l)"
  using contiguous_filter_drop [OF log_wfD(2) [OF assms(1)], of i] assms(2) by simp

lemma apply_config_entry_commit: "co_commit (fst (apply_config_entry c e)) = co_commit c"
  by (auto simp: apply_config_entry_def advance_last_applied_def apply_advance_last_applied_def step_down_if_become_non_member_def
      clear_recent_leader_active_def Let_def split: option.splits prod.splits)

lemma leader_step_keeps:
  assumes wf: "core_wf c" and ok: "event_ok c ev" and step: "raft_step c ev = (c', eff)"
    and leader: "co_role c = LEADER" "co_role c' = LEADER"
  shows "keeps c c'"
proof -
  have wf': "core_wf c'"
    using raft_step_ok [OF wf ok step] by (simp add: step_ok_def)
  note evo = evolves_keeps [OF wf wf']
  show ?thesis
  proof (cases ev)
    case (EvAppendEntries p)
    then obtain r where r: "handle_append_entries c p no_effects = (c', eff, r)"
      using step by (auto split: prod.splits)
    have "contiguous (ae_prev_log_index p + 1) (ae_entries p)"
      using ok EvAppendEntries by (simp add: batch_ok_def)
    from wf this r show ?thesis
    proof (cases rule: handle_append_entries_cases)
      case rejected
      then show ?thesis
        by (intro evo)
    next
      case (accepted c1 eff1 l ar)
      then show ?thesis
        using leader(2) by simp
    qed
  next
    case (EvInstallSnapshot h)
    then have h: "local_snapshot c h" and run: "core_install_snapshot c h no_effects = (c', eff)"
      using ok leader(1) step by auto
    note I = local_install_snapshot_wf [OF wf h run]
    have i: "rl_snapshot_index (co_log c) \<le> rl_snapshot_index (co_log c')"
      using h I(2) by (simp add: local_snapshot_def)
    show ?thesis
      using i I(2,3,8) filter_past_is_drop [OF core_wfD(1) [OF wf] i] by (intro compact_keeps [OF wf wf']) simp_all
  next
    case (EvTruncateLog i)
    then obtain s where "truncate_log c i = (c', s)"
      using step by (metis raft_step.simps(17) fst_conv prod.collapse prod.inject)
    from truncate_log_wf [OF wf this] show ?thesis
      by (intro compact_keeps [OF wf wf']) simp_all
  next
    case (EvApplyConfig e)
    obtain d s where d: "apply_config_entry c e = (d, s)"
      by fastforce
    then show ?thesis
      using step EvApplyConfig apply_config_entry_wf [OF wf _ d] apply_config_entry_commit [of c e] ok
      by (auto intro!: keeps_same)
  next
    case (EvAdvanceApplied i)
    then show ?thesis
      using step by (auto simp: advance_last_applied_def apply_advance_last_applied_def intro!: keeps_same)
  next
    case EvTick
    then show ?thesis
      using step by (auto intro: evo core_tick_evolves(2) [OF wf])
  next
    case (EvPropose p)
    then show ?thesis
      using step propose_evolves [OF wf] by (auto intro!: evo split: prod.splits)
  next
    case (EvProposeBatch ps)
    then show ?thesis
      using step propose_batch_evolves [OF wf] by (auto intro!: evo split: prod.splits)
  next
    case (EvRequestVote p)
    then show ?thesis
      using step handle_request_vote_evolves(1,2) [OF wf] by (auto intro!: evo split: prod.splits)
  next
    case (EvAppendResponse src p r)
    then show ?thesis
      using step handle_append_response_evolves [OF wf] by (auto intro!: evo split: prod.splits)
  next
    case (EvPrepareInstallSnapshot p)
    then show ?thesis
      using step prepare_install_snapshot_evolves [OF wf] by (auto intro!: evo split: prod.splits)
  next
    case (EvAddLearner p)
    then show ?thesis
      using step by (auto intro: evo ensure_change_evolves(2) [OF wf, OF disjI1] split: prod.splits)
  next
    case (EvRemoveMember r)
    then show ?thesis
      using step by (auto intro: evo ensure_change_evolves(2) [OF wf, OF disjI2] split: prod.splits)
  next
    case (EvInstallSnapshotSendFailed src p)
    then have "evolves c no_effects c' no_effects"
      using step handle_install_snapshot_send_failed_evolves(2) [of c no_effects src p] by auto
    then show ?thesis
      by (rule evo)
  qed (use step in \<open>auto intro: evo handle_vote_response_evolves(2) [OF wf] handle_pre_vote_response_evolves(2) [OF wf]
      handle_install_snapshot_response_evolves(2) [OF wf]\<close>)
qed

section \<open>Proposed entries\<close>

definition entry_hash :: "LogEntry \<Rightarrow> 64 word" where
  "entry_hash e = request_payload_hash (le_op_type e) (le_key e) (le_value e) (le_expected e)"

definition carries :: "LogEntry \<Rightarrow> string \<Rightarrow> 64 word \<Rightarrow> bool" where
  "carries e rid hsh \<longleftrightarrow> le_request_id e = rid \<and> entry_hash e = hsh"

lemma core_append_keeps:
  assumes "core_wf c" and "core_append_new_entry c param eff = (c1, eff1, i)"
  shows "core_wf c1" "keeps c c1" "co_commit c1 = co_commit c" "entry_at (co_log c1) i = Some (new_entry (co_term c) i param)" "0 < i"
    "rl_snapshot_index (co_log c1) = rl_snapshot_index (co_log c)"
proof -
  note A = core_append_new_entry_evolves [OF assms]
  show "core_wf c1" "keeps c c1" "co_commit c1 = co_commit c" "entry_at (co_log c1) i = Some (new_entry (co_term c) i param)"
      "rl_snapshot_index (co_log c1) = rl_snapshot_index (co_log c)"
    using A evolves_keeps [OF assms(1) A(1,2)] evolvesD(9) [OF A(2)] by simp_all
  show "0 < i"
    using entry_at_SomeD(3) [OF core_wfD(1) [OF A(1)] A(7)] log_wfD(1) [OF core_wfD(1) [OF A(1)]] by simp
qed

lemma propose_batch_loop_results:
  assumes "core_wf c" and "propose_batch_loop c params eff = (c', eff', rs, flag)"
  shows "length rs = length params \<and> rl_snapshot_index (co_log c') = rl_snapshot_index (co_log c) \<and> keeps c c' \<and>
    (\<forall>k < length params. ok (fst (rs ! k)) \<longrightarrow>
      (\<exists>t. 0 < snd (rs ! k) \<and> entry_at (co_log c') (snd (rs ! k)) = Some (new_entry t (snd (rs ! k)) (params ! k))))"
  using assms
proof (induction params arbitrary: c eff c' eff' rs flag)
  case (Cons param params)
  show ?case
  proof (cases "fail (validate_proposal param)")
    case True
    obtain rs1 flag1 where 1: "propose_batch_loop c params eff = (c', eff', rs1, flag1)" "rs = (validate_proposal param, -1) # rs1"
      using Cons.prems(2) True by (auto split: prod.splits)
    then show ?thesis
      using Cons.IH [OF Cons.prems(1) 1(1)] True by (auto simp: nth_Cons fail_def split: nat.splits)
  next
    case False
    obtain c1 eff1 i where 1: "core_append_new_entry c param eff = (c1, eff1, i)"
      by (metis prod_cases3)
    obtain rs1 flag1 where 2: "propose_batch_loop c1 params eff1 = (c', eff', rs1, flag1)" "rs = (OK, i) # rs1"
      using Cons.prems(2) False 1 by (auto split: prod.splits)
    note A = core_append_keeps [OF Cons.prems(1) 1]
    note I = Cons.IH [OF A(1) 2(1)]
    have "rl_snapshot_index (co_log c') < i"
      using I A(6) entry_at_SomeD(3) [OF core_wfD(1) [OF A(1)] A(4)] by simp
    then have "entry_at (co_log c') i = Some (new_entry (co_term c) i param)"
      using I keepsD(3) [of c1 c'] A(4) by blast
    moreover have "keeps c c'"
    proof -
      have "core_wf c'" "evolves c eff c' eff'"
        using propose_batch_loop_evolves [OF Cons.prems] by simp_all
      then show ?thesis
        using evolves_keeps [OF Cons.prems(1)] by blast
    qed
    ultimately show ?thesis
      using I A(5,6) 2(2) by (auto simp: nth_Cons split: nat.splits)
  qed
qed simp

lemma propose_batch_results:
  assumes wf: "core_wf c" and run: "propose_batch c params eff = (c', eff', rs)"
  shows "length rs = length params" "keeps c c'" "core_wf c'" "co_election c' = co_election c"
    "k < length params \<Longrightarrow> ok (fst (rs ! k)) \<Longrightarrow>
      \<exists>t. 0 < snd (rs ! k) \<and> entry_at (co_log c') (snd (rs ! k)) = Some (new_entry t (snd (rs ! k)) (params ! k))"
proof -
  note E = propose_batch_evolves [OF wf run]
  show "core_wf c'" "co_election c' = co_election c" "keeps c c'"
    using E evolves_keeps [OF wf E(1,2)] by simp_all
  have "length rs = length params \<and> (\<forall>k < length params. ok (fst (rs ! k)) \<longrightarrow>
      (\<exists>t. 0 < snd (rs ! k) \<and> entry_at (co_log c') (snd (rs ! k)) = Some (new_entry t (snd (rs ! k)) (params ! k))))"
  proof (cases "params = [] \<or> fail (ensure_writable_leader c)")
    case True
    then show ?thesis
      using run by (auto simp: propose_batch_def fail_def split: if_splits)
  next
    case False
    obtain c1 eff1 rs1 flag where 1: "propose_batch_loop c params eff = (c1, eff1, rs1, flag)"
      by (metis prod_cases4)
    note L = propose_batch_loop_results [OF wf 1] and W = propose_batch_loop_evolves [OF wf 1]
    obtain c2 eff2 where 2: "core_broadcast_append_entries c1 eff1 = (c2, eff2)"
      by fastforce
    have l2: "co_log c2 = co_log c1" "core_wf c2"
      using core_broadcast_evolves [OF _ 2] W 2
      by (auto simp: core_broadcast_append_entries_def split: if_splits prod.splits)
    obtain c3 eff3 where 3: "(if is_leader (co_election c2) \<and> has_quorum (co_membership c2) 1
        then try_update_commit_index c2 eff2 else (c2, eff2)) = (c3, eff3)"
      by fastforce
    have "co_log c3 = co_log c1"
      using 3 l2 try_update_commit_index_evolves(4) [OF l2(2)] by (auto split: if_splits)
    moreover have "rs = rs1" "c' = (if flag then c3 else c1)"
      using run False 1 2 3 by (auto simp: propose_batch_def split: if_splits)
    ultimately show ?thesis
      using L by auto
  qed
  then show "length rs = length params" "k < length params \<Longrightarrow> ok (fst (rs ! k)) \<Longrightarrow>
      \<exists>t. 0 < snd (rs ! k) \<and> entry_at (co_log c') (snd (rs ! k)) = Some (new_entry t (snd (rs ! k)) (params ! k))"
    by simp_all
qed

section \<open>What backs an answer\<close>

text \<open>
  A run of a leader, with two records of its past: the entries its log has held (\<open>hist\<close>) and the write each completion
  was created for (\<open>owner\<close>, a request id and payload hash).  An answer is backed by a committed entry or by the outcome
  the state machine has recorded.
\<close>

type_synonym History = "LogIndex \<Rightarrow> LogEntry option"

type_synonym Owner = "nat \<Rightarrow> (string \<times> 64 word) option"

definition hist_ok :: "RaftCore \<Rightarrow> History \<Rightarrow> bool" where
  "hist_ok c hist \<longleftrightarrow> (\<forall>i e. entry_at (co_log c) i = Some e \<longrightarrow> hist i = Some e)
     \<and> (\<forall>i e. hist i = Some e \<longrightarrow> rl_snapshot_index (co_log c) < i \<longrightarrow> entry_at (co_log c) i = Some e)"

definition hist_extend :: "History \<Rightarrow> RaftCore \<Rightarrow> History" where
  "hist_extend hist c i = (case entry_at (co_log c) i of Some e \<Rightarrow> Some e | None \<Rightarrow> hist i)"

definition backed :: "RaftCore \<Rightarrow> MapEngine KvStateMachine \<Rightarrow> History \<Rightarrow> string \<Rightarrow> 64 word \<Rightarrow> bool" where
  "backed c sm hist rid hsh \<longleftrightarrow> (\<exists>i e. hist i = Some e \<and> 0 < i \<and> i \<le> co_commit c \<and> carries e rid hsh)
     \<or> (\<exists>r. sm_find_request rid sm = Inr r \<and> rr_payload_hash r = hsh \<and> rr_apply_status r = OK)"

definition ok_backed :: "RaftCore \<Rightarrow> MapEngine KvStateMachine \<Rightarrow> History \<Rightarrow> Owner \<Rightarrow> unit Completions \<Rightarrow> bool" where
  "ok_backed c sm hist owner cs \<longleftrightarrow> (\<forall>cid rid hsh. owner cid = Some (rid, hsh) \<longrightarrow> cp_result (cs cid) = Some (void_result OK)
     \<longrightarrow> backed c sm hist rid hsh)"

definition entry_inv :: "RaftCore \<Rightarrow> History \<Rightarrow> Owner \<Rightarrow> string \<Rightarrow> ProposalEntry \<Rightarrow> bool" where
  "entry_inv c hist owner rid p \<longleftrightarrow> rid \<noteq> []
     \<and> (0 < pr_index p \<longrightarrow> (\<exists>e. hist (pr_index p) = Some e \<and> carries e rid (pr_payload_hash p)))
     \<and> (pr_committed p \<longrightarrow> 0 < pr_index p \<and> pr_index p \<le> co_commit c)
     \<and> (\<forall>cid \<in> set (pr_completions p). owner cid = Some (rid, pr_payload_hash p))"

definition tracker_inv :: "RaftCore \<Rightarrow> History \<Rightarrow> Owner \<Rightarrow> ProposalTracker \<Rightarrow> bool" where
  "tracker_inv c hist owner t \<longleftrightarrow> distinct (map fst t) \<and> (\<forall>p \<in> set t. entry_inv c hist owner (fst p) (snd p))"

lemma hist_okD:
  assumes "hist_ok c hist"
  shows "entry_at (co_log c) i = Some e \<Longrightarrow> hist i = Some e"
    "hist i = Some e \<Longrightarrow> rl_snapshot_index (co_log c) < i \<Longrightarrow> entry_at (co_log c) i = Some e"
  using assms unfolding hist_ok_def by blast+

lemma hist_extend_mono:
  assumes "core_wf c" and "core_wf c'" and "hist_ok c hist" and "keeps c c'"
  shows "hist i = Some e \<Longrightarrow> hist_extend hist c' i = Some e" "hist_ok c' (hist_extend hist c')"
proof -
  have mono: "hist_extend hist c' i = Some e" if "hist i = Some e" for i e
  proof (cases "i \<le> rl_snapshot_index (co_log c')")
    case True
    then have "entry_at (co_log c') i = None"
      using entry_at_SomeD(3) [OF core_wfD(1) [OF assms(2)], of i] by (cases "entry_at (co_log c') i") auto
    then show ?thesis
      using that by (simp add: hist_extend_def)
  next
    case False
    then have "rl_snapshot_index (co_log c) < i"
      using keepsD(1) [OF assms(4)] by simp
    then have "entry_at (co_log c) i = Some e"
      by (rule hist_okD(2) [OF assms(3) that])
    then have "entry_at (co_log c') i = Some e"
      using keepsD(3) [OF assms(4)] False by simp
    then show ?thesis
      by (simp add: hist_extend_def)
  qed
  then show "hist i = Some e \<Longrightarrow> hist_extend hist c' i = Some e" .
  have "entry_at (co_log c') i = Some e" if "hist_extend hist c' i = Some e" "rl_snapshot_index (co_log c') < i" for i e
  proof (cases "entry_at (co_log c') i")
    case None
    then have h: "hist i = Some e"
      using that(1) by (simp add: hist_extend_def)
    have "rl_snapshot_index (co_log c) < i"
      using that(2) keepsD(1) [OF assms(4)] by simp
    then show ?thesis
      using keepsD(3) [OF assms(4) _ that(2)] hist_okD(2) [OF assms(3) h] by blast
  qed (use that in \<open>simp add: hist_extend_def\<close>)
  then show "hist_ok c' (hist_extend hist c')"
    unfolding hist_ok_def by (auto simp: hist_extend_def)
qed

lemma run_mono:
  assumes "co_commit c \<le> co_commit c'" and "\<And>i e. hist i = Some e \<Longrightarrow> hist' i = Some e"
  shows "backed c sm hist rid hsh \<Longrightarrow> backed c' sm hist' rid hsh" "ok_backed c sm hist owner cs \<Longrightarrow> ok_backed c' sm hist' owner cs"
    "entry_inv c hist owner rid p \<Longrightarrow> entry_inv c' hist' owner rid p" "tracker_inv c hist owner t \<Longrightarrow> tracker_inv c' hist' owner t"
proof -
  show 1: "backed c sm hist rid hsh \<Longrightarrow> backed c' sm hist' rid hsh" for rid hsh
    using assms unfolding backed_def by (meson order_trans)
  then show "ok_backed c sm hist owner cs \<Longrightarrow> ok_backed c' sm hist' owner cs"
    unfolding ok_backed_def by blast
  show 2: "entry_inv c hist owner rid p \<Longrightarrow> entry_inv c' hist' owner rid p" for rid p
    using assms unfolding entry_inv_def by (meson order_trans)
  then show "tracker_inv c hist owner t \<Longrightarrow> tracker_inv c' hist' owner t"
    unfolding tracker_inv_def by blast
qed

lemma apply_entry_keeps_record:
  assumes "sm_find_request rid sm = Inr r"
  shows "sm_find_request rid (fst (apply_entry E e sm)) = Inr r"
proof -
  obtain e1 s a where "apply_op E e (sm_engine sm) = (e1, s, a)"
    by (metis prod_cases3)
  then show ?thesis
    using assms by (auto simp: sm_find_request_def apply_entry_def mark_applied_def emplace_record_def Let_def
        split: if_splits option.splits)
qed

lemma ok_backed_apply:
  assumes "ok_backed c sm hist owner cs"
  shows "ok_backed c (fst (apply_entry E e sm)) hist owner cs"
  using assms apply_entry_keeps_record unfolding ok_backed_def backed_def by blast

section \<open>Completing and advancing\<close>

lemma void_result_OK [simp]: "void_result s = void_result OK \<longleftrightarrow> s = OK"
  by (auto simp: void_result_def result_ok_def result_fail_def ok_def)

lemma ok_backed_complete_all:
  assumes "ok_backed c sm hist owner cs"
    and "s = OK \<Longrightarrow> \<forall>cid \<in> set cids. \<forall>rid hsh. owner cid = Some (rid, hsh) \<longrightarrow> backed c sm hist rid hsh"
  shows "ok_backed c sm hist owner (complete_all cids (void_result s) cs)"
  unfolding ok_backed_def
proof (intro allI impI)
  fix cid rid hsh
  assume o: "owner cid = Some (rid, hsh)" and r: "cp_result (complete_all cids (void_result s) cs cid) = Some (void_result OK)"
  have "cp_result (cs cid) = Some (void_result OK) \<or> cid \<in> set cids \<and> s = OK"
    using r by (cases "cp_state (cs cid)") (auto simp: complete_all_at complete_def split: if_splits)
  then show "backed c sm hist rid hsh"
    using assms o by (auto simp: ok_backed_def)
qed

lemma ok_backed_finish_call:
  assumes "ok_backed c sm hist owner cs"
    and "s = OK \<Longrightarrow> \<forall>rid hsh. owner (qp_completion call) = Some (rid, hsh) \<longrightarrow> backed c sm hist rid hsh"
  shows "ok_backed c sm hist owner (finish_call call s cs)"
  using ok_backed_complete_all [OF assms(1), of s "[qp_completion call]"] assms(2)
  by (simp add: finish_call_def complete_all_def)

lemma entry_backed:
  assumes "entry_inv c hist owner rid p" and "0 < pr_index p" and "pr_index p \<le> co_commit c"
  shows "backed c sm hist rid (pr_payload_hash p)"
  using assms by (auto simp: entry_inv_def backed_def)

lemma finish_completions_inv:
  assumes "ok_backed c sm hist owner cs" and "entry_inv c hist owner rid p" and "s = OK \<Longrightarrow> backed c sm hist rid (pr_payload_hash p)"
  shows "ok_backed c sm hist owner (snd (finish_completions p s cs))" "entry_inv c hist owner rid (fst (finish_completions p s cs))"
  using assms ok_backed_complete_all [OF assms(1), of s "pr_completions p"]
  by (auto simp: finish_completions_def entry_inv_def)

lemma cas_backed:
  assumes "cas_status sm rid p = OK"
  shows "backed c sm hist rid (pr_payload_hash p)"
  using assms by (auto simp: cas_status_def backed_def sm_find_request_def split: sum.splits if_splits option.splits)

lemma advance_entries_inv:
  assumes "tracker_inv c hist owner t" and "ok_backed c sm hist owner cs" and "advance_entries c sm t cs = (t', cs')"
  shows "tracker_inv c hist owner t' \<and> ok_backed c sm hist owner cs' \<and> fst ` set t' \<subseteq> fst ` set t"
  using assms
proof (induction t arbitrary: cs t' cs')
  case (Cons q rest)
  obtain rid p where q: "q = (rid, p)"
    by fastforce
  have p: "entry_inv c hist owner rid p" and rest: "tracker_inv c hist owner rest" and notin: "rid \<notin> fst ` set rest"
    using Cons.prems(1) by (auto simp: q tracker_inv_def)
  define newly where "newly = (\<not> pr_committed p \<and> 0 < pr_index p \<and> pr_index p \<le> co_commit c)"
  define p1 where "p1 = (if newly then p\<lparr>pr_committed := True\<rparr> else p)"
  have p1: "entry_inv c hist owner rid p1"
    using p by (auto simp: p1_def newly_def entry_inv_def)
  obtain p2 cs2 where 2: "(if newly \<and> pr_op p1 \<noteq> CAS then finish_completions p1 OK cs else (p1, cs)) = (p2, cs2)"
    by fastforce
  have b: "newly \<Longrightarrow> backed c sm hist rid (pr_payload_hash p1)"
    using entry_backed [OF p1, of sm] by (auto simp: p1_def newly_def)
  have p2: "entry_inv c hist owner rid p2" "ok_backed c sm hist owner cs2"
    using 2 finish_completions_inv [OF Cons.prems(2) p1, of OK] b p1 Cons.prems(2) by (auto split: if_splits)
  define cs3 where "cs3 = (if pr_op p2 = CAS then snd (finish_completions p2 (cas_status sm rid p2) cs2) else cs2)"
  have cs3: "ok_backed c sm hist owner cs3"
    using p2 finish_completions_inv(1) [OF p2(2,1)] cas_backed by (simp add: cs3_def)
  have out: "(t', cs') = (if pr_committed p2 \<and> 0 < pr_index p2 \<and> pr_index p2 \<le> co_applied c then advance_entries c sm rest cs3
      else case advance_entries c sm rest cs2 of (rest', cs'') \<Rightarrow> ((rid, p2) # rest', cs''))"
    using Cons.prems(3) by (simp only: q advance_entries.simps Let_def 2 prod.case flip: newly_def p1_def cs3_def)
  show ?case
  proof (cases "pr_committed p2 \<and> 0 < pr_index p2 \<and> pr_index p2 \<le> co_applied c")
    case True
    then have "advance_entries c sm rest cs3 = (t', cs')"
      using out by simp
    from Cons.IH [OF rest cs3 this] show ?thesis
      by auto
  next
    case False
    obtain t1 where t1: "advance_entries c sm rest cs2 = (t1, cs')" "t' = (rid, p2) # t1"
      using out False by (auto split: prod.splits)
    from Cons.IH [OF rest p2(2) t1(1)] show ?thesis
      using p2(1) notin by (auto simp: t1(2) q tracker_inv_def)
  qed
qed (simp add: tracker_inv_def)

section \<open>Submitting\<close>

text \<open>The write a call was made for.\<close>

definition call_owner :: "ProposeQueued \<Rightarrow> (string \<times> 64 word) option" where
  "call_owner call = (case qp_param call of
      WriteProposal op key value rid expected \<Rightarrow> if rid = [] then None else Some (rid, request_payload_hash op key value expected)
    | _ \<Rightarrow> None)"

definition candidate :: "ProposalTracker \<Rightarrow> string \<Rightarrow> ProposeParam \<Rightarrow> bool" where
  "candidate t rid param \<longleftrightarrow> (\<exists>op key value expected p. param = WriteProposal op key value rid expected \<and> map_of t rid = Some p
     \<and> \<not> pr_committed p \<and> pr_payload_hash p = request_payload_hash op key value expected)"

fun submit_inv :: "RaftCore \<Rightarrow> MapEngine KvStateMachine \<Rightarrow> History \<Rightarrow> Owner \<Rightarrow> SubmitState \<Rightarrow> bool" where
  "submit_inv c sm hist owner (t, cs, params, ids) \<longleftrightarrow> tracker_inv c hist owner t \<and> ok_backed c sm hist owner cs
     \<and> list_all2 (candidate t) ids params"

lemma map_of_update_entry: "map_of (update_entry rid f t) k = (if k = rid then map_option f (map_of t k) else map_of t k)"
  by (induction t) (auto simp: update_entry_def)

lemma map_fst_update_entry [simp]: "map fst (update_entry rid f t) = map fst t"
  by (induction t) (auto simp: update_entry_def)

lemma tracker_inv_update:
  assumes "tracker_inv c hist owner t" and "\<And>p. map_of t rid = Some p \<Longrightarrow> entry_inv c hist owner rid (f p)"
  shows "tracker_inv c hist owner (update_entry rid f t)"
proof -
  have d: "distinct (map fst t)"
    using assms(1) by (simp add: tracker_inv_def)
  have "entry_inv c hist owner (fst q) (snd q)" if q: "q \<in> set (update_entry rid f t)" for q
  proof -
    obtain q0 where q0: "q0 \<in> set t" "q = (if fst q0 = rid then (fst q0, f (snd q0)) else q0)"
      using q unfolding update_entry_def set_map by blast
    show ?thesis
    proof (cases "fst q0 = rid")
      case True
      then have "map_of t rid = Some (snd q0)"
        using d q0(1) by (metis map_of_is_SomeI prod.collapse)
      then show ?thesis
        using assms(2) q0(2) True by simp
    next
      case False
      then show ?thesis
        using assms(1) q0 by (simp add: tracker_inv_def)
    qed
  qed
  then show ?thesis
    using d by (simp add: tracker_inv_def)
qed

lemma tracker_inv_lookup: "tracker_inv c hist owner t \<Longrightarrow> map_of t rid = Some p \<Longrightarrow> entry_inv c hist owner rid p"
  by (metis fst_conv map_of_SomeD snd_conv tracker_inv_def)

lemma candidates_mono:
  assumes "list_all2 (candidate t) ids params"
    and "\<And>rid p. map_of t rid = Some p \<Longrightarrow> \<exists>p'. map_of t' rid = Some p' \<and> pr_committed p' = pr_committed p \<and> pr_payload_hash p' = pr_payload_hash p"
  shows "list_all2 (candidate t') ids params"
  using assms(1)
proof (rule list_all2_mono)
  fix rid param assume "candidate t rid param"
  then obtain op key val expected p where p: "param = WriteProposal op key val rid expected" "map_of t rid = Some p"
      "\<not> pr_committed p" "pr_payload_hash p = request_payload_hash op key val expected"
    by (auto simp: candidate_def)
  then show "candidate t' rid param"
    using assms(2) [OF p(2)] by (auto simp: candidate_def)
qed

lemma submit_tracked_inv:
  assumes inv: "submit_inv c sm hist owner st" and p: "map_of (fst st) rid = Some p" and own: "owner (qp_completion call) = Some (rid, hsh)"
  shows "submit_inv c sm hist owner (submit_tracked call p rid op hsh st)"
proof -
  obtain t cs params ids where st: "st = (t, cs, params, ids)"
    by (metis prod_cases4)
  have I: "tracker_inv c hist owner t" "ok_backed c sm hist owner cs" "list_all2 (candidate t) ids params" and pt: "map_of t rid = Some p"
    using inv p by (simp_all add: st)
  note e = tracker_inv_lookup [OF I(1) pt]
  have answered: "ok_backed c sm hist owner (finish_call call OK cs)" if "pr_committed p" "pr_payload_hash p = hsh"
    using entry_backed [OF e, of sm] e that own by (intro ok_backed_finish_call [OF I(2)]) (auto simp: entry_inv_def)
  have refused: "ok_backed c sm hist owner (finish_call call INVALID_ARGUMENT cs)"
    by (intro ok_backed_finish_call [OF I(2)]) simp
  let ?t = "update_entry rid (\<lambda>e. e\<lparr>pr_completions := pr_completions e @ [qp_completion call]\<rparr>) t"
  have "tracker_inv c hist owner ?t" if "pr_payload_hash p = hsh"
    using e own pt that by (intro tracker_inv_update [OF I(1)]) (auto simp: entry_inv_def)
  moreover have "list_all2 (candidate ?t) ids params"
    by (intro candidates_mono [OF I(3)]) (auto simp: map_of_update_entry)
  ultimately show ?thesis
    using I answered refused by (simp add: submit_tracked_def st)
qed

lemma submit_untracked_inv:
  assumes wf: "core_wf c" and h: "hist_ok c hist" and inv: "submit_inv c sm hist owner st" and new: "map_of (fst st) rid = None"
    and own: "owner (qp_completion call) = Some (rid, hsh)" and param: "qp_param call = WriteProposal op key value rid expected"
    and hsh: "hsh = request_payload_hash op key value expected" and rid: "rid \<noteq> []"
  shows "submit_inv c sm hist owner (submit_untracked c call rid op hsh st)"
proof -
  obtain t cs params ids where st: "st = (t, cs, params, ids)"
    by (metis prod_cases4)
  have I: "tracker_inv c hist owner t" "ok_backed c sm hist owner cs" "list_all2 (candidate t) ids params" and nt: "map_of t rid = None"
    using inv new by (simp_all add: st)
  have refused: "s \<noteq> OK \<Longrightarrow> ok_backed c sm hist owner (finish_call call s cs)" for s
    by (intro ok_backed_finish_call [OF I(2)]) simp
  define entry where "entry i = \<lparr>pr_op = op, pr_payload_hash = hsh, pr_index = i, pr_committed = False,
      pr_completions = [qp_completion call]\<rparr>" for i
  have added: "tracker_inv c hist owner ((rid, entry i) # t)" if "0 < i \<Longrightarrow> \<exists>e. hist i = Some e \<and> carries e rid hsh" for i
    using I(1) nt rid own that by (auto simp: tracker_inv_def entry_inv_def entry_def map_of_eq_None_iff)
  have cands: "list_all2 (candidate ((rid, entry i) # t)) ids params" for i
    using nt by (intro candidates_mono [OF I(3)]) auto
  show ?thesis
  proof (cases "core_find_request c rid")
    case None
    have "candidate ((rid, entry 0) # t) rid (qp_param call)"
      by (simp add: candidate_def entry_def param hsh)
    then show ?thesis
      using added [of 0] cands [of 0] I(2) None
      by (simp add: submit_untracked_def st list_all2_appendI flip: entry_def)
  next
    case (Some logged)
    have L: "le_request_id logged = rid" "logged \<in> set (rl_log_entries (co_log c))"
      using Some find_request_is_find [OF core_wfD(1) [OF wf] rid] find_SomeD by (fastforce simp: core_find_request_def)+
    have "hist (le_index logged) = Some logged"
      by (rule hist_okD(1) [OF h entry_at_mem [OF core_wfD(1) [OF wf] L(2)]])
    then have "entry_hash logged = hsh \<Longrightarrow> tracker_inv c hist owner ((rid, entry (le_index logged)) # t)"
      using L(1) by (intro added) (simp add: carries_def)
    then show ?thesis
      using cands [of "le_index logged"] I refused Some
      by (simp add: submit_untracked_def st entry_hash_def flip: entry_def)
  qed
qed

lemma submit_one_inv:
  assumes wf: "core_wf c" and h: "hist_ok c hist" and inv: "submit_inv c sm hist owner st" and own: "owner (qp_completion call) = call_owner call"
  shows "submit_inv c sm hist owner (submit_one c sm call st)"
proof -
  obtain t cs params ids where st: "st = (t, cs, params, ids)"
    by (metis prod_cases4)
  have I: "tracker_inv c hist owner t" "ok_backed c sm hist owner cs" "list_all2 (candidate t) ids params"
    using inv by (simp_all add: st)
  have refused: "s \<noteq> OK \<Longrightarrow> ok_backed c sm hist owner (finish_call call s cs)" for s
    by (intro ok_backed_finish_call [OF I(2)]) simp
  show ?thesis
  proof (cases "qp_param call")
    case (WriteProposal op key val rid expected)
    show ?thesis
    proof (cases "rid = []")
      case True
      then show ?thesis
        using I refused WriteProposal by (simp add: submit_one_def st)
    next
      case False
      define hsh where "hsh = request_payload_hash op key val expected"
      have o: "owner (qp_completion call) = Some (rid, hsh)"
        using own False WriteProposal by (simp add: call_owner_def hsh_def)
      show ?thesis
      proof (cases "sm_find_request rid sm")
        case (Inr r)
        have "ok_backed c sm hist owner (finish_call call (if rr_payload_hash r = hsh then rr_apply_status r else INVALID_ARGUMENT) cs)"
          using Inr o by (intro ok_backed_finish_call [OF I(2)]) (auto simp: backed_def split: if_splits)
        then show ?thesis
          using I Inr False WriteProposal by (simp add: submit_one_def st flip: hsh_def)
      next
        case (Inl s)
        have T: "submit_inv c sm hist owner (submit_tracked call p rid op hsh st)" if "map_of t rid = Some p" for p
          by (rule submit_tracked_inv [OF inv _ o]) (simp add: st that)
        have U: "submit_inv c sm hist owner (submit_untracked c call rid op hsh st)" if "map_of t rid = None"
          by (rule submit_untracked_inv [OF wf h inv _ o WriteProposal hsh_def False]) (simp add: st that)
        have "s \<noteq> OK"
          using Inl False by (auto simp: sm_find_request_def split: option.splits if_splits)
        then show ?thesis
          using I Inl False WriteProposal T U refused
          by (cases "map_of t rid") (simp_all add: submit_one_def st flip: hsh_def)
      qed
    qed
  qed (use I refused in \<open>simp_all add: submit_one_def st\<close>)
qed

lemma submit_all_inv:
  assumes "core_wf c" and "hist_ok c hist" and "submit_inv c sm hist owner st"
    and "\<forall>call \<in> set calls. owner (qp_completion call) = call_owner call"
  shows "submit_inv c sm hist owner (fold (submit_one c sm) calls st)"
  using assms(3,4) by (induction calls arbitrary: st) (simp_all add: submit_one_inv [OF assms(1,2)])

lemma fail_request_inv:
  assumes "tracker_inv c hist owner t" and "ok_backed c sm hist owner cs" and "s \<noteq> OK" and "fail_request rid s (t, cs) = (t', cs')"
  shows "tracker_inv c hist owner t' \<and> ok_backed c sm hist owner cs'
    \<and> (\<forall>k p. map_of t' k = Some p \<longrightarrow> map_of t k = Some p)"
proof (cases "map_of t rid")
  case (Some p)
  have t': "t' = filter (\<lambda>q. fst q \<noteq> rid) t" "cs' = snd (finish_completions p s cs)"
    using assms(4) Some by (simp_all add: fail_request_def)
  have "map_of (filter (\<lambda>q. fst q \<noteq> rid) t) k = (if k = rid then None else map_of t k)" for k
    by (induction t) auto
  then show ?thesis
    using assms(1,3) finish_completions_inv(1) [OF assms(2) tracker_inv_lookup [OF assms(1) Some], of s]
    by (auto simp: t' tracker_inv_def distinct_map_filter)
qed (use assms in \<open>auto simp: fail_request_def\<close>)

lemma fail_requests_inv:
  assumes "tracker_inv c hist owner t" and "ok_backed c sm hist owner cs" and "s \<noteq> OK"
    and "fold (\<lambda>rid. fail_request rid s) ids (t, cs) = (t', cs')"
  shows "tracker_inv c hist owner t' \<and> ok_backed c sm hist owner cs'"
  using assms(1,2,4)
proof (induction ids arbitrary: t cs)
  case (Cons rid ids)
  obtain t1 cs1 where 1: "fail_request rid s (t, cs) = (t1, cs1)"
    by fastforce
  then show ?case
    using Cons.IH [of t1 cs1] fail_request_inv [OF Cons.prems(1,2) assms(3) 1] Cons.prems(3) by simp
qed simp

text \<open>A result fits the entry that waits for it.\<close>

definition result_fits :: "History \<Rightarrow> ProposalTracker \<Rightarrow> string \<Rightarrow> Status \<times> LogIndex \<Rightarrow> bool" where
  "result_fits hist t rid r \<longleftrightarrow> (\<forall>p. map_of t rid = Some p \<longrightarrow> \<not> pr_committed p
     \<and> (ok (fst r) \<and> 0 < snd r \<longrightarrow> (\<exists>e. hist (snd r) = Some e \<and> carries e rid (pr_payload_hash p))))"

lemma record_results_inv:
  assumes "tracker_inv c hist owner t" and "ok_backed c sm hist owner cs" and "list_all2 (result_fits hist t) ids rs"
    and "record_results rs ids (t, cs) = (t', cs')"
  shows "tracker_inv c hist owner t' \<and> ok_backed c sm hist owner cs'"
  using assms
proof (induction rs arbitrary: ids t cs)
  case (Cons r rs)
  obtain rid ids' where ids: "ids = rid # ids'"
    using Cons.prems(3) by (auto simp: list_all2_Cons2)
  have fits: "result_fits hist t rid r" "list_all2 (result_fits hist t) ids' rs"
    using Cons.prems(3) by (simp_all add: ids)
  define s where "s = (if fail (fst r) then fst r else ERROR)"
  have s: "s \<noteq> OK"
    by (simp add: s_def fail_def ok_def)
  show ?case
  proof (cases "fail (fst r) \<or> snd r \<le> 0")
    case True
    obtain t1 cs1 where 1: "fail_request rid s (t, cs) = (t1, cs1)"
      by fastforce
    note F = fail_request_inv [OF Cons.prems(1,2) s 1]
    have "record_results rs ids' (t1, cs1) = (t', cs')"
      using Cons.prems(4) 1 True by (auto simp: ids s_def split: if_splits)
    moreover have "list_all2 (result_fits hist t1) ids' rs"
      by (rule list_all2_mono [OF fits(2)]) (use F in \<open>unfold result_fits_def, blast\<close>)
    ultimately show ?thesis
      using Cons.IH [of t1 cs1 ids'] F by blast
  next
    case False
    let ?t = "update_entry rid (\<lambda>e. e\<lparr>pr_index := snd r\<rparr>) t"
    have "tracker_inv c hist owner ?t"
    proof (rule tracker_inv_update [OF Cons.prems(1)])
      fix p assume p: "map_of t rid = Some p"
      then show "entry_inv c hist owner rid (p\<lparr>pr_index := snd r\<rparr>)"
        using tracker_inv_lookup [OF Cons.prems(1) p] fits(1) False by (auto simp: entry_inv_def result_fits_def fail_def)
    qed
    moreover have "list_all2 (result_fits hist ?t) ids' rs"
      using fits(2) by (elim list_all2_mono) (auto simp: result_fits_def map_of_update_entry split: if_splits)
    moreover have "record_results rs ids' (?t, cs) = (t', cs')"
      using Cons.prems(4) False by (simp add: ids)
    ultimately show ?thesis
      using Cons.IH [of ?t cs ids'] Cons.prems(2) by blast
  qed
qed simp

lemma host_execute_sel:
  assumes "host_execute h c eff s = (h', s')"
  shows "ho_core h' = c" "ho_sm h' = ho_sm h"
  using assms by (auto simp: host_execute_def split: prod.splits)

lemma propose_new_inv:
  assumes wf: "core_wf (ho_core h)" and hist: "hist_ok (ho_core h) hist"
    and inv: "submit_inv (ho_core h) (ho_sm h) hist owner (t, cs, params, ids)"
    and run: "propose_new h params ids (t, cs) = (h', (t', cs'), s)"
  shows "keeps (ho_core h) (ho_core h') \<and> core_wf (ho_core h') \<and> co_election (ho_core h') = co_election (ho_core h) \<and> ho_sm h' = ho_sm h
    \<and> tracker_inv (ho_core h') (hist_extend hist (ho_core h')) owner t'
    \<and> ok_backed (ho_core h') (ho_sm h') (hist_extend hist (ho_core h')) owner cs'"
proof (cases "params = []")
  case True
  have "hist_extend hist (ho_core h) i = hist i" for i
    using hist_okD(1) [OF hist, of i] by (cases "entry_at (co_log (ho_core h)) i") (auto simp: hist_extend_def)
  then have "hist_extend hist (ho_core h) = hist"
    by blast
  then show ?thesis
    using True run inv wf by (simp add: propose_new_def)
next
  case False
  obtain c eff rs where 1: "propose_batch (ho_core h) params no_effects = (c, eff, rs)"
    by (metis prod_cases3)
  obtain h1 s1 where 2: "host_execute h c eff OK = (h1, s1)"
    by fastforce
  note B = propose_batch_results [OF wf 1] and H = host_execute_sel [OF 2]
  define hist' where "hist' = hist_extend hist c"
  have mono: "\<And>i e. hist i = Some e \<Longrightarrow> hist' i = Some e"
    unfolding hist'_def by (rule hist_extend_mono(1) [OF wf B(3) hist B(2)])
  have t: "tracker_inv c hist' owner t" and cs: "ok_backed c (ho_sm h) hist' owner cs"
    using run_mono [where c = "ho_core h" and c' = c and hist = hist and hist' = hist'] keepsD(2) [OF B(2)] mono inv by auto
  have out: "(h', (t', cs'), s) = (if fail s1 then (h1, fold (\<lambda>rid. fail_request rid s1) ids (t, cs), s1)
      else if length rs \<noteq> length ids then (h1, fold (\<lambda>rid. fail_request rid ERROR) ids (t, cs), ERROR)
      else (h1, record_results rs ids (t, cs), OK))"
    using run False by (simp add: propose_new_def 1 2)
  have cands: "list_all2 (candidate t) ids params"
    using inv by simp
  have "list_all2 (result_fits hist' t) ids rs"
  proof (rule list_all2_all_nthI)
    fix k assume k: "k < length ids"
    then have kp: "k < length params"
      using list_all2_lengthD [OF cands] by simp
    obtain op key val expected p where p: "params ! k = WriteProposal op key val (ids ! k) expected" "map_of t (ids ! k) = Some p"
        "\<not> pr_committed p" "pr_payload_hash p = request_payload_hash op key val expected"
      using list_all2_nthD [OF cands k] by (auto simp: candidate_def)
    show "result_fits hist' t (ids ! k) (rs ! k)"
      using B(5) [OF kp] p by (auto simp: result_fits_def hist'_def hist_extend_def carries_def entry_hash_def new_entry_def)
  qed (use B(1) list_all2_lengthD [OF cands] in simp)
  then have "tracker_inv c hist' owner t' \<and> ok_backed c (ho_sm h) hist' owner cs'"
    using out record_results_inv [OF t cs, of ids rs t' cs'] fail_requests_inv [OF t cs, of s1 ids t' cs']
      fail_requests_inv [OF t cs, of ERROR ids t' cs'] by (auto simp: fail_def ok_def split: if_splits)
  moreover have "h' = h1"
    using out by (auto split: if_splits)
  ultimately show ?thesis
    using B(2-4) H by (simp add: hist'_def)
qed

section \<open>Runs of a leader\<close>

record LeaderRun =
  rn_core :: RaftCore
  rn_sm :: "MapEngine KvStateMachine"
  rn_tracker :: ProposalTracker
  rn_cs :: "unit Completions"
  rn_owner :: Owner
  rn_hist :: History

text \<open>
  From the election on, as long as the replica leads: events of the Raft core, applied entries, batches of client calls
  with new completions, and rounds of the tracker, in any order.
\<close>

inductive leading :: "LeaderRun \<Rightarrow> bool" where
  elected: "core_wf c \<Longrightarrow> co_role c = LEADER \<Longrightarrow> \<forall>cid. cs cid = new_Completion \<Longrightarrow>
    leading \<lparr>rn_core = c, rn_sm = sm, rn_tracker = [], rn_cs = cs, rn_owner = (\<lambda>_. None), rn_hist = entry_at (co_log c)\<rparr>"
| raft: "leading r \<Longrightarrow> event_ok (rn_core r) ev \<Longrightarrow> raft_step (rn_core r) ev = (c', eff) \<Longrightarrow> co_role c' = LEADER \<Longrightarrow>
    leading (r\<lparr>rn_core := c', rn_hist := hist_extend (rn_hist r) c'\<rparr>)"
| applied: "leading r \<Longrightarrow> leading (r\<lparr>rn_sm := fst (apply_entry map_engine e (rn_sm r))\<rparr>)"
| submitted: "leading r \<Longrightarrow> ho_core h = rn_core r \<Longrightarrow> ho_sm h = rn_sm r \<Longrightarrow>
    \<forall>call \<in> set calls. rn_owner r (qp_completion call) = None \<and> cp_state (rn_cs r (qp_completion call)) = Pending
      \<and> cp_result (rn_cs r (qp_completion call)) = None \<Longrightarrow>
    \<forall>cid. owner' cid = (case find (\<lambda>call. qp_completion call = cid) calls of None \<Rightarrow> rn_owner r cid | Some call \<Rightarrow> call_owner call) \<Longrightarrow>
    distinct (map qp_completion calls) \<Longrightarrow>
    submit_batch h calls (rn_tracker r) (rn_cs r) = (h', (t', cs'), s) \<Longrightarrow>
    leading (r\<lparr>rn_core := ho_core h', rn_tracker := t', rn_cs := cs', rn_owner := owner', rn_hist := hist_extend (rn_hist r) (ho_core h')\<rparr>)"
| advanced: "leading r \<Longrightarrow> proposals_advance (rn_core r) (rn_sm r) (rn_tracker r) (rn_cs r) = (t', cs') \<Longrightarrow>
    leading (r\<lparr>rn_tracker := t', rn_cs := cs'\<rparr>)"

definition run_inv :: "LeaderRun \<Rightarrow> bool" where
  "run_inv r \<longleftrightarrow> core_wf (rn_core r) \<and> co_role (rn_core r) = LEADER \<and> hist_ok (rn_core r) (rn_hist r)
     \<and> tracker_inv (rn_core r) (rn_hist r) (rn_owner r) (rn_tracker r)
     \<and> ok_backed (rn_core r) (rn_sm r) (rn_hist r) (rn_owner r) (rn_cs r)"

lemma run_invD:
  assumes "run_inv r"
  shows "core_wf (rn_core r)" "co_role (rn_core r) = LEADER" "hist_ok (rn_core r) (rn_hist r)"
    "tracker_inv (rn_core r) (rn_hist r) (rn_owner r) (rn_tracker r)"
    "ok_backed (rn_core r) (rn_sm r) (rn_hist r) (rn_owner r) (rn_cs r)"
  using assms unfolding run_inv_def by blast+

lemma hist_initial:
  assumes "core_wf c"
  shows "hist_ok c (entry_at (co_log c))"
  by (simp add: hist_ok_def)

lemma owner_extend:
  assumes "tracker_inv c hist owner t" and "ok_backed c sm hist owner cs"
    and new: "\<forall>call \<in> set calls. owner (qp_completion call) = None \<and> cp_result (cs (qp_completion call)) = None"
    and o: "\<forall>cid. owner' cid = (case find (\<lambda>call. qp_completion call = cid) calls of None \<Rightarrow> owner cid | Some call \<Rightarrow> call_owner call)"
  shows "tracker_inv c hist owner' t" "ok_backed c sm hist owner' cs"
proof -
  have same: "owner' cid = owner cid" if "owner cid \<noteq> None" for cid
  proof (cases "find (\<lambda>call. qp_completion call = cid) calls")
    case (Some call)
    then show ?thesis
      using new that find_SomeD [OF Some] by auto
  qed (simp add: o)
  then show "tracker_inv c hist owner' t"
    using assms(1) by (fastforce simp: tracker_inv_def entry_inv_def)
  have "owner cid = Some q" if "owner' cid = Some q" "cp_result (cs cid) \<noteq> None" for cid q
  proof (cases "find (\<lambda>call. qp_completion call = cid) calls")
    case (Some call)
    then show ?thesis
      using new that(2) find_SomeD [OF Some] by auto
  qed (use that o in simp)
  then show "ok_backed c sm hist owner' cs"
    using assms(2) unfolding ok_backed_def by (metis option.distinct(1))
qed

lemma submit_run_inv:
  assumes inv: "run_inv r" and h: "ho_core h = rn_core r" "ho_sm h = rn_sm r"
    and new: "\<forall>call \<in> set calls. rn_owner r (qp_completion call) = None \<and> cp_result (rn_cs r (qp_completion call)) = None"
    and o: "\<forall>cid. owner' cid = (case find (\<lambda>call. qp_completion call = cid) calls of None \<Rightarrow> rn_owner r cid | Some call \<Rightarrow> call_owner call)"
    and d: "distinct (map qp_completion calls)" and run: "submit_batch h calls (rn_tracker r) (rn_cs r) = (h', (t', cs'), s)"
  shows "run_inv (r\<lparr>rn_core := ho_core h', rn_tracker := t', rn_cs := cs', rn_owner := owner', rn_hist := hist_extend (rn_hist r) (ho_core h')\<rparr>)"
proof -
  note I = run_invD [OF inv]
  note X = owner_extend [OF I(4,5) new o]
  have own: "\<forall>call \<in> set calls. owner' (qp_completion call) = call_owner call"
  proof
    fix call assume c: "call \<in> set calls"
    then have "find (\<lambda>x. qp_completion x = qp_completion call) calls = Some call"
      using d by (induction calls) auto
    then show "owner' (qp_completion call) = call_owner call"
      by (simp add: o)
  qed
  obtain t1 cs1 params ids where fold: "fold (submit_one (ho_core h) (ho_sm h)) calls (rn_tracker r, rn_cs r, [], []) = (t1, cs1, params, ids)"
    by (metis prod_cases4)
  have sub: "submit_inv (ho_core h) (ho_sm h) (rn_hist r) owner' (t1, cs1, params, ids)"
    using submit_all_inv [OF I(1,3) _ own, of "rn_sm r" "(rn_tracker r, rn_cs r, [], [])"] X fold by (simp add: h)
  have "propose_new h params ids (t1, cs1) = (h', (t', cs'), s)"
    using run fold by (simp add: submit_batch_def)
  note P = propose_new_inv [OF I(1) [folded h] I(3) [folded h(1)] sub this]
  show ?thesis
    unfolding run_inv_def using P I(2) h hist_extend_mono(2) [OF I(1) _ I(3), of "ho_core h'"] by auto
qed

lemma leading_inv: "leading r \<Longrightarrow> run_inv r"
proof (induction rule: leading.induct)
  case (elected c cs sm)
  then show ?case
    by (simp add: run_inv_def hist_initial tracker_inv_def ok_backed_def)
next
  case (raft r ev c' eff)
  note I = run_invD [OF raft.IH]
  have k: "keeps (rn_core r) c'"
    by (rule leader_step_keeps [OF I(1) raft.hyps(2,3) I(2) raft.hyps(4)])
  have wf': "core_wf c'"
    using raft_step_ok [OF I(1) raft.hyps(2,3)] by (simp add: step_ok_def)
  note H = hist_extend_mono [OF I(1) wf' I(3) k]
  note M = run_mono(2,4) [OF keepsD(2) [OF k], where hist = "rn_hist r" and hist' = "hist_extend (rn_hist r) c'"]
  show ?case
    using wf' H(2) raft.hyps(4) M(1) [OF H(1) I(5)] M(2) [OF H(1) I(4)] by (simp add: run_inv_def)
next
  case (applied r e)
  then show ?case
    using ok_backed_apply by (simp add: run_inv_def)
next
  case (submitted r h calls owner' h' t' cs' s)
  then show ?case
    by (intro submit_run_inv) auto
next
  case (advanced r t' cs')
  note I = run_invD [OF advanced.IH]
  have "advance_entries (rn_core r) (rn_sm r) (rn_tracker r) (rn_cs r) = (t', cs')"
    using advanced.hyps(2) I(2) by (auto simp: proposals_advance_def is_leader_def split: prod.splits)
  from advance_entries_inv [OF I(4,5) this] show ?case
    using I by (simp add: run_inv_def)
qed

section \<open>Properties\<close>

text \<open>
  C31. As long as a replica leads, in any order of raft events, applied entries, client batches and rounds of the tracker, a
  write that is answered \<^verbatim>\<open>OK\<close> is real: an entry with its request id and payload has been placed in the leader's log at
  an index that is committed, and it is still there unless a snapshot covers it; or the state machine has recorded that
  this very write was executed with \<^verbatim>\<open>OK\<close>.
\<close>

theorem acknowledged_write_is_committed:
  assumes "leading r" and "rn_owner r cid = Some (rid, hsh)" and "cp_result (rn_cs r cid) = Some (void_result OK)"
  shows "(\<exists>i e. rn_hist r i = Some e \<and> 0 < i \<and> i \<le> co_commit (rn_core r) \<and> le_request_id e = rid \<and> entry_hash e = hsh
      \<and> (rl_snapshot_index (co_log (rn_core r)) < i \<longrightarrow> entry_at (co_log (rn_core r)) i = Some e))
    \<or> (\<exists>record. sm_find_request rid (rn_sm r) = Inr record \<and> rr_payload_hash record = hsh \<and> rr_apply_status record = OK)"
proof -
  note I = run_invD [OF leading_inv [OF assms(1)]]
  have "backed (rn_core r) (rn_sm r) (rn_hist r) rid hsh"
    using I(5) assms(2,3) unfolding ok_backed_def by blast
  then show ?thesis
    using hist_okD(2) [OF I(3)] unfolding backed_def carries_def by blast
qed

text \<open>A leader of three voters in term 1 whose log holds one uncommitted write, and the client waiting for it.\<close>

definition demo_chief :: RaftCore where
  "demo_chief = demo_core\<lparr>co_election := \<lparr>el_self_id = demo_id 1, el_role = LEADER, el_current_term = 1, el_voted_for = Some (demo_id 1),
     el_granted_voters = {}, el_pre_vote_granted_voters = {}\<rparr>, co_log := demo_log [demo_put 1 ''q'']\<rparr>"

definition demo_waiting :: ProposalTracker where
  "demo_waiting = [(''q'', \<lparr>pr_op = PUT, pr_payload_hash = entry_hash (demo_put 1 ''q''), pr_index = 1, pr_committed = False,
     pr_completions = [0]\<rparr>)]"

definition demo_owner :: Owner where
  "demo_owner cid = (if cid = 0 then Some (''q'', entry_hash (demo_put 1 ''q'')) else None)"

text \<open>The leader of term 2, which has committed an entry of its own at index 1, reaches the replica again.\<close>

definition demo_takeover :: AppendEntriesParam where
  "demo_takeover = \<lparr>ae_from = demo_id 2, ae_to = demo_id 1, ae_term = 2, ae_entries = [demo_entry 2 1], ae_prev_log_index = 0,
     ae_prev_log_term = 0, ae_leader_commit = 1, ae_read_quorum_seq = 0\<rparr>"

lemma demo_chief_wf: "core_wf demo_chief"
  using demo_core_wf
  by (simp add: core_wf_def demo_chief_def election_wf_def apply_wf_def new_RaftApply_def demo_defs demo_put_def)

text \<open>The same leader after the write is committed, and a client that sends it again.\<close>

definition demo_committed :: RaftCore where
  "demo_committed = demo_chief\<lparr>co_apply := \<lparr>ap_commit_index = 1, ap_last_applied = 0\<rparr>\<rparr>"

definition demo_call :: ProposeQueued where
  "demo_call = \<lparr>qp_param = WriteProposal PUT [] [] ''q'' [], qp_completion = 0\<rparr>"

lemma demo_committed_wf: "core_wf demo_committed"
  using demo_chief_wf
  by (simp add: core_wf_def demo_committed_def demo_chief_def apply_wf_def demo_defs demo_put_def)

theorem acknowledged_write_is_committed_witness:
  "\<exists>t cs. proposals_advance demo_committed (new_KvStateMachine MAP)
       [(''q'', \<lparr>pr_op = PUT, pr_payload_hash = entry_hash (demo_put 1 ''q''), pr_index = 1, pr_committed = False, pr_completions = [0]\<rparr>)]
       (\<lambda>_. new_Completion) = (t, cs)
     \<and> cp_result (cs 0) = Some (void_result OK)
     \<and> (\<exists>i e. entry_at (co_log demo_committed) i = Some e \<and> i \<le> co_commit demo_committed \<and> le_request_id e = ''q'')"
proof -
  let ?c = demo_committed and ?sm = "new_KvStateMachine MAP" and ?cs = "\<lambda>_. new_Completion"
  define h where "h = \<lparr>ho_core = ?c, ho_sm = ?sm, ho_store = demo_store, ho_sent = [], ho_faulted = False\<rparr>"
  define entry where "entry = \<lparr>pr_op = PUT, pr_payload_hash = entry_hash (demo_put 1 ''q''), pr_index = 1, pr_committed = False,
      pr_completions = [0]\<rparr>"
  have e1: "entry_at (co_log ?c) 1 = Some (demo_put 1 ''q'')" and find: "core_find_request ?c ''q'' = Some (demo_put 1 ''q'')"
    by (simp_all add: demo_committed_def demo_chief_def demo_log_def update_entries_def rebuild_request_index_def new_RaftLog_def entry_at_def
        index_to_offset_def core_find_request_def find_request_def request_index_of_def index_request_id_def demo_put_def demo_entry_def
        is_kv_write_op_def Let_def)
  have none: "sm_find_request ''q'' ?sm = Inl KEY_NOT_FOUND"
    by (simp add: sm_find_request_def new_KvStateMachine_def)
  have sub: "submit_batch h [demo_call] [] ?cs = (h, ([(''q'', entry)], ?cs), OK)"
    using find none
    by (simp add: submit_batch_def h_def submit_one_def demo_call_def submit_untracked_def propose_new_def entry_def entry_hash_def demo_put_def
        demo_entry_def default_LogEntry_def Let_def)
  have lead0: "leading \<lparr>rn_core = ?c, rn_sm = ?sm, rn_tracker = [], rn_cs = ?cs, rn_owner = (\<lambda>_. None), rn_hist = entry_at (co_log ?c)\<rparr>"
    by (rule leading.elected) (simp_all add: demo_committed_wf, simp add: demo_committed_def demo_chief_def)
  have lead1: "leading \<lparr>rn_core = ?c, rn_sm = ?sm, rn_tracker = [(''q'', entry)], rn_cs = ?cs, rn_owner = demo_owner,
      rn_hist = hist_extend (entry_at (co_log ?c)) ?c\<rparr>"
    using leading.submitted [OF lead0, of h "[demo_call]" demo_owner h "[(''q'', entry)]" ?cs OK] sub
    by (simp add: h_def demo_owner_def demo_call_def call_owner_def entry_hash_def demo_put_def demo_entry_def default_LogEntry_def new_Completion_def)
  obtain t cs where adv: "proposals_advance ?c ?sm [(''q'', entry)] ?cs = (t, cs)"
    by fastforce
  have ok: "cp_result (cs 0) = Some (void_result OK)"
    using adv by (auto simp: proposals_advance_def entry_def finish_completions_def complete_all_def complete_at_def complete_def new_Completion_def
        demo_committed_def demo_chief_def is_leader_def Let_def)
  have lead2: "leading \<lparr>rn_core = ?c, rn_sm = ?sm, rn_tracker = t, rn_cs = cs, rn_owner = demo_owner,
      rn_hist = hist_extend (entry_at (co_log ?c)) ?c\<rparr>"
    using leading.advanced [OF lead1, of t cs] adv by simp
  have "\<exists>i e. entry_at (co_log ?c) i = Some e \<and> i \<le> co_commit ?c \<and> le_request_id e = ''q''"
    using acknowledged_write_is_committed [OF lead2, of 0] ok none
    by (force simp: demo_owner_def hist_extend_def split: option.splits)
  then show ?thesis
    using adv ok by (simp add: entry_def)
qed

lemma demo_takeover_append:
  "\<exists>ar. append_entries_from_leader (demo_log [demo_put 1 ''q'']) [demo_entry 2 1] = (OK, demo_log [demo_entry 2 1], ar)"
  by (simp add: append_entries_from_leader_def demo_defs demo_put_def Let_def updated_last_log_index_def updated_get_term_def
      resize_entries_def request_index_of_def index_request_id_def)

lemma demo_takeover_done:
  "\<exists>c' eff r. handle_append_entries demo_chief demo_takeover no_effects = (c', eff, r) \<and> aer_success r
     \<and> co_log c' = demo_log [demo_entry 2 1] \<and> co_commit c' = 1 \<and> co_applied c' = 0 \<and> co_role c' = FOLLOWER"
proof -
  obtain ar where ar: "append_entries_from_leader (demo_log [demo_put 1 ''q'']) [demo_entry 2 1] = (OK, demo_log [demo_entry 2 1], ar)"
    using demo_takeover_append by blast
  have "contains_member demo_members (demo_id 2)"
    by (simp add: contains_member_def find_raft_member_def demo_members_def reset_voters_def)
  moreover have "last_log_index (demo_log [demo_entry 2 1]) = 1"
    by (simp add: demo_defs)
  ultimately show ?thesis
    by (simp add: handle_append_entries_def demo_chief_def demo_takeover_def core_become_follower_def become_follower_def
        clear_recent_leader_active_def mark_recent_leader_active_def ar finish_recovering_def advance_commit_index_from_leader_def
        new_RaftApply_def fail_def ok_def Let_def)
qed

lemma demo_chief_tracks: "tracker_inv demo_chief (entry_at (co_log demo_chief)) demo_owner demo_waiting"
proof -
  have "entry_at (co_log demo_chief) 1 = Some (demo_put 1 ''q'')"
    by (simp add: demo_chief_def demo_log_def update_entries_def rebuild_request_index_def new_RaftLog_def entry_at_def index_to_offset_def Let_def)
  then show ?thesis
    by (simp add: tracker_inv_def entry_inv_def demo_waiting_def demo_owner_def carries_def demo_put_def)
qed


end
