(* ===== verification/Read_Tracker.thy ===== *)
theory Read_Tracker
  imports Proposal_Safety
begin

text \<open>
  Linearizable reads (\<^verbatim>\<open>storage/replica/read_tracker.*\<close>).  A read notes the commit index and asks every voter
  whether this replica still leads; it is answered from the state machine once a majority has confirmed and the noted index
  is applied.  The pending reads are an \<^verbatim>\<open>std::unordered_map\<close>, an association list with distinct sequence numbers here.
  The loop of \<^verbatim>\<open>advance\<close> runs on the replica's own thread and calls nothing that advances again, so the flag
  \<^verbatim>\<open>checking_\<close> is false whenever it is entered.
\<close>

section \<open>The tracker\<close>

record PendingRead =
  rd_key :: Key
  rd_completion :: nat
  rd_read_index :: LogIndex
  rd_read_term :: Term
  rd_voter_ids :: "ReplicaID list"
  rd_confirmed_voters :: "ReplicaID set"

record ReadTracker =
  rt_pending_reads :: "(nat \<times> PendingRead) list"
  rt_next_read_seq :: nat

definition new_ReadTracker :: ReadTracker where
  "new_ReadTracker = \<lparr>rt_pending_reads = [], rt_next_read_seq = 1\<rparr>"

text \<open>The third component is what is handed to the dispatcher.\<close>

definition establish :: "RaftCore \<Rightarrow> Key \<Rightarrow> nat \<Rightarrow> ReadTracker \<Rightarrow> Value Completions \<Rightarrow> ReadTracker \<times> RaftMessage list \<times> Status" where
  "establish c key cid rt cs =
    (if \<not> needs_result (cs cid) then (rt, [], OK)
     else let read_seq = rt_next_read_seq rt; rt1 = rt\<lparr>rt_next_read_seq := read_seq + 1\<rparr> in
       case build_read_quorum_check c read_seq no_effects of
         Inl status \<Rightarrow> (rt1, [], status)
       | Inr (eff, rq) \<Rightarrow>
           let read = \<lparr>rd_key = key, rd_completion = cid, rd_read_index = rq_read_index rq, rd_read_term = rq_read_term rq,
                 rd_voter_ids = rq_voter_ids rq,
                 rd_confirmed_voters = (if co_self_id c \<in> set (rq_voter_ids rq) then {co_self_id c} else {})\<rparr>
           in (rt1\<lparr>rt_pending_reads := (read_seq, read) # rt_pending_reads rt1\<rparr>, ef_messages eff, OK))"

definition on_read_quorum_response :: "ReplicaID \<Rightarrow> nat \<Rightarrow> Term \<Rightarrow> Value Completions \<Rightarrow> ReadTracker \<Rightarrow> ReadTracker" where
  "on_read_quorum_response src read_seq response_term cs rt =
    (case map_of (rt_pending_reads rt) read_seq of None \<Rightarrow> rt
     | Some read \<Rightarrow>
         if \<not> needs_result (cs (rd_completion read)) then rt
         else if response_term \<noteq> rd_read_term read then rt
         else if src \<notin> set (rd_voter_ids read) then rt
         else rt\<lparr>rt_pending_reads := map (\<lambda>p. if fst p = read_seq
            then (fst p, (snd p)\<lparr>rd_confirmed_voters := insert src (rd_confirmed_voters (snd p))\<rparr>) else p) (rt_pending_reads rt)\<rparr>)"

text \<open>The loop of \<^verbatim>\<open>advance\<close>; the last component says that a fault was reported, which ends the loop.\<close>

fun advance_reads :: "RaftCore \<Rightarrow> MapEngine KvStateMachine \<Rightarrow> (nat \<times> PendingRead) list \<Rightarrow> Value Completions
    \<Rightarrow> (nat \<times> PendingRead) list \<times> Value Completions \<times> bool" where
  "advance_reads c sm [] cs = ([], cs, False)"
| "advance_reads c sm ((seq, read) # rest) cs =
    (let cid = rd_completion read;
         drop_with = (\<lambda>r. advance_reads c sm rest (complete_at cid r cs));
         keep = (let (rest', cs', f) = advance_reads c sm rest cs in ((seq, read) # rest', cs', f)) in
     if \<not> needs_result (cs cid) then advance_reads c sm rest cs
     else if \<not> is_leader (co_election c) \<or> co_term c \<noteq> rd_read_term read then drop_with (result_fail NOT_LEADER)
     else if card (rd_confirmed_voters read) < length (rd_voter_ids read) div 2 + 1 then keep
     else if co_applied c < rd_read_index read then keep
     else if fail (confirm_read_index c (rd_read_index read) (rd_read_term read))
       then drop_with (result_fail (confirm_read_index c (rd_read_index read) (rd_read_term read)))
     else case sm_get map_engine (rd_key read) sm of
         Inr v \<Rightarrow> drop_with (result_ok v)
       | Inl s \<Rightarrow> if s \<noteq> KEY_NOT_FOUND then (rest, complete_at cid (result_fail s) cs, True) else drop_with (result_fail s))"

definition reads_advance :: "RaftCore \<Rightarrow> MapEngine KvStateMachine \<Rightarrow> ReadTracker \<Rightarrow> Value Completions \<Rightarrow> ReadTracker \<times> Value Completions \<times> bool" where
  "reads_advance c sm rt cs =
    (let (reads, cs', faulted) = advance_reads c sm (rt_pending_reads rt) cs in (rt\<lparr>rt_pending_reads := reads\<rparr>, cs', faulted))"

definition reads_fail_all :: "Status \<Rightarrow> ReadTracker \<Rightarrow> Value Completions \<Rightarrow> ReadTracker \<times> Value Completions" where
  "reads_fail_all status rt cs =
    (rt\<lparr>rt_pending_reads := []\<rparr>, fold (\<lambda>p. complete_at (rd_completion (snd p)) (result_fail status)) (rt_pending_reads rt) cs)"

section \<open>Runs\<close>

text \<open>
  What is remembered of the past of a run: the state in which each read was established, and the confirmations that
  arrived, each with the sender, the sequence number and the term it answers in.
\<close>

record ReadOrigin =
  or_key :: Key
  or_completion :: nat
  or_core :: RaftCore

record ReadRun =
  rg_tracker :: ReadTracker
  rg_cs :: "Value Completions"
  rg_origin :: "nat \<Rightarrow> ReadOrigin option"
  rg_answers :: "(ReplicaID \<times> nat \<times> Term) set"

text \<open>Between two operations the replica may be in any state: each operation sees a core and a state machine of its own.\<close>

inductive reading :: "ReadRun \<Rightarrow> bool" where
  start: "reading \<lparr>rg_tracker = new_ReadTracker, rg_cs = cs, rg_origin = (\<lambda>_. None), rg_answers = {}\<rparr>"
| established: "reading r \<Longrightarrow> cs cid = new_Completion \<Longrightarrow> (\<And>x. x \<noteq> cid \<Longrightarrow> cs x = rg_cs r x) \<Longrightarrow>
    (\<And>seq o'. rg_origin r seq = Some o' \<Longrightarrow> or_completion o' \<noteq> cid) \<Longrightarrow>
    establish c key cid (rg_tracker r) cs = (rt, msgs, s) \<Longrightarrow>
    reading (r\<lparr>rg_tracker := rt, rg_cs := cs, rg_origin := (rg_origin r)(rt_next_read_seq (rg_tracker r) \<mapsto>
      \<lparr>or_key = key, or_completion = cid, or_core = c\<rparr>)\<rparr>)"
| answered: "reading r \<Longrightarrow> reading (r\<lparr>rg_tracker := on_read_quorum_response src seq t (rg_cs r) (rg_tracker r),
      rg_answers := insert (src, seq, t) (rg_answers r)\<rparr>)"
| advanced: "reading r \<Longrightarrow> reads_advance c sm (rg_tracker r) (rg_cs r) = (rt, cs, f) \<Longrightarrow>
    reading (r\<lparr>rg_tracker := rt, rg_cs := cs\<rparr>)"
| timed_out: "reading r \<Longrightarrow> reading (r\<lparr>rg_cs := (rg_cs r)(cid := fst (wait_for s (rg_cs r cid)))\<rparr>)"

section \<open>What is known of a pending read\<close>

definition read_known :: "(nat \<Rightarrow> ReadOrigin option) \<Rightarrow> (ReplicaID \<times> nat \<times> Term) set \<Rightarrow> nat \<Rightarrow> PendingRead \<Rightarrow> bool" where
  "read_known origin answers seq read \<longleftrightarrow> (\<exists>og. origin seq = Some og \<and> or_key og = rd_key read \<and> or_completion og = rd_completion read
     \<and> ensure_readable_leader (or_core og) = OK
     \<and> rd_read_index read = co_commit (or_core og) \<and> rd_read_term read = co_term (or_core og)
     \<and> rd_voter_ids read = map member_id (filter (\<lambda>m. is_raft_voter (rm_member_type m)) (co_membership (or_core og)))
     \<and> rd_confirmed_voters read \<subseteq> voter_ids (co_membership (or_core og))
     \<and> (\<forall>q \<in> rd_confirmed_voters read. q = co_self_id (or_core og) \<or> (q, seq, rd_read_term read) \<in> answers))"

definition reading_inv :: "ReadRun \<Rightarrow> bool" where
  "reading_inv r \<longleftrightarrow>
     (\<forall>p \<in> set (rt_pending_reads (rg_tracker r)). fst p < rt_next_read_seq (rg_tracker r) \<and> read_known (rg_origin r) (rg_answers r) (fst p) (snd p))
     \<and> (\<forall>seq og. rg_origin r seq = Some og \<longrightarrow> seq < rt_next_read_seq (rg_tracker r))
     \<and> (\<forall>seq seq' og og'. rg_origin r seq = Some og \<longrightarrow> rg_origin r seq' = Some og' \<longrightarrow> or_completion og = or_completion og' \<longrightarrow> seq = seq')"

lemma reading_invD:
  assumes "reading_inv r"
  shows "p \<in> set (rt_pending_reads (rg_tracker r)) \<Longrightarrow> fst p < rt_next_read_seq (rg_tracker r)"
    "p \<in> set (rt_pending_reads (rg_tracker r)) \<Longrightarrow> read_known (rg_origin r) (rg_answers r) (fst p) (snd p)"
    "rg_origin r seq = Some og \<Longrightarrow> seq < rt_next_read_seq (rg_tracker r)"
    "rg_origin r seq = Some og \<Longrightarrow> rg_origin r seq' = Some og' \<Longrightarrow> or_completion og = or_completion og' \<Longrightarrow> seq = seq'"
  using assms unfolding reading_inv_def by blast+

lemma reading_invI:
  assumes "\<And>p. p \<in> set (rt_pending_reads (rg_tracker r)) \<Longrightarrow> fst p < rt_next_read_seq (rg_tracker r)"
    "\<And>p. p \<in> set (rt_pending_reads (rg_tracker r)) \<Longrightarrow> read_known (rg_origin r) (rg_answers r) (fst p) (snd p)"
    "\<And>seq og. rg_origin r seq = Some og \<Longrightarrow> seq < rt_next_read_seq (rg_tracker r)"
    "\<And>seq seq' og og'. rg_origin r seq = Some og \<Longrightarrow> rg_origin r seq' = Some og' \<Longrightarrow> or_completion og = or_completion og' \<Longrightarrow> seq = seq'"
  shows "reading_inv r"
  using assms unfolding reading_inv_def by blast

lemma voter_list_set: "set (map member_id (filter (\<lambda>m. is_raft_voter (rm_member_type m)) ms)) = voter_ids ms"
  by (auto simp: voter_ids_def)

lemma read_known_mono:
  assumes "read_known origin answers seq read" and "\<And>og. origin seq = Some og \<Longrightarrow> origin' seq = Some og" and "answers \<subseteq> answers'"
  shows "read_known origin' answers' seq read"
  using assms unfolding read_known_def by blast

definition read_served :: "RaftCore \<Rightarrow> MapEngine KvStateMachine \<Rightarrow> PendingRead \<Rightarrow> Value \<Rightarrow> bool" where
  "read_served c sm read v \<longleftrightarrow> is_leader (co_election c) \<and> co_term c = rd_read_term read
     \<and> length (rd_voter_ids read) div 2 + 1 \<le> card (rd_confirmed_voters read)
     \<and> rd_read_index read \<le> co_applied c \<and> sm_get map_engine (rd_key read) sm = Inr v"

lemma advance_reads_cases:
  assumes "advance_reads c sm ((seq, read) # rest) cs = (reads', cs', f)"
  obtains "advance_reads c sm rest cs = (reads', cs', f)" "\<not> needs_result (cs (rd_completion read))"
  | s where "advance_reads c sm rest (complete_at (rd_completion read) (result_fail s) cs) = (reads', cs', f)"
  | v where "advance_reads c sm rest (complete_at (rd_completion read) (result_ok v) cs) = (reads', cs', f)" "read_served c sm read v"
  | rest' where "advance_reads c sm rest cs = (rest', cs', f)" "reads' = (seq, read) # rest'"
  | s where "reads' = rest" "cs' = complete_at (rd_completion read) (result_fail s) cs"
proof -
  let ?s = "confirm_read_index c (rd_read_index read) (rd_read_term read)"
  obtain rest' csr fr where K: "advance_reads c sm rest cs = (rest', csr, fr)"
    by (metis prod_cases3)
  let ?wait = "card (rd_confirmed_voters read) < length (rd_voter_ids read) div 2 + 1 \<or> co_applied c < rd_read_index read"
  let ?lost = "\<not> is_leader (co_election c) \<or> co_term c \<noteq> rd_read_term read"
  note E = assms [unfolded advance_reads.simps Let_def]
  consider "\<not> needs_result (cs (rd_completion read))" | "needs_result (cs (rd_completion read))" "?lost"
    | "needs_result (cs (rd_completion read))" "\<not> ?lost" "?wait"
    | "needs_result (cs (rd_completion read))" "\<not> ?lost" "\<not> ?wait" "fail ?s"
    | s where "needs_result (cs (rd_completion read))" "\<not> ?lost" "\<not> ?wait" "\<not> fail ?s" "sm_get map_engine (rd_key read) sm = Inl s"
    | v where "needs_result (cs (rd_completion read))" "\<not> ?lost" "\<not> ?wait" "\<not> fail ?s" "sm_get map_engine (rd_key read) sm = Inr v"
    by (metis sumE)
  then show thesis
  proof cases
    case 1
    then show thesis using that(1) E by simp
  next
    case 2
    then show thesis using that(2) [of NOT_LEADER] E by simp
  next
    case 3
    then show thesis using that(4) [of rest'] E K by (simp split: if_splits)
  next
    case 4
    then show thesis using that(2) [of ?s] E by (simp split: if_splits)
  next
    case (5 s)
    then show thesis using that(2,5) [of s] E by (simp split: if_splits)
  next
    case (6 v)
    then show thesis using that(3) [of v] E by (simp add: read_served_def not_less)
  qed
qed

lemma advance_reads_subset: "advance_reads c sm reads cs = (reads', cs', f) \<Longrightarrow> set reads' \<subseteq> set reads"
proof (induction reads arbitrary: cs reads' cs' f)
  case (Cons p rest)
  obtain seq read where [simp]: "p = (seq, read)" by fastforce
  from Cons.prems [simplified \<open>p = _\<close>] show ?case
    by (cases rule: advance_reads_cases) (auto dest: Cons.IH)
qed simp

lemma establish_cases:
  assumes "establish c key cid rt cs = (rt', msgs, s)" and "needs_result (cs cid)"
  obtains "rt' = rt\<lparr>rt_next_read_seq := rt_next_read_seq rt + 1\<rparr>"
  | read where "rt' = rt\<lparr>rt_next_read_seq := rt_next_read_seq rt + 1, rt_pending_reads := (rt_next_read_seq rt, read) # rt_pending_reads rt\<rparr>"
      "read_known [rt_next_read_seq rt \<mapsto> \<lparr>or_key = key, or_completion = cid, or_core = c\<rparr>] {} (rt_next_read_seq rt) read"
proof (cases "fail (ensure_readable_leader c)")
  case True
  then show thesis
    using that(1) assms by (auto simp: establish_def build_read_quorum_check_def Let_def)
next
  case False
  then have ok: "ensure_readable_leader c = OK"
    by (simp add: fail_def ok_def)
  define read where "read = \<lparr>rd_key = key, rd_completion = cid, rd_read_index = co_commit c, rd_read_term = co_term c,
      rd_voter_ids = map member_id (filter (\<lambda>m. is_raft_voter (rm_member_type m)) (co_membership c)),
      rd_confirmed_voters = (if co_self_id c \<in> voter_ids (co_membership c) then {co_self_id c} else {})\<rparr>"
  have "rt' = rt\<lparr>rt_next_read_seq := rt_next_read_seq rt + 1, rt_pending_reads := (rt_next_read_seq rt, read) # rt_pending_reads rt\<rparr>"
    using assms False
    by (auto simp: establish_def build_read_quorum_check_def read_def Let_def simp flip: voter_list_set)
  moreover have "read_known [rt_next_read_seq rt \<mapsto> \<lparr>or_key = key, or_completion = cid, or_core = c\<rparr>] {} (rt_next_read_seq rt) read"
    using ok by (simp add: read_known_def read_def)
  ultimately show thesis
    by (rule that(2))
qed

lemma read_known_insert:
  assumes "read_known origin answers seq read" "src \<in> set (rd_voter_ids read)" "t = rd_read_term read" "(src, seq, t) \<in> answers"
  shows "read_known origin answers seq (read\<lparr>rd_confirmed_voters := insert src (rd_confirmed_voters read)\<rparr>)"
  using assms voter_list_set unfolding read_known_def by auto

lemma response_member:
  assumes "p \<in> set (rt_pending_reads (on_read_quorum_response src seq t cs rt))"
  obtains "p \<in> set (rt_pending_reads rt)"
  | q read where "(seq, q) \<in> set (rt_pending_reads rt)" "p = (seq, q\<lparr>rd_confirmed_voters := insert src (rd_confirmed_voters q)\<rparr>)"
      "(seq, read) \<in> set (rt_pending_reads rt)" "t = rd_read_term read" "src \<in> set (rd_voter_ids read)"
proof (cases "on_read_quorum_response src seq t cs rt = rt")
  case True
  then show thesis
    using that(1) assms by simp
next
  case False
  then obtain read where read: "map_of (rt_pending_reads rt) seq = Some read" "t = rd_read_term read" "src \<in> set (rd_voter_ids read)"
      "needs_result (cs (rd_completion read))"
    by (auto simp: on_read_quorum_response_def split: option.splits if_splits)
  have M: "rt_pending_reads (on_read_quorum_response src seq t cs rt) = map (\<lambda>p. if fst p = seq
      then (fst p, (snd p)\<lparr>rd_confirmed_voters := insert src (rd_confirmed_voters (snd p))\<rparr>) else p) (rt_pending_reads rt)"
    using read by (simp add: on_read_quorum_response_def)
  from assms [unfolded M set_map] obtain q where q: "q \<in> set (rt_pending_reads rt)"
      "p = (if fst q = seq then (fst q, (snd q)\<lparr>rd_confirmed_voters := insert src (rd_confirmed_voters (snd q))\<rparr>) else q)"
    by (rule imageE)
  show thesis
  proof (cases "fst q = seq")
    case True
    then show thesis
      using that(2) [of "snd q" read] q map_of_SomeD [OF read(1)] read by auto
  next
    case False
    then show thesis
      using q by (intro that(1)) simp
  qed
qed

lemma read_response_inv:
  assumes "reading_inv r"
  shows "reading_inv (r\<lparr>rg_tracker := on_read_quorum_response src seq t cs (rg_tracker r), rg_answers := insert (src, seq, t) (rg_answers r)\<rparr>)"
proof -
  note I = reading_invD [OF assms]
  let ?rt = "rg_tracker r" and ?A = "insert (src, seq, t) (rg_answers r)"
  let ?rt' = "on_read_quorum_response src seq t cs ?rt"
  have next': "rt_next_read_seq ?rt' = rt_next_read_seq ?rt"
    by (simp add: on_read_quorum_response_def split: option.splits)
  have "fst p < rt_next_read_seq ?rt \<and> read_known (rg_origin r) ?A (fst p) (snd p)" if p: "p \<in> set (rt_pending_reads ?rt')" for p
  proof -
    show ?thesis
      using p
    proof (cases rule: response_member)
      case 1
      show ?thesis
        using I(1) [OF 1] read_known_mono [OF I(2) [OF 1]] by blast
    next
      case (2 q read)
      have K: "read_known (rg_origin r) ?A seq q"
        using read_known_mono [OF I(2) [OF 2(1)], of "rg_origin r" ?A] by auto
      have R: "read_known (rg_origin r) ?A seq read"
        using read_known_mono [OF I(2) [OF 2(3)], of "rg_origin r" ?A] by auto
      have "src \<in> set (rd_voter_ids q)" "t = rd_read_term q"
        using K R 2(4,5) by (auto simp: read_known_def)
      then have "read_known (rg_origin r) ?A seq (q\<lparr>rd_confirmed_voters := insert src (rd_confirmed_voters q)\<rparr>)"
        by (rule read_known_insert [OF K]) simp
      then show ?thesis
        using I(1) [OF 2(1)] 2(2) by simp
    qed
  qed
  then show ?thesis
    using I(3,4) by (auto simp: reading_inv_def next')
qed

lemma reading_invariant: "reading r \<Longrightarrow> reading_inv r"
proof (induction rule: reading.induct)
  case (start cs)
  then show ?case
    by (simp add: reading_inv_def new_ReadTracker_def)
next
  case (established r cs cid c key rt msgs s)
  note I = reading_invD [OF established.IH]
  let ?n = "rt_next_read_seq (rg_tracker r)"
  let ?og = "\<lparr>or_key = key, or_completion = cid, or_core = c\<rparr>"
  have old: "read_known ((rg_origin r)(?n \<mapsto> ?og)) (rg_answers r) (fst p) (snd p)" if "p \<in> set (rt_pending_reads (rg_tracker r))" for p
    using I(1) [OF that] by (intro read_known_mono [OF I(2) [OF that]]) auto
  have fresh: "seq < Suc ?n" if "((rg_origin r)(?n \<mapsto> ?og)) seq = Some og" for seq og
    using that I(3) by (cases "seq = ?n") (auto simp: less_Suc_eq)
  have inj: "seq = seq'" if "((rg_origin r)(?n \<mapsto> ?og)) seq = Some og" "((rg_origin r)(?n \<mapsto> ?og)) seq' = Some og'"
      "or_completion og = or_completion og'" for seq seq' og og'
    using that I(4) established.hyps(4) [of seq og] established.hyps(4) [of seq' og'] by (cases "seq = ?n"; cases "seq' = ?n") auto
  have "needs_result (cs cid)"
    using established.hyps(2) by (simp add: needs_result_def new_Completion_def)
  from established.hyps(5) this show ?case
  proof (cases rule: establish_cases)
    case 1
    have "fst p < Suc ?n" if "p \<in> set (rt_pending_reads (rg_tracker r))" for p
      using I(1) [OF that] by simp
    then show ?thesis
      by (intro reading_invI; simp add: 1 del: fun_upd_apply) (erule old fresh | erule (2) inj)+
  next
    case (2 read)
    have new: "read_known ((rg_origin r)(?n \<mapsto> ?og)) (rg_answers r) ?n read"
      by (rule read_known_mono [OF 2(2)]) (auto split: if_splits)
    have "fst p < Suc ?n \<and> read_known ((rg_origin r)(?n \<mapsto> ?og)) (rg_answers r) (fst p) (snd p)" if "p \<in> set (rt_pending_reads rt)" for p
      using that I(1) [of p] old [of p] new by (auto simp: 2(1) less_Suc_eq)
    then show ?thesis
      by (intro reading_invI; simp add: 2(1) del: fun_upd_apply) (erule fresh | erule (2) inj)+
  qed
next
  case (answered r src seq t)
  then show ?case
    by (intro read_response_inv)
next
  case (advanced r c sm rt cs f)
  then have "set (rt_pending_reads rt) \<subseteq> set (rt_pending_reads (rg_tracker r))" "rt_next_read_seq rt = rt_next_read_seq (rg_tracker r)"
    by (auto simp: reads_advance_def split: prod.splits dest: advance_reads_subset [THEN subsetD])
  then show ?case
    using advanced.IH by (auto simp: reading_inv_def)
next
  case (timed_out r cid s)
  then show ?case
    by (simp add: reading_inv_def)
qed

section \<open>A served read is fresh\<close>

lemma result_kinds [simp]: "result_fail s \<noteq> result_ok v" "result_ok v = result_ok w \<longleftrightarrow> v = w"
  by (simp_all add: result_fail_def result_ok_def)

lemma complete_at_result:
  "cp_result (complete_at cid r cs x) = (if x = cid \<and> needs_result (cs cid) then Some r else cp_result (cs x))"
  by (auto simp: complete_at_def complete_def needs_result_def split: CompletionState.splits)

lemma advance_reads_served:
  assumes "advance_reads c sm reads cs = (reads', cs', f)" and "cp_result (cs' cid) = Some (result_ok v)" and "cp_result (cs cid) \<noteq> Some (result_ok v)"
  shows "\<exists>p \<in> set reads. rd_completion (snd p) = cid \<and> read_served c sm (snd p) v"
  using assms
proof (induction reads arbitrary: cs reads' cs' f)
  case (Cons p rest)
  obtain seq read where [simp]: "p = (seq, read)" by fastforce
  have IH: ?case if "advance_reads c sm rest cs0 = (reads0, cs', f0)" "cp_result (cs0 cid) \<noteq> Some (result_ok v)" for cs0 reads0 f0
    using Cons.IH [OF that(1) Cons.prems(2) that(2)] by auto
  from Cons.prems(1) [simplified \<open>p = _\<close>] show ?case
  proof (cases rule: advance_reads_cases)
    case 1
    show ?thesis using 1(1) Cons.prems(3) by (rule IH)
  next
    case (2 s)
    then show ?thesis by (rule IH) (simp add: complete_at_result Cons.prems(3))
  next
    case (3 w)
    show ?thesis
    proof (cases "rd_completion read = cid \<and> w = v")
      case True
      then show ?thesis using 3(2) by simp
    next
      case False
      then show ?thesis by (intro IH [OF 3(1)]) (auto simp: complete_at_result Cons.prems(3))
    qed
  next
    case (4 rest')
    show ?thesis using 4(1) Cons.prems(3) by (rule IH)
  next
    case (5 s)
    then show ?thesis using Cons.prems(2,3) by (simp add: complete_at_result split: if_splits)
  qed
qed simp

lemma confirmed_quorum:
  assumes "A \<subseteq> voter_ids ms" "length (map member_id (filter (\<lambda>m. is_raft_voter (rm_member_type m)) ms)) div 2 + 1 \<le> card A"
  shows "voter_quorum ms A"
  using assms by (simp add: voter_quorum_def has_quorum_def quorum_size_def voters_def zdiv_int)


definition demo_server :: RaftCore where
  "demo_server = demo_chief\<lparr>co_apply := \<lparr>ap_commit_index = 1, ap_last_applied = 1\<rparr>\<rparr>"

definition demo_asked :: ReadTracker where
  "demo_asked = fst (establish demo_server ''k'' 0 new_ReadTracker (\<lambda>_. new_Completion))"

definition demo_confirmed :: ReadRun where
  "demo_confirmed = \<lparr>rg_tracker = on_read_quorum_response (demo_id 2) 1 1 (\<lambda>_. new_Completion) demo_asked, rg_cs = (\<lambda>_. new_Completion),
     rg_origin = [1 \<mapsto> \<lparr>or_key = ''k'', or_completion = 0, or_core = demo_server\<rparr>], rg_answers = {(demo_id 2, 1, 1)}\<rparr>"

lemma demo_confirmed_reached: "reading demo_confirmed"
proof -
  let ?cs = "\<lambda>_. new_Completion"
  let ?r0 = "\<lparr>rg_tracker = new_ReadTracker, rg_cs = ?cs, rg_origin = (\<lambda>_. None), rg_answers = {}\<rparr>"
  obtain rt msgs s where e: "establish demo_server ''k'' 0 (rg_tracker ?r0) ?cs = (rt, msgs, s)"
    by (metis prod_cases3)
  have "reading (?r0\<lparr>rg_tracker := rt, rg_cs := ?cs, rg_origin := (rg_origin ?r0)(rt_next_read_seq (rg_tracker ?r0) \<mapsto>
      \<lparr>or_key = ''k'', or_completion = 0, or_core = demo_server\<rparr>)\<rparr>)"
    by (rule reading.established [OF reading.start _ _ _ e]) simp_all
  from reading.answered [OF this, of "demo_id 2" 1 1] show ?thesis
    using e by (simp add: demo_confirmed_def demo_asked_def new_ReadTracker_def)
qed

lemma demo_server_readable: "ensure_readable_leader demo_server = OK"
  by (simp add: ensure_readable_leader_def ensure_ready_def demo_server_def demo_chief_def demo_core_def is_leader_def
      has_committed_current_term_entry_def apply_has_committed_current_term_entry_def fail_def ok_def demo_defs demo_put_def
      term_at_def index_to_offset_def entry_at_def new_RaftCore_def Let_def)

lemma demo_pending:
  "rt_pending_reads (rg_tracker demo_confirmed) = [(1, \<lparr>rd_key = ''k'', rd_completion = 0, rd_read_index = 1, rd_read_term = 1,
     rd_voter_ids = [demo_id 1, demo_id 2, demo_id 3], rd_confirmed_voters = {demo_id 2, demo_id 1}\<rparr>)]"
proof -
  have "build_read_quorum_check demo_server 1 no_effects = Inr (read_quorum_messages demo_server 1 1 (co_membership demo_server) no_effects,
      \<lparr>rq_read_index = 1, rq_read_term = 1, rq_voter_ids = [demo_id 1, demo_id 2, demo_id 3]\<rparr>)"
    using demo_server_readable
    by (simp add: build_read_quorum_check_def fail_def ok_def demo_server_def demo_chief_def demo_core_def new_RaftCore_def reset_voters_def
        is_raft_voter_def Let_def)
  moreover have "co_self_id demo_server = demo_id 1"
    by (simp add: demo_server_def demo_chief_def demo_core_def new_RaftCore_def Let_def)
  ultimately show ?thesis
    by (simp add: demo_confirmed_def demo_asked_def establish_def on_read_quorum_response_def new_ReadTracker_def new_Completion_def
        needs_result_def Let_def)
qed


end
