(* ===== verification/Snapshot_Tracker.thy ===== *)
theory Snapshot_Tracker
  imports Proposal_Safety "HOL-Library.Sublist"
begin

text \<open>
  Snapshots of a replica (\<^verbatim>\<open>storage/replica/snapshot_tracker.*\<close>, \<^verbatim>\<open>snapshot_writer.*\<close>): a local snapshot is
  captured on the replica's thread, written by a worker thread and published when the worker is done; a leader's snapshot
  arrives in chunks, which a session puts in order.  The two steps of the worker, writing with its callback and
  clearing the busy flag, can be interleaved with the replica's thread.  Joining threads is not modelled.
\<close>

section \<open>The writer\<close>

record SnapshotJob =
  sj_snapshot :: SnapshotData
  sj_members :: "RaftMember list"
  sj_capture_index :: LogIndex
  sj_capture_term :: Term

record SnapshotWriter =
  sw_worker_busy :: bool
  sw_stopping :: bool
  sw_job :: "SnapshotJob option" \<comment> \<open>what the worker thread was started with\<close>

definition new_SnapshotWriter :: SnapshotWriter where
  "new_SnapshotWriter = \<lparr>sw_worker_busy = False, sw_stopping = False, sw_job = None\<rparr>"

definition write_async :: "SnapshotJob \<Rightarrow> SnapshotWriter \<Rightarrow> SnapshotWriter \<times> bool" where
  "write_async job w =
    (if sw_stopping w \<or> sw_worker_busy w then (w, False) else (w\<lparr>sw_worker_busy := True, sw_job := Some job\<rparr>, True))"

record SnapshotDoneEvent =
  sn_capture_index :: LogIndex
  sn_capture_term :: Term
  sn_status :: Status

text \<open>The body of the worker thread; the event is what it hands to the callback.\<close>

definition run_worker :: "SnapshotStore \<Rightarrow> SnapshotJob \<Rightarrow> Disk \<Rightarrow> Disk \<times> SnapshotDoneEvent" where
  "run_worker ss job d =
    (let (d1, status) = write_local_snapshot_candidate ss (sj_snapshot job) (sj_members job) (sj_capture_index job) d in
     (d1, \<lparr>sn_capture_index = sj_capture_index job, sn_capture_term = sj_capture_term job,
        sn_status = (if fail status then status else OK)\<rparr>))"

definition worker_finish :: "SnapshotWriter \<Rightarrow> SnapshotWriter" where
  "worker_finish w = w\<lparr>sw_worker_busy := False\<rparr>"

definition stop_writer :: "SnapshotWriter \<Rightarrow> SnapshotWriter" where
  "stop_writer w = w\<lparr>sw_stopping := True, sw_job := None\<rparr>"

section \<open>The tracker\<close>

record ReceivingSnapshot =
  rs_from_replica_id :: ReplicaID
  rs_term :: Term
  rs_snapshot_index :: LogIndex
  rs_next_offset :: nat

record SnapshotTracker =
  st_writer :: SnapshotWriter
  st_raft_do_snapshot_limit :: int
  st_receiving_session :: "ReceivingSnapshot option"

definition new_SnapshotTracker :: "int \<Rightarrow> SnapshotTracker" where
  "new_SnapshotTracker limit = \<lparr>st_writer = new_SnapshotWriter, st_raft_do_snapshot_limit = limit, st_receiving_session = None\<rparr>"

text \<open>A store that changed the disk, and \<^verbatim>\<open>FaultReporter::fail_if\<close> on its status.\<close>

definition host_store_call :: "ReplicaHost \<Rightarrow> Disk \<Rightarrow> Status \<Rightarrow> ReplicaHost" where
  "host_store_call h d s = h\<lparr>ho_store := (fst (ho_store h), d), ho_faulted := (ho_faulted h \<or> fail s)\<rparr>"

text \<open>The order in which the request records are walked is an argument, see \<^verbatim>\<open>capture_snapshot\<close>.\<close>

definition snapshots_advance :: "(RequestRecord list \<Rightarrow> RequestRecord list) \<Rightarrow> ReplicaHost \<Rightarrow> SnapshotTracker \<Rightarrow> ReplicaHost \<times> SnapshotTracker" where
  "snapshots_advance order h st =
    (let last_applied = co_applied (ho_core h); snapshot_index = rl_snapshot_index (co_log (ho_core h)) in
     if last_applied < snapshot_index \<or> last_applied - snapshot_index < st_raft_do_snapshot_limit st then (h, st)
     else if sw_worker_busy (st_writer st) then (h, st)
     else let (snapshot, status) = capture_snapshot map_engine order (ho_sm h) in
       if fail status then (h\<lparr>ho_faulted := True\<rparr>, st)
       else let job = \<lparr>sj_snapshot = snapshot, sj_members = co_membership (ho_core h),
              sj_capture_index = sh_apply_index (sd_header snapshot), sj_capture_term = sh_apply_term (sd_header snapshot)\<rparr>
         in (h, st\<lparr>st_writer := fst (write_async job (st_writer st))\<rparr>))"

definition on_snapshot_done :: "SnapshotDoneEvent \<Rightarrow> ReplicaHost \<Rightarrow> ReplicaHost \<times> Status" where
  "on_snapshot_done event h =
    (if fail (sn_status event) then (h\<lparr>ho_faulted := True\<rparr>, sn_status event)
     else let (d1, s1, published) = publish_local_snapshot (pe_snapshot (fst (ho_store h))) (sn_capture_index event) (snd (ho_store h));
              h1 = host_store_call h d1 s1 in
       if sn_capture_index event \<le> rl_snapshot_index (co_log (ho_core h)) then (h1, if fail s1 then s1 else OK)
       else if fail s1 then (h1, s1)
       else let header = \<lparr>sh_apply_index = sn_capture_index event, sh_apply_term = sn_capture_term event, sh_members = []\<rparr>;
                (c, eff) = core_install_snapshot (ho_core h1) header no_effects;
                (h2, s2) = host_execute h1 c eff OK in
         if fail s2 then (h2\<lparr>ho_faulted := True\<rparr>, s2) else (h2, OK))"

definition check_receiving_session :: "InstallSnapshotParam \<Rightarrow> SnapshotTracker \<Rightarrow> Status" where
  "check_receiving_session param st = (case st_receiving_session st of None \<Rightarrow> ERROR
    | Some session \<Rightarrow>
        if rs_from_replica_id session \<noteq> is_from param \<or> rs_term session \<noteq> is_term param
           \<or> rs_snapshot_index session \<noteq> is_snapshot_index param then ERROR
        else if rs_next_offset session \<noteq> is_offset param then ERROR
        else OK)"

definition finish_install_snapshot :: "InstallSnapshotParam \<Rightarrow> ReplicaHost \<Rightarrow> ReplicaHost \<times> Status" where
  "finish_install_snapshot param h =
    (let ss = pe_snapshot (fst (ho_store h));
         (d1, s1) = finish_snapshot_receive ss param (snd (ho_store h)); h1 = host_store_call h d1 s1 in
     if fail s1 then (h1, s1) else
     let (d2, opened) = open_reader ss d1 in
     case opened of Inl s2 \<Rightarrow> (host_store_call h1 d2 s2, s2)
     | Inr None \<Rightarrow> (host_store_call h1 d2 OK, ERROR)
     | Inr (Some reader) \<Rightarrow>
         let h2 = host_store_call h1 d2 OK;
             (_, sm, s3) = restore map_engine (Some (sr_header reader)) (Some sr_for_each_kv) (Some sr_for_each_request) reader (ho_sm h2);
             h3 = h2\<lparr>ho_sm := sm, ho_faulted := (ho_faulted h2 \<or> fail s3)\<rparr> in
         if fail s3 then (h3, s3)
         else let (c, eff) = core_install_snapshot (ho_core h3) (sr_header reader) no_effects in host_execute h3 c eff OK)"

definition on_install_snapshot_chunk :: "InstallSnapshotParam \<Rightarrow> ReplicaHost \<Rightarrow> SnapshotTracker \<Rightarrow> ReplicaHost \<times> SnapshotTracker \<times> Status" where
  "on_install_snapshot_chunk param h st =
    (let (c, eff, s, watermark) = prepare_install_snapshot (ho_core h) param no_effects;
         (h1, s1) = host_execute h c eff s in
     if fail s1 then (h1, st, s1)
     else if watermark \<ge> is_snapshot_index param then (h1, st\<lparr>st_receiving_session := None\<rparr>, OK)
     else let st1 = (if is_offset param = 0
                then st\<lparr>st_receiving_session := Some \<lparr>rs_from_replica_id = is_from param, rs_term = is_term param,
                        rs_snapshot_index = is_snapshot_index param, rs_next_offset = 0\<rparr>\<rparr> else st);
              s2 = (if is_offset param = 0 then OK else check_receiving_session param st) in
       if fail s2 then (h1, st1, s2)
       else let (d, s3) = append_snapshot_chunk (pe_snapshot (fst (ho_store h1))) param (snd (ho_store h1));
                h2 = host_store_call h1 d s3 in
         if fail s3 then (h2, st1, s3)
         else let st2 = st1\<lparr>st_receiving_session :=
                    map_option (\<lambda>x. x\<lparr>rs_next_offset := is_offset param + length (is_data param)\<rparr>) (st_receiving_session st1)\<rparr> in
           if \<not> is_done param then (h2, st2, OK)
           else let (h3, s4) = finish_install_snapshot param h2 in (h3, st2\<lparr>st_receiving_session := None\<rparr>, s4))"

section \<open>Which files a call touches\<close>

text \<open>A replica whose log file is open, with all its files in one directory.\<close>

definition layout :: "string \<Rightarrow> PersistEngine \<Rightarrow> bool" where
  "layout dir e \<longleftrightarrow> ws_path (pe_wal e) = wal_file dir \<and> ws_file (pe_wal e) = Some (wal_file dir)
     \<and> pe_raft_meta_path e = raft_meta_file dir \<and> pe_snapshot e = new_SnapshotStore dir"

definition log_files :: "string \<Rightarrow> string set" where
  "log_files dir = {wal_file dir, atomic_replace_temp_path (wal_file dir), raft_meta_file dir, atomic_replace_temp_path (raft_meta_file dir)}"

lemma snapshot_files_apart [simp]:
  "receiving_snapshot_file dir i \<notin> log_files dir" "candidate_snapshot_file dir i \<notin> log_files dir" "snapshot_file dir \<notin> log_files dir"
  by (simp_all add: log_files_def receiving_snapshot_file_def candidate_snapshot_file_def snapshot_file_def wal_file_def raft_meta_file_def
      path_join_temp)

lemma to_string_hd: "to_string i = c # xs \<Longrightarrow> c \<noteq> CHR ''r''"
proof -
  have "c \<in> set (nat_to_string n) \<Longrightarrow> c \<noteq> CHR ''r''" for n
  proof (induction n rule: nat_to_string.induct)
    case (1 n)
    have d: "digit k \<noteq> CHR ''r''" if "k < 10" for k
      using that by (simp add: digit_def char_of_eq_iff take_bit_nat_def)
    show ?case
      using 1 d [of n] d [of "n mod 10"] by (subst (asm) (2) nat_to_string.simps) (auto split: if_splits)
  qed
  then show "to_string i = c # xs \<Longrightarrow> c \<noteq> CHR ''r''"
    by (auto simp: to_string_def split: if_splits) (metis list.set_intros(1))
qed

lemma receiving_candidate_differ [simp]:
  "receiving_snapshot_file dir i \<noteq> candidate_snapshot_file dir j" "candidate_snapshot_file dir j \<noteq> receiving_snapshot_file dir i"
proof -
  have "CHR ''r'' # u \<noteq> to_string j @ v" for u v
    using to_string_hd [of j] by (cases "to_string j") (auto simp: to_string_def split: if_splits)
  then show "receiving_snapshot_file dir i \<noteq> candidate_snapshot_file dir j"
    by (simp add: receiving_snapshot_file_def candidate_snapshot_file_def)
  then show "candidate_snapshot_file dir j \<noteq> receiving_snapshot_file dir i"
    by simp
qed

lemma store_calls_frame:
  assumes L: "layout dir (fst p)" and q: "q \<notin> log_files dir"
  shows "store_save p m = (p', s) \<Longrightarrow> layout dir (fst p') \<and> dk_files (snd p') q = dk_files (snd p) q"
    "store_rewrite p es = (p', s) \<Longrightarrow> (s = OK \<longrightarrow> layout dir (fst p')) \<and> dk_files (snd p') q = dk_files (snd p) q"
    "store_append p es = (p', s) \<Longrightarrow> layout dir (fst p') \<and> dk_files (snd p') q = dk_files (snd p) q"
proof -
  note D = L [unfolded layout_def] q [unfolded log_files_def]
  show "store_save p m = (p', s) \<Longrightarrow> layout dir (fst p') \<and> dk_files (snd p') q = dk_files (snd p) q"
    using L D by (auto simp: store_save_def split: prod.splits dest!: raft_meta_save_result(3) [of _ _ _ _ _ q])
  show "store_rewrite p es = (p', s) \<Longrightarrow> (s = OK \<longrightarrow> layout dir (fst p')) \<and> dk_files (snd p') q = dk_files (snd p) q"
    using D rewrite_wal_result [of "pe_wal (fst p)" es "snd p"] by (auto simp: store_rewrite_def layout_def split: prod.splits)
  show "store_append p es = (p', s) \<Longrightarrow> layout dir (fst p') \<and> dk_files (snd p') q = dk_files (snd p) q"
    using L D wal_append_batch_result(3) [of "pe_wal (fst p)" "wal_file dir" es "snd p"] by (auto simp: store_append_def split: prod.splits)
qed

lemma persist_effects_frame:
  assumes L: "layout dir (fst p)" and q: "q \<notin> log_files dir"
    and run: "persist_effects store_save store_rewrite store_append p eff = (p', s, f)"
  shows "dk_files (snd p') q = dk_files (snd p) q" "\<not> f \<Longrightarrow> layout dir (fst p')" "f \<Longrightarrow> s \<noteq> OK"
proof -
  obtain p1 s1 where 1: "(case ef_hard_state eff of None \<Rightarrow> (p, OK) | Some m \<Rightarrow> store_save p m) = (p1, s1)" by fastforce
  obtain p2 s2 where 2: "(case ef_entries_to_rewrite eff of None \<Rightarrow> (p1, OK) | Some es \<Rightarrow> store_rewrite p1 es) = (p2, s2)" by fastforce
  obtain p3 s3 where 3: "(if ef_entries_to_append eff = [] then (p2, OK) else store_append p2 (ef_entries_to_append eff)) = (p3, s3)" by fastforce
  have out: "(p', s, f) = (if ef_entries_to_rewrite eff \<noteq> None \<and> ef_entries_to_append eff \<noteq> [] then (p, INVALID_ARGUMENT, False)
      else if fail s1 then (p1, s1, True) else if fail s2 then (p2, s2, True) else if fail s3 then (p3, s3, True) else (p3, OK, False))"
    using run by (simp only: persist_effects_def Let_def 1 2 3 prod.case)
  have F1: "layout dir (fst p1) \<and> dk_files (snd p1) q = dk_files (snd p) q"
    using 1 L store_calls_frame(1) [OF L q] by (auto split: option.splits)
  then have F2: "(s2 = OK \<longrightarrow> layout dir (fst p2)) \<and> dk_files (snd p2) q = dk_files (snd p) q"
    using 2 store_calls_frame(2) [OF conjunct1 [OF F1] q] by (auto split: option.splits)
  have F3: "layout dir (fst p3) \<and> dk_files (snd p3) q = dk_files (snd p) q" if "s2 = OK"
    using 3 F2 that store_calls_frame(3) [of dir p2 q] q by (auto split: if_splits)
  show "dk_files (snd p') q = dk_files (snd p) q" "\<not> f \<Longrightarrow> layout dir (fst p')" "f \<Longrightarrow> s \<noteq> OK"
    using out L F1 F2 F3 by (auto simp: fail_iff split: if_splits)
qed

definition host_ok :: "string \<Rightarrow> ReplicaHost \<Rightarrow> bool" where
  "host_ok dir h \<longleftrightarrow> \<not> ho_faulted h \<longrightarrow> layout dir (fst (ho_store h))"

lemma host_execute_frame:
  assumes run: "host_execute h c eff st = (h', s)" and nf: "\<not> ho_faulted h" "host_ok dir h" and q: "q \<notin> log_files dir"
  shows "dk_files (snd (ho_store h')) q = dk_files (snd (ho_store h)) q" "host_ok dir h'" "ho_core h' = c" "ho_sm h' = ho_sm h"
    "s = OK \<Longrightarrow> \<not> ho_faulted h'"
proof -
  obtain p s1 f where pe: "persist_effects store_save store_rewrite store_append (ho_store h) eff = (p, s1, f)"
    by (metis prod_cases3)
  have h': "ho_store h' = p" "ho_faulted h' = f" "ho_core h' = c" "ho_sm h' = ho_sm h"
    using run nf(1) by (auto simp: host_execute_def execute_def pe Let_def split: if_splits)
  have L: "layout dir (fst (ho_store h))"
    using nf by (simp add: host_ok_def)
  show "dk_files (snd (ho_store h')) q = dk_files (snd (ho_store h)) q" "host_ok dir h'" "ho_core h' = c" "ho_sm h' = ho_sm h"
    using persist_effects_frame [OF L q pe] h' by (simp_all add: host_ok_def)
  show "s = OK \<Longrightarrow> \<not> ho_faulted h'"
    using run persist_effects_frame(3) [OF L q pe] h'(2) by (auto simp: host_execute_def execute_def pe Let_def fail_iff split: if_splits)
qed

section \<open>Transfers\<close>

fun in_order :: "nat \<Rightarrow> InstallSnapshotParam list \<Rightarrow> bool" where
  "in_order n [] = True"
| "in_order n (p # ps) \<longleftrightarrow> is_offset p = n \<and> in_order (n + length (is_data p)) ps"

definition chunk_bytes :: "InstallSnapshotParam list \<Rightarrow> byte list" where
  "chunk_bytes ps = concat (map is_data ps)"

text \<open>Chunks of one snapshot from one leader in one term, without a gap from the beginning.\<close>

definition one_transfer :: "ReplicaID \<Rightarrow> Term \<Rightarrow> LogIndex \<Rightarrow> InstallSnapshotParam list \<Rightarrow> bool" where
  "one_transfer sender t i ps \<longleftrightarrow> (\<forall>p \<in> set ps. is_from p = sender \<and> is_term p = t \<and> is_snapshot_index p = i) \<and> in_order 0 ps"

lemma in_order_snoc: "in_order n (ps @ [p]) \<longleftrightarrow> in_order n ps \<and> is_offset p = n + length (chunk_bytes ps)"
  by (induction ps arbitrary: n) (simp_all add: chunk_bytes_def add.assoc)

lemma chunk_bytes_simps [simp]: "chunk_bytes [] = []" "chunk_bytes (ps @ [p]) = chunk_bytes ps @ is_data p"
  by (simp_all add: chunk_bytes_def)

lemma one_transfer_snoc:
  "one_transfer sender t i (ps @ [p]) \<longleftrightarrow> one_transfer sender t i ps \<and> is_from p = sender \<and> is_term p = t \<and> is_snapshot_index p = i
     \<and> is_offset p = length (chunk_bytes ps)"
  by (auto simp: one_transfer_def in_order_snoc)

lemma one_transfer_Nil [simp]: "one_transfer sender t i []"
  by (simp add: one_transfer_def)

record ReceiveRun =
  rx_host :: ReplicaHost
  rx_tracker :: SnapshotTracker
  rx_got :: "InstallSnapshotParam list" \<comment> \<open>every chunk that arrived\<close>

text \<open>
  A replica that receives chunks in any order, from anybody, and does other work in between that leaves the receiving
  files and the session alone.  It stops at the first fault.
\<close>

inductive receiving :: "string \<Rightarrow> ReceiveRun \<Rightarrow> bool" for dir where
  start: "layout dir (fst (ho_store h)) \<Longrightarrow> receiving dir \<lparr>rx_host = h, rx_tracker = new_SnapshotTracker limit, rx_got = []\<rparr>"
| chunk: "receiving dir r \<Longrightarrow> \<not> ho_faulted (rx_host r) \<Longrightarrow> on_install_snapshot_chunk param (rx_host r) (rx_tracker r) = (h, st, s) \<Longrightarrow>
    receiving dir \<lparr>rx_host = h, rx_tracker = st, rx_got = rx_got r @ [param]\<rparr>"
| elsewhere: "receiving dir r \<Longrightarrow> \<not> ho_faulted (rx_host r) \<Longrightarrow> host_ok dir h \<Longrightarrow>
    (\<And>i. dk_files (snd (ho_store h)) (receiving_snapshot_file dir i) = dk_files (snd (ho_store (rx_host r))) (receiving_snapshot_file dir i)) \<Longrightarrow>
    st_receiving_session st = st_receiving_session (rx_tracker r) \<Longrightarrow>
    receiving dir \<lparr>rx_host = h, rx_tracker = st, rx_got = rx_got r\<rparr>"

definition session_backed :: "string \<Rightarrow> Disk \<Rightarrow> InstallSnapshotParam list \<Rightarrow> ReceivingSnapshot \<Rightarrow> bool" where
  "session_backed dir d got x \<longleftrightarrow> (\<exists>ps. subseq ps got \<and> one_transfer (rs_from_replica_id x) (rs_term x) (rs_snapshot_index x) ps
     \<and> rs_next_offset x = length (chunk_bytes ps)
     \<and> dk_files d (receiving_snapshot_file dir (rs_snapshot_index x)) = Some (chunk_bytes ps))"

definition receiving_inv :: "string \<Rightarrow> ReceiveRun \<Rightarrow> bool" where
  "receiving_inv dir r \<longleftrightarrow> host_ok dir (rx_host r) \<and> (\<not> ho_faulted (rx_host r) \<longrightarrow>
     (\<forall>x. st_receiving_session (rx_tracker r) = Some x \<longrightarrow> session_backed dir (snd (ho_store (rx_host r))) (rx_got r) x))"

lemma session_backed_mono:
  assumes "session_backed dir d got x" and "\<And>i. dk_files d' (receiving_snapshot_file dir i) = dk_files d (receiving_snapshot_file dir i)"
    and "subseq got got'"
  shows "session_backed dir d' got' x"
  using assms unfolding session_backed_def by (metis subseq_order.order_trans)

lemma host_store_call_simps [simp]:
  "ho_store (host_store_call h d s) = (fst (ho_store h), d)" "ho_core (host_store_call h d s) = ho_core h"
  "ho_sm (host_store_call h d s) = ho_sm h" "ho_faulted (host_store_call h d s) \<longleftrightarrow> ho_faulted h \<or> fail s"
  by (simp_all add: host_store_call_def)

text \<open>The outcomes of a chunk: refused, already covered, not of the session, a fault, stored, or the last one.\<close>

lemma chunk_cases:
  assumes run: "on_install_snapshot_chunk param h st = (h', st', s')" and ok: "\<not> ho_faulted h" "host_ok dir h"
  obtains h1 where "h' = h1" "st' = st" "s' \<noteq> OK" "host_ok dir h1"
      "\<And>q. q \<notin> log_files dir \<Longrightarrow> dk_files (snd (ho_store h1)) q = dk_files (snd (ho_store h)) q"
  | h1 where "h' = h1" "st_receiving_session st' = None" "host_ok dir h1" "s' = OK"
      "snd (snd (snd (prepare_install_snapshot (ho_core h) param no_effects))) \<ge> is_snapshot_index param"
  | "ho_faulted h'" "s' \<noteq> OK"
  | d h1 h2 where "\<not> ho_faulted h1" "layout dir (fst (ho_store h1))" "ho_sm h1 = ho_sm h"
      "\<And>q. q \<notin> log_files dir \<Longrightarrow> dk_files (snd (ho_store h1)) q = dk_files (snd (ho_store h)) q"
      "is_offset param = 0 \<or> check_receiving_session param st = OK"
      "append_snapshot_chunk (new_SnapshotStore dir) param (snd (ho_store h1)) = (d, OK)" "h2 = host_store_call h1 d OK"
      "\<not> is_done param \<and> h' = h2 \<and> s' = OK \<and> st_receiving_session st' = Some \<lparr>rs_from_replica_id = is_from param, rs_term = is_term param,
          rs_snapshot_index = is_snapshot_index param, rs_next_offset = is_offset param + length (is_data param)\<rparr>
       \<or> is_done param \<and> finish_install_snapshot param h2 = (h', s') \<and> st_receiving_session st' = None"
proof -
  obtain c eff s w where 0: "prepare_install_snapshot (ho_core h) param no_effects = (c, eff, s, w)"
    by (metis prod_cases4)
  obtain h1 s1 where 1: "host_execute h c eff s = (h1, s1)" by fastforce
  note F = host_execute_frame [OF 1 ok]
  have ok1: "host_ok dir h1"
    using F(2) [of "snapshot_file dir"] by simp
  define st1 where "st1 = (if is_offset param = 0
      then st\<lparr>st_receiving_session := Some \<lparr>rs_from_replica_id = is_from param, rs_term = is_term param,
              rs_snapshot_index = is_snapshot_index param, rs_next_offset = 0\<rparr>\<rparr> else st)"
  define s2 where "s2 = (if is_offset param = 0 then OK else check_receiving_session param st)"
  obtain d s3 where 3: "append_snapshot_chunk (pe_snapshot (fst (ho_store h1))) param (snd (ho_store h1)) = (d, s3)" by fastforce
  let ?h2 = "host_store_call h1 d s3"
  define st2 where "st2 = st1\<lparr>st_receiving_session := map_option (\<lambda>x. x\<lparr>rs_next_offset := is_offset param + length (is_data param)\<rparr>) (st_receiving_session st1)\<rparr>"
  obtain h3 s4 where 4: "finish_install_snapshot param ?h2 = (h3, s4)" by fastforce
  have out: "(h', st', s') = (if fail s1 then (h1, st, s1) else if w \<ge> is_snapshot_index param then (h1, st\<lparr>st_receiving_session := None\<rparr>, OK)
      else if fail s2 then (h1, st1, s2) else if fail s3 then (?h2, st1, s3) else if \<not> is_done param then (?h2, st2, OK)
      else (h3, st2\<lparr>st_receiving_session := None\<rparr>, s4))"
    using run by (simp only: on_install_snapshot_chunk_def Let_def 0 1 3 4 prod.case flip: st1_def s2_def st2_def)
  consider "fail s1" | "\<not> fail s1" "w \<ge> is_snapshot_index param" | "\<not> fail s1" "w < is_snapshot_index param" "fail s2"
    | "\<not> fail s1" "w < is_snapshot_index param" "\<not> fail s2" "fail s3"
    | "\<not> fail s1" "w < is_snapshot_index param" "\<not> fail s2" "\<not> fail s3"
    by linarith
  then show thesis
  proof cases
    case 1
    then show thesis using that(1) [of h1] out ok1 F(1) by (simp add: fail_iff)
  next
    case 2
    then show thesis using that(2) [of h1] out ok1 0 by simp
  next
    case 3
    then have "st1 = st"
      by (auto simp: s2_def st1_def fail_iff)
    then show thesis using that(1) [of h1] out ok1 F(1) 3 by (simp add: fail_iff)
  next
    case 4
    then show thesis using that(3) out by (simp add: fail_iff)
  next
    case 5
    have ok': "\<not> ho_faulted h1" "layout dir (fst (ho_store h1))" "s3 = OK"
      using F(5) [of "snapshot_file dir"] ok1 5 by (simp_all add: fail_iff host_ok_def)
    have session: "st_receiving_session st2 = Some \<lparr>rs_from_replica_id = is_from param, rs_term = is_term param,
          rs_snapshot_index = is_snapshot_index param, rs_next_offset = is_offset param + length (is_data param)\<rparr>"
      using 5(3) by (auto simp: st2_def s2_def st1_def fail_iff check_receiving_session_def split: if_splits option.splits)
    show thesis
    proof (rule that(4) [OF ok'(1,2)])
      show "ho_sm h1 = ho_sm h"
        using F(4) [of "snapshot_file dir"] by simp
      show "is_offset param = 0 \<or> check_receiving_session param st = OK"
        using 5(3) by (auto simp: s2_def fail_iff split: if_splits)
      show "append_snapshot_chunk (new_SnapshotStore dir) param (snd (ho_store h1)) = (d, OK)"
        using 3 ok' by (simp add: layout_def)
      show "\<not> is_done param \<and> h' = ?h2 \<and> s' = OK \<and> st_receiving_session st' = Some \<lparr>rs_from_replica_id = is_from param, rs_term = is_term param,
          rs_snapshot_index = is_snapshot_index param, rs_next_offset = is_offset param + length (is_data param)\<rparr>
       \<or> is_done param \<and> finish_install_snapshot param ?h2 = (h', s') \<and> st_receiving_session st' = None"
        using out 5 session 4 by (cases "is_done param") simp_all
    qed (use F(1) ok'(3) in auto)
  qed
qed

lemma open_reader_result:
  assumes "open_reader ss d = (d', r)"
  shows "dk_files d' = dk_files d" "r = Inr (Some reader) \<Longrightarrow> sr_initialize (dk_files d (ss_snapshot_path ss)) = Inr reader"
    "r = Inl e \<Longrightarrow> e \<noteq> OK"
proof -
  obtain d1 s f where 1: "open_for_read (ss_snapshot_path ss) d = (d1, s, f)" by (metis prod_cases3)
  have r1: "dk_files d1 = dk_files d" "s = OK \<Longrightarrow> f = dk_files d (ss_snapshot_path ss)"
    using 1 by (auto simp: open_for_read_def syscall_def Let_def split: if_splits)
  have out: "(d', r) = (if fail s then (d1, Inl s) else if f = None then (d1, Inr None) else (d1, map_sum id Some (sr_initialize f)))"
    using assms by (simp add: open_reader_def 1)
  show "dk_files d' = dk_files d" "r = Inr (Some reader) \<Longrightarrow> sr_initialize (dk_files d (ss_snapshot_path ss)) = Inr reader"
    "r = Inl e \<Longrightarrow> e \<noteq> OK"
    using out r1 sr_initialize_error by (cases "sr_initialize f"; auto simp: fail_iff split: if_splits)+
qed

lemma finish_install_snapshot_OK:
  assumes run: "finish_install_snapshot param h = (h', OK)" and ok: "\<not> ho_faulted h" "layout dir (fst (ho_store h))"
  shows "\<exists>data reader rd. dk_files (snd (ho_store h)) (receiving_snapshot_file dir (is_snapshot_index param)) = Some data
    \<and> dk_files (snd (ho_store h')) (snapshot_file dir) = Some data \<and> sr_initialize (Some data) = Inr reader
    \<and> restore map_engine (Some (sr_header reader)) (Some sr_for_each_kv) (Some sr_for_each_request) reader (ho_sm h) = (rd, ho_sm h', OK)
    \<and> ho_core h' = fst (core_install_snapshot (ho_core h) (sr_header reader) no_effects)"
proof -
  have ss: "pe_snapshot (fst (ho_store h)) = new_SnapshotStore dir"
    using ok(2) by (simp add: layout_def)
  obtain d1 s1 where 1: "finish_snapshot_receive (new_SnapshotStore dir) param (snd (ho_store h)) = (d1, s1)" by fastforce
  obtain d2 opened where 2: "open_reader (new_SnapshotStore dir) d1 = (d2, opened)" by fastforce
  note R = run [unfolded finish_install_snapshot_def Let_def ss 1 2 prod.case]
  have s1: "s1 = OK"
    using R by (auto simp: fail_iff split: if_splits)
  note O = open_reader_result [OF 2, simplified]
  obtain reader where reader: "opened = Inr (Some reader)"
    using R s1 O(3) by (cases opened) (auto simp: fail_iff split: if_splits option.splits)
  obtain data where data: "dk_files (snd (ho_store h)) (receiving_snapshot_file dir (is_snapshot_index param)) = Some data"
      "dk_files d1 (snapshot_file dir) = Some data"
    using finish_snapshot_receive_result [OF 1] s1 by (auto simp: sr_initialize_def split: option.splits)
  obtain rd sm s3 where 3: "restore map_engine (Some (sr_header reader)) (Some sr_for_each_kv) (Some sr_for_each_request) reader (ho_sm h) = (rd, sm, s3)"
    by (metis prod_cases3)
  obtain c eff where 4: "core_install_snapshot (ho_core h) (sr_header reader) no_effects = (c, eff)" by fastforce
  let ?h3 = "(host_store_call (host_store_call h d1 s1) d2 OK)\<lparr>ho_sm := sm, ho_faulted := (ho_faulted h \<or> fail s3)\<rparr>"
  have s3: "s3 = OK"
    using R s1 reader 3 by (auto simp: fail_iff split: if_splits)
  then have x: "host_execute ?h3 c eff OK = (h', OK)"
    using R s1 reader 3 4 ok(1) by (simp add: fail_iff)
  have "\<not> ho_faulted ?h3" "host_ok dir ?h3"
    using ok s3 by (simp_all add: host_ok_def fail_iff)
  note F = host_execute_frame [OF x this, of "snapshot_file dir", simplified]
  show ?thesis
    using data O(2) [OF reader] 3 4 s3 F O(1) by auto
qed

lemma finish_install_snapshot_host_ok:
  assumes run: "finish_install_snapshot param h = (h', s)" and ok: "\<not> ho_faulted h" "layout dir (fst (ho_store h))"
  shows "host_ok dir h'"
proof -
  obtain d1 s1 where 1: "finish_snapshot_receive (pe_snapshot (fst (ho_store h))) param (snd (ho_store h)) = (d1, s1)" by fastforce
  obtain d2 opened where 2: "open_reader (pe_snapshot (fst (ho_store h))) d1 = (d2, opened)" by fastforce
  have keep: "host_ok dir g" if "fst (ho_store g) = fst (ho_store h)" for g
    using that ok(2) by (simp add: host_ok_def)
  have exec: "host_ok dir h'" if "host_execute g c eff OK = (h', s)" "\<not> ho_faulted g" "fst (ho_store g) = fst (ho_store h)" for g c eff
    using host_execute_frame(2) [OF that(1,2) keep [OF that(3)], of "snapshot_file dir"] by simp
  show ?thesis
    using run ok(1)
    by (auto simp: finish_install_snapshot_def Let_def 1 2 split: if_splits sum.splits option.splits prod.splits intro: exec keep)
qed

lemma chunk_extends:
  assumes "is_offset param = 0 \<or> check_receiving_session param st = OK"
    and "\<And>x. st_receiving_session st = Some x \<Longrightarrow> session_backed dir d0 got x"
    and "append_snapshot_chunk (new_SnapshotStore dir) param d0 = (d, OK)"
  shows "\<exists>ps. subseq (ps @ [param]) (got @ [param]) \<and> one_transfer (is_from param) (is_term param) (is_snapshot_index param) (ps @ [param])
    \<and> dk_files d (receiving_snapshot_file dir (is_snapshot_index param)) = Some (chunk_bytes (ps @ [param]))"
proof (cases "is_offset param = 0")
  case True
  then show ?thesis
    using append_snapshot_chunk_result(2) [OF assms(3)]
    by (intro exI [of _ "[]"]) (simp add: one_transfer_def chunk_bytes_def subseq_drop_many)
next
  case False
  then obtain x where x: "st_receiving_session st = Some x" "rs_from_replica_id x = is_from param" "rs_term x = is_term param"
      "rs_snapshot_index x = is_snapshot_index param" "rs_next_offset x = is_offset param"
    using assms(1) by (auto simp: check_receiving_session_def split: option.splits if_splits)
  obtain ps where ps: "subseq ps got" "one_transfer (is_from param) (is_term param) (is_snapshot_index param) ps"
      "is_offset param = length (chunk_bytes ps)" "dk_files d0 (receiving_snapshot_file dir (is_snapshot_index param)) = Some (chunk_bytes ps)"
    using assms(2) [OF x(1)] x by (auto simp: session_backed_def)
  show ?thesis
    using append_snapshot_chunk_result(2) [OF assms(3)] False ps
    by (intro exI [of _ ps]) (simp add: one_transfer_snoc content_def)
qed

lemma receiving_invariant: "receiving dir r \<Longrightarrow> receiving_inv dir r"
proof (induction rule: receiving.induct)
  case (start h limit)
  then show ?case
    by (simp add: receiving_inv_def host_ok_def new_SnapshotTracker_def)
next
  case (chunk r param h st s)
  have I: "host_ok dir (rx_host r)" "\<And>x. st_receiving_session (rx_tracker r) = Some x \<Longrightarrow> session_backed dir (snd (ho_store (rx_host r))) (rx_got r) x"
    using chunk.IH chunk.hyps(2) by (auto simp: receiving_inv_def)
  have sub: "subseq (rx_got r) (rx_got r @ [param])"
    by (simp add: subseq_rev_drop_many)
  from chunk.hyps(3,2) I(1) show ?case
  proof (cases rule: chunk_cases)
    case (1 h1)
    have "session_backed dir (snd (ho_store h1)) (rx_got r @ [param]) x" if "st_receiving_session (rx_tracker r) = Some x" for x
      using session_backed_mono [OF I(2) [OF that] _ sub] 1(5) by simp
    then show ?thesis
      using 1 by (simp add: receiving_inv_def)
  next
    case (2 h1)
    then show ?thesis
      by (simp add: receiving_inv_def)
  next
    case 3
    then show ?thesis
      by (simp add: receiving_inv_def host_ok_def)
  next
    case (4 d h1 h2)
    have "session_backed dir (snd (ho_store h1)) (rx_got r) x" if "st_receiving_session (rx_tracker r) = Some x" for x
      using session_backed_mono [OF I(2) [OF that] _ subseq_order.order_refl] 4(4) by simp
    from chunk_extends [OF 4(5) this 4(6)] obtain ps where ps: "subseq (ps @ [param]) (rx_got r @ [param])"
        "one_transfer (is_from param) (is_term param) (is_snapshot_index param) (ps @ [param])"
        "dk_files d (receiving_snapshot_file dir (is_snapshot_index param)) = Some (chunk_bytes (ps @ [param]))"
      by blast
    from 4(8) show ?thesis
    proof (elim disjE conjE)
      assume h: "h = h2" and st: "st_receiving_session st = Some \<lparr>rs_from_replica_id = is_from param, rs_term = is_term param,
          rs_snapshot_index = is_snapshot_index param, rs_next_offset = is_offset param + length (is_data param)\<rparr>"
      have "session_backed dir d (rx_got r @ [param]) (the (st_receiving_session st))"
        unfolding session_backed_def using ps by (intro exI [of _ "ps @ [param]"]) (simp add: st one_transfer_snoc)
      then show ?thesis
        using h st 4(1,2,7) by (simp add: receiving_inv_def host_ok_def)
    next
      assume "finish_install_snapshot param h2 = (h, s)" "st_receiving_session st = None"
      then show ?thesis
        using finish_install_snapshot_host_ok [of param h2 h s dir] 4(1,2,7) by (simp add: receiving_inv_def fail_iff)
    qed
  qed
next
  case (elsewhere r h st)
  then show ?case
    using session_backed_mono [OF _ elsewhere.hyps(4) subseq_order.order_refl] by (auto simp: receiving_inv_def)
qed

text \<open>The other snapshot work of a replica leaves receiving files alone, so it is a step of the kind \<open>elsewhere\<close>.\<close>

lemma run_worker_elsewhere:
  assumes "run_worker (new_SnapshotStore dir) job d = (d', ev)"
  shows "dk_files d' (receiving_snapshot_file dir i) = dk_files d (receiving_snapshot_file dir i)"
  using assms write_local_snapshot_candidate_result(1) [of "new_SnapshotStore dir" "sj_snapshot job" "sj_members job" "sj_capture_index job" d]
  by (auto simp: run_worker_def split: prod.splits)

lemma on_snapshot_done_elsewhere:
  assumes run: "on_snapshot_done ev h = (h', s)" and ok: "\<not> ho_faulted h" "host_ok dir h"
  shows "host_ok dir h'" "dk_files (snd (ho_store h')) (receiving_snapshot_file dir i) = dk_files (snd (ho_store h)) (receiving_snapshot_file dir i)"
proof -
  have L: "layout dir (fst (ho_store h))" "pe_snapshot (fst (ho_store h)) = new_SnapshotStore dir"
    using ok by (simp_all add: host_ok_def layout_def)
  obtain d1 s1 published where 1: "publish_local_snapshot (new_SnapshotStore dir) (sn_capture_index ev) (snd (ho_store h)) = (d1, s1, published)"
    by (metis prod_cases3)
  have d1: "dk_files d1 (receiving_snapshot_file dir i) = dk_files (snd (ho_store h)) (receiving_snapshot_file dir i)"
    using publish_local_snapshot_result(4) [OF 1] by simp
  let ?h1 = "host_store_call h d1 s1"
  let ?header = "\<lparr>sh_apply_index = sn_capture_index ev, sh_apply_term = sn_capture_term ev, sh_members = []\<rparr>"
  obtain c eff where 2: "core_install_snapshot (ho_core ?h1) ?header no_effects = (c, eff)" by fastforce
  obtain h2 s2 where 3: "host_execute ?h1 c eff OK = (h2, s2)" by fastforce
  have out: "(h', s) = (if fail (sn_status ev) then (h\<lparr>ho_faulted := True\<rparr>, sn_status ev)
      else if sn_capture_index ev \<le> rl_snapshot_index (co_log (ho_core h)) then (?h1, if fail s1 then s1 else OK)
      else if fail s1 then (?h1, s1) else if fail s2 then (h2\<lparr>ho_faulted := True\<rparr>, s2) else (h2, OK))"
    using run by (simp only: on_snapshot_done_def Let_def L(2) 1 2 3 prod.case)
  have F: "dk_files (snd (ho_store h2)) (receiving_snapshot_file dir i) = dk_files d1 (receiving_snapshot_file dir i)" "host_ok dir h2" if "\<not> fail s1"
    using host_execute_frame [OF 3, of dir "receiving_snapshot_file dir i"] that ok(1) L(1) by (simp_all add: host_ok_def)
  show "host_ok dir h'" "dk_files (snd (ho_store h')) (receiving_snapshot_file dir i) = dk_files (snd (ho_store h)) (receiving_snapshot_file dir i)"
    using out L(1) d1 F by (auto simp: host_ok_def split: if_splits)
qed

section \<open>A received snapshot is one transfer\<close>

text \<open>
  C34. Chunks of different transfers are never mixed.  Whatever chunks arrive, in whatever order and from whomever, with
  other work in between: when the last chunk of a snapshot is accepted and the snapshot is not already covered by the log,
  then the published snapshot file is the concatenation of chunks that all came from the sender of the last one, in its term
  and for its snapshot index, without a gap from the first byte; the file opens, the state machine is the one restored from
  it, and the log starts at its index.
\<close>

theorem installed_snapshot_is_one_transfer:
  assumes "receiving dir r" and "\<not> ho_faulted (rx_host r)"
    and "on_install_snapshot_chunk param (rx_host r) (rx_tracker r) = (h, st, OK)" and "is_done param"
    and "snd (snd (snd (prepare_install_snapshot (ho_core (rx_host r)) param no_effects))) < is_snapshot_index param"
  shows "\<exists>ps reader rd. subseq (ps @ [param]) (rx_got r @ [param])
     \<and> one_transfer (is_from param) (is_term param) (is_snapshot_index param) (ps @ [param])
     \<and> dk_files (snd (ho_store h)) (snapshot_file dir) = Some (chunk_bytes (ps @ [param]))
     \<and> sr_initialize (Some (chunk_bytes (ps @ [param]))) = Inr reader
     \<and> restore map_engine (Some (sr_header reader)) (Some sr_for_each_kv) (Some sr_for_each_request) reader (ho_sm (rx_host r)) = (rd, ho_sm h, OK)
     \<and> rl_snapshot_index (co_log (ho_core h)) = sh_apply_index (sr_header reader)"
proof -
  have I: "host_ok dir (rx_host r)" "\<And>x. st_receiving_session (rx_tracker r) = Some x \<Longrightarrow> session_backed dir (snd (ho_store (rx_host r))) (rx_got r) x"
    using receiving_invariant [OF assms(1)] assms(2) by (auto simp: receiving_inv_def)
  from assms(3,2) I(1) show ?thesis
  proof (cases rule: chunk_cases)
    case (4 d h1 h2)
    have "session_backed dir (snd (ho_store h1)) (rx_got r) x" if "st_receiving_session (rx_tracker r) = Some x" for x
      using session_backed_mono [OF I(2) [OF that] _ subseq_order.order_refl] 4(4) by simp
    from chunk_extends [OF 4(5) this 4(6)] obtain ps where ps: "subseq (ps @ [param]) (rx_got r @ [param])"
        "one_transfer (is_from param) (is_term param) (is_snapshot_index param) (ps @ [param])"
        "dk_files d (receiving_snapshot_file dir (is_snapshot_index param)) = Some (chunk_bytes (ps @ [param]))"
      by blast
    have "finish_install_snapshot param h2 = (h, OK)"
      using 4(8) assms(4) by blast
    from finish_install_snapshot_OK [OF this, of dir] 4(1-3,7) ps(3) obtain reader rd where
        "dk_files (snd (ho_store h)) (snapshot_file dir) = Some (chunk_bytes (ps @ [param]))"
        "sr_initialize (Some (chunk_bytes (ps @ [param]))) = Inr reader"
        "restore map_engine (Some (sr_header reader)) (Some sr_for_each_kv) (Some sr_for_each_request) reader (ho_sm (rx_host r)) = (rd, ho_sm h, OK)"
        "ho_core h = fst (core_install_snapshot (ho_core h2) (sr_header reader) no_effects)"
      by (auto simp: fail_iff)
    then show ?thesis
      using ps(1,2) by (intro exI [of _ ps] exI [of _ reader] exI [of _ rd])
        (simp add: core_install_snapshot_def install_snapshot_into_log_def log_install_snapshot_def rebuild_request_index_def finish_recovering_def Let_def)
  qed (use assms(5) in auto)
qed

text \<open>A follower with an empty disk receives a small snapshot in one chunk.\<close>

definition demo_sent :: InstallSnapshotParam where
  "demo_sent = \<lparr>is_from = demo_id 2, is_to = demo_id 1, is_term = 0, is_snapshot_index = 7, is_snapshot_term = 2, is_offset = 0,
     is_data = snapshot_bytes \<lparr>sh_apply_index = 7, sh_apply_term = 2, sh_members = []\<rparr> [] [], is_done = True\<rparr>"

definition demo_receiver :: ReceiveRun where
  "demo_receiver = \<lparr>rx_host = \<lparr>ho_core = demo_core, ho_sm = new_KvStateMachine MAP, ho_store = demo_store, ho_sent = [], ho_faulted = False\<rparr>,
     rx_tracker = new_SnapshotTracker 10, rx_got = []\<rparr>"

lemma demo_sent_fits: "fits_snapshot \<lparr>sh_apply_index = 7, sh_apply_term = 2, sh_members = []\<rparr> [] []"
  by (simp add: fits_snapshot_def fits_SnapshotHeader_def fits_signed_def snapshot_bytes_def snapshot_body_def
      encode_SnapshotHeader_def encode_vector_def K_SNAPSHOT_TRAILER_BYTES_def)

lemma demo_store_layout: "layout (replica_dir ''data'' (demo_id 1)) (fst demo_store)" "no_faults (snd demo_store)"
  by (simp_all add: layout_def demo_store_def new_PersistEngine_def new_SnapshotStore_def no_faults_def demo_disk_def Let_def)

lemma finish_keeps_faults: "finish_snapshot_receive ss param d = (d', s) \<Longrightarrow> dk_faults d' = dk_faults d"
  by (auto simp: finish_snapshot_receive_def open_for_read_def publish_tmp_snapshot_def file_rename_def fsync_dir_def syscall_def Let_def
      split: if_splits sum.splits option.splits prod.splits)

lemma demo_finish:
  assumes L: "layout dir (fst (ho_store h))" and nf: "no_faults (snd (ho_store h))" "\<not> ho_faulted h" and core: "co_log (ho_core h) = new_RaftLog"
    and sm: "ho_sm h = new_KvStateMachine MAP"
    and data: "dk_files (snd (ho_store h)) (receiving_snapshot_file dir 7) = Some (is_data demo_sent)"
  shows "\<exists>h'. finish_install_snapshot demo_sent h = (h', OK)"
proof -
  have ss: "pe_snapshot (fst (ho_store h)) = new_SnapshotStore dir"
    using L by (simp add: layout_def)
  obtain reader where reader: "sr_initialize (Some (is_data demo_sent)) = Inr reader" "sr_file reader \<noteq> None"
      "sr_kv_count reader = 0" "sr_request_count reader = 0" "sr_header reader = \<lparr>sh_apply_index = 7, sh_apply_term = 2, sh_members = []\<rparr>"
    using sr_initialize_written [OF demo_sent_fits] by (simp add: demo_sent_def)
  obtain d1 s1 where 1: "finish_snapshot_receive (new_SnapshotStore dir) demo_sent (snd (ho_store h)) = (d1, s1)" by fastforce
  have s1: "s1 = OK" "no_faults d1" "dk_files d1 (snapshot_file dir) = Some (is_data demo_sent)"
    using no_faults_finish [OF nf(1) _ 1] finish_keeps_faults [OF 1] finish_snapshot_receive_result [OF 1] nf(1) data reader(1)
    by (auto simp: no_faults_def demo_sent_def)
  obtain d2 where 2: "open_reader (new_SnapshotStore dir) d1 = (d2, Inr (Some reader))"
    using open_reader_opens [OF s1(2) _ reader(1), of "new_SnapshotStore dir"] s1(3) by auto
  have "no_faults d2"
    using 2 s1(2) by (auto simp: open_reader_def open_for_read_def syscall_def no_faults_def Let_def split: if_splits)
  have "\<exists>rd sm. restore map_engine (Some (sr_header reader)) (Some sr_for_each_kv) (Some sr_for_each_request) reader (ho_sm h) = (rd, sm, OK)"
    using reader(2-5) sm by (simp add: restore_def sr_for_each_kv_def sr_for_each_request_def fail_iff Let_def)
  then obtain rd sm where 3: "restore map_engine (Some (sr_header reader)) (Some sr_for_each_kv) (Some sr_for_each_request) reader (ho_sm h) = (rd, sm, OK)"
    by blast
  obtain c eff where 4: "core_install_snapshot (ho_core h) (sr_header reader) no_effects = (c, eff)" by fastforce
  have eff: "ef_hard_state eff = None" "ef_entries_to_rewrite eff = Some []" "ef_entries_to_append eff = []"
    using 4 core by (auto simp: core_install_snapshot_def install_snapshot_into_log_def log_install_snapshot_def retained_entries_after_snapshot_def
        new_RaftLog_def no_effects_def Let_def split: if_splits)
  obtain w d3 s3 where 5: "rewrite_wal (pe_wal (fst (ho_store h))) [] d2 = (w, d3, s3)" by (metis prod_cases3)
  have "s3 = OK"
    using no_faults_rewrite_wal [OF \<open>no_faults d2\<close> _ 5] by simp
  then have "\<exists>h'. host_execute ((host_store_call (host_store_call h d1 s1) d2 OK)\<lparr>ho_sm := sm, ho_faulted := False\<rparr>) c eff OK = (h', OK)"
    using eff 5 by (simp add: host_execute_def execute_def persist_effects_def store_rewrite_def fail_iff)
  then show ?thesis
    using s1(1) 3 4 nf(2) by (simp add: finish_install_snapshot_def Let_def ss 1 2 fail_iff)
qed

theorem installed_snapshot_is_one_transfer_witness:
  "\<exists>h st ps reader. on_install_snapshot_chunk demo_sent (rx_host demo_receiver) (rx_tracker demo_receiver) = (h, st, OK)
     \<and> subseq (ps @ [demo_sent]) [demo_sent]
     \<and> dk_files (snd (ho_store h)) (snapshot_file (replica_dir ''data'' (demo_id 1))) = Some (chunk_bytes (ps @ [demo_sent]))
     \<and> sr_initialize (Some (chunk_bytes (ps @ [demo_sent]))) = Inr reader \<and> rl_snapshot_index (co_log (ho_core h)) = sh_apply_index (sr_header reader)"
proof -
  let ?dir = "replica_dir ''data'' (demo_id 1)" and ?h = "rx_host demo_receiver" and ?st = "rx_tracker demo_receiver"
  have run: "receiving ?dir demo_receiver"
    unfolding demo_receiver_def using demo_store_layout(1) by (intro receiving.start) simp
  have members: "contains_member (co_membership demo_core) (demo_id 2)"
    by (simp add: contains_member_def find_raft_member_def demo_members_def reset_voters_def)
  obtain c where prep: "prepare_install_snapshot demo_core demo_sent no_effects = (c, no_effects, OK, 0)" and c: "co_log c = new_RaftLog"
    using members by (auto simp: prepare_install_snapshot_def demo_sent_def new_RaftElection_def is_follower_def mark_recent_leader_active_def
        new_RaftApply_def new_RaftLog_def last_log_index_def Let_def)
  have x: "host_execute ?h c no_effects OK = (?h\<lparr>ho_core := c\<rparr>, OK)"
    by (simp add: demo_receiver_def host_execute_def execute_def persist_effects_def no_effects_def fail_iff)
  obtain d s where 1: "append_snapshot_chunk (new_SnapshotStore ?dir) demo_sent (snd demo_store) = (d, s)" by fastforce
  have ok1: "s = OK" "no_faults d"
    using no_faults_first_chunk [OF demo_store_layout(2) _ 1] by (simp_all add: demo_sent_def)
  have "dk_files d (receiving_snapshot_file ?dir 7) = Some (is_data demo_sent)"
    using append_snapshot_chunk_result(2) [OF 1 [unfolded ok1(1)]] by (simp add: demo_sent_def)
  then obtain h where 2: "finish_install_snapshot demo_sent (host_store_call (?h\<lparr>ho_core := c\<rparr>) d OK) = (h, OK)"
    using demo_finish [of ?dir "host_store_call (?h\<lparr>ho_core := c\<rparr>) d OK"] demo_store_layout(1) ok1(2) c
    by (auto simp: demo_receiver_def fail_iff)
  have "pe_snapshot (fst demo_store) = new_SnapshotStore ?dir"
    using demo_store_layout(1) by (simp add: layout_def)
  then obtain st where run1: "on_install_snapshot_chunk demo_sent ?h ?st = (h, st, OK)"
    using prep x 1 2 ok1(1)
    by (simp add: on_install_snapshot_chunk_def demo_receiver_def fail_iff Let_def) (simp add: demo_sent_def)
  have "\<not> ho_faulted ?h" "is_done demo_sent" "snd (snd (snd (prepare_install_snapshot (ho_core ?h) demo_sent no_effects))) < is_snapshot_index demo_sent"
    using prep by (simp_all add: demo_receiver_def) (simp_all add: demo_sent_def)
  note T = installed_snapshot_is_one_transfer [OF run this(1) run1 this(2,3)]
  have "rx_got demo_receiver @ [demo_sent] = [demo_sent]"
    by (simp add: demo_receiver_def)
  from T [unfolded this] show ?thesis
    using run1 by blast
qed

end
