(* ===== verification/Replica_Loop.thy ===== *)
theory Replica_Loop
  imports Read_Tracker Snapshot_Tracker Raft_Cluster "HOL-Library.Monad_Syntax"
begin

text \<open>
  The thread of a replica (\<^verbatim>\<open>storage/replica/replica_loop.*\<close>, \<^verbatim>\<open>replica_work.h\<close>,
  \<^verbatim>\<open>common/blocking_queue.h\<close>): it takes one task after the other from a queue, runs it on the Raft core, applies what is
  committed, and lets the trackers answer clients.  A dispatch is one step of the model.  The completions of the different
  result types are different heaps; an address belongs to one completion, so the heaps of the other types hold nothing at it.
  A loop that may not end gives \<^term>\<open>None\<close> when it does not; the only such loop is \<^verbatim>\<open>apply_committed_entries_inline\<close>, and
  it is shown to end.
\<close>

section \<open>Tasks and the queue\<close>

datatype PendingTask =
    RequestVoteCall RequestVoteParam nat
  | PreVoteCall RequestVoteParam nat
  | AppendEntriesCall AppendEntriesParam nat
  | ProposeCall ProposeQueued
  | SubmitReadCall Key nat
  | InstallSnapshotCall InstallSnapshotParam nat
  | AddMemberCall PeerMember nat
  | RemoveMemberCall ReplicaID nat
  | RecoverCall nat
  | TickEvent
  | AppendResponseEvent ReplicaID AppendEntriesParam AppendEntriesResult
  | VoteResponseEvent ReplicaID RequestVoteResult
  | PreVoteResponseEvent ReplicaID RequestVoteResult
  | SnapshotResponseEvent ReplicaID InstallSnapshotParam InstallSnapshotResult
  | AppendSendFailedEvent ReplicaID AppendEntriesParam Status
  | SnapshotSendFailedEvent ReplicaID InstallSnapshotParam Status
  | SnapshotDone SnapshotDoneEvent
  | ReadQuorumResponseEvent ReplicaID nat Term
  | FaultEvent Status

record 'a BlockingQueue =
  bq_items :: "'a list"
  bq_closed :: bool

definition new_BlockingQueue :: "'a BlockingQueue" where
  "new_BlockingQueue = \<lparr>bq_items = [], bq_closed = False\<rparr>"

definition bq_push :: "'a \<Rightarrow> 'a BlockingQueue \<Rightarrow> 'a BlockingQueue \<times> bool" where
  "bq_push item q = (if bq_closed q then (q, False) else (q\<lparr>bq_items := bq_items q @ [item]\<rparr>, True))"

text \<open>\<^verbatim>\<open>pop\<close> once it wakes up: the queue is closed or has an item.\<close>

definition bq_pop :: "'a BlockingQueue \<Rightarrow> 'a BlockingQueue \<times> 'a option" where
  "bq_pop q = (case bq_items q of [] \<Rightarrow> (q, None) | item # rest \<Rightarrow> (q\<lparr>bq_items := rest\<rparr>, Some item))"

definition bq_try_pop :: "'a BlockingQueue \<Rightarrow> 'a BlockingQueue \<times> 'a option" where
  "bq_try_pop q = (if bq_closed q then (q, None) else bq_pop q)"

definition bq_close :: "'a BlockingQueue \<Rightarrow> 'a BlockingQueue" where
  "bq_close q = q\<lparr>bq_closed := True, bq_items := []\<rparr>"

section \<open>Applying committed entries\<close>

definition K_REPLICA_MAX_PROPOSAL_BATCH_SIZE :: nat where
  "K_REPLICA_MAX_PROPOSAL_BATCH_SIZE = 64"

definition K_REPLICA_INLINE_APPLY_BATCH_SIZE :: nat where
  "K_REPLICA_INLINE_APPLY_BATCH_SIZE = 256"

definition apply_one_entry :: "LogEntry \<Rightarrow> ReplicaHost \<Rightarrow> ReplicaHost \<times> Status" where
  "apply_one_entry entry h =
    (if is_config_change_op (le_op_type entry) then
       let (c, s1) = apply_config_entry (ho_core h) entry; h1 = h\<lparr>ho_core := c\<rparr> in
       if fail s1 then (h1, s1)
       else let (sm, s2) = apply_entry map_engine entry (ho_sm h1) in
         if fail s2 then (h1\<lparr>ho_sm := sm\<rparr>, s2) else (h1\<lparr>ho_sm := sm\<rparr>, OK)
     else
       let (sm, s) = apply_entry map_engine entry (ho_sm h); h1 = h\<lparr>ho_sm := sm\<rparr> in
       if fail s then (h1, s) else (h1\<lparr>ho_core := advance_last_applied (ho_core h1) (le_index entry)\<rparr>, OK))"

text \<open>The inner loop, with \<^verbatim>\<open>FaultReporter::fail_if\<close> on each entry.\<close>

fun apply_batch :: "LogEntry list \<Rightarrow> ReplicaHost \<Rightarrow> ReplicaHost \<times> Status" where
  "apply_batch [] h = (h, OK)"
| "apply_batch (entry # rest) h =
    (let (h1, s) = apply_one_entry entry h in if fail s then (h1\<lparr>ho_faulted := True\<rparr>, s) else apply_batch rest h1)"

partial_function (option) apply_committed_entries_inline :: "ReplicaHost \<Rightarrow> (ReplicaHost \<times> Status) option" where
  "apply_committed_entries_inline h =
    (let (entries, has_more) = extract_committed_entries (ho_core h) K_REPLICA_INLINE_APPLY_BATCH_SIZE 0 in
     if entries = [] then Some (h, OK)
     else let (h1, s) = apply_batch entries h in
       if fail s then Some (h1, s) else if \<not> has_more then Some (h1, OK) else apply_committed_entries_inline h1)"

section \<open>The loop\<close>

text \<open>What other threads may read of the replica; it is published after every dispatch.\<close>

record ReplicaRuntimeInfo =
  ri_role :: ReplicaRole
  ri_current_term :: Term
  ri_members :: "RaftMember list"
  ri_snapshot_index :: LogIndex
  ri_snapshot_term :: Term
  ri_commit_index :: LogIndex
  ri_last_applied :: LogIndex
  ri_is_recovering :: bool

definition runtime_info_of :: "RaftCore \<Rightarrow> ReplicaRuntimeInfo" where
  "runtime_info_of c = \<lparr>ri_role = co_role c, ri_current_term = co_term c, ri_members = co_membership c,
     ri_snapshot_index = rl_snapshot_index (co_log c), ri_snapshot_term = rl_snapshot_term (co_log c), ri_commit_index = co_commit c,
     ri_last_applied = co_applied c, ri_is_recovering = co_recovering c\<rparr>"

record ReplicaLoop =
  lp_host :: ReplicaHost
  lp_runtime_info :: ReplicaRuntimeInfo
  lp_proposal_tracker :: ProposalTracker
  lp_read_tracker :: ReadTracker
  lp_snapshot_tracker :: SnapshotTracker
  lp_queue :: "PendingTask BlockingQueue"
  lp_next_task :: "PendingTask option"
  lp_started :: bool
  lp_active :: bool
  lp_registry :: CompletionRegistry
  lp_void :: "unit Completions"
  lp_values :: "Value Completions"
  lp_votes :: "RequestVoteResult Completions"
  lp_appends :: "AppendEntriesResult Completions"

definition new_ReplicaLoop :: "ReplicaHost \<Rightarrow> int \<Rightarrow> ReplicaLoop" where
  "new_ReplicaLoop h limit = \<lparr>lp_host = h, lp_runtime_info = runtime_info_of (ho_core h), lp_proposal_tracker = [], lp_read_tracker = new_ReadTracker,
     lp_snapshot_tracker = new_SnapshotTracker limit, lp_queue = new_BlockingQueue, lp_next_task = None, lp_started = False, lp_active = False,
     lp_registry = \<lparr>cg_closed = False, cg_pending = {}\<rparr>, lp_void = (\<lambda>_. new_Completion), lp_values = (\<lambda>_. new_Completion),
     lp_votes = (\<lambda>_. new_Completion), lp_appends = (\<lambda>_. new_Completion)\<rparr>"

definition loop_start :: "ReplicaLoop \<Rightarrow> ReplicaLoop" where
  "loop_start l = (if lp_started l then l else l\<lparr>lp_started := True, lp_active := True\<rparr>)"

definition post :: "PendingTask \<Rightarrow> ReplicaLoop \<Rightarrow> ReplicaLoop \<times> bool" where
  "post task l = (if \<not> lp_active l then (l, False) else let (q, b) = bq_push task (lp_queue l) in (l\<lparr>lp_queue := q\<rparr>, b))"

definition submit_async :: "PendingTask \<Rightarrow> ReplicaLoop \<Rightarrow> ReplicaLoop" where
  "submit_async event l = fst (post event l)"

text \<open>A fault reported during a dispatch stops the loop and closes the queue.\<close>

definition enter_fault :: "ReplicaLoop \<Rightarrow> ReplicaLoop" where
  "enter_fault l = l\<lparr>lp_active := False, lp_queue := bq_close (lp_queue l), lp_host := (lp_host l)\<lparr>ho_faulted := True\<rparr>\<rparr>"

definition with_host :: "ReplicaHost \<Rightarrow> ReplicaLoop \<Rightarrow> ReplicaLoop" where
  "with_host h l = (let l1 = l\<lparr>lp_host := h\<rparr> in if ho_faulted h then enter_fault l1 else l1)"

text \<open>Closing the registry, on all heaps.\<close>

definition close_registry :: "Status \<Rightarrow> ReplicaLoop \<Rightarrow> ReplicaLoop" where
  "close_registry status l =
    (let r = lp_registry l in
     l\<lparr>lp_registry := registry_close r, lp_void := registry_fail VoidRef status r (lp_void l),
       lp_values := registry_fail ValueRef status r (lp_values l), lp_votes := registry_fail VoteRef status r (lp_votes l),
       lp_appends := registry_fail AppendRef status r (lp_appends l)\<rparr>)"

definition loop_close :: "ReplicaLoop \<Rightarrow> ReplicaLoop" where
  "loop_close l = close_registry ERROR (l\<lparr>lp_started := True, lp_active := False, lp_queue := bq_close (lp_queue l)\<rparr>)"

definition fail_all_pending :: "Status \<Rightarrow> ReplicaLoop \<Rightarrow> ReplicaLoop" where
  "fail_all_pending status l =
    (let (rt, values) = reads_fail_all status (lp_read_tracker l) (lp_values l);
         (pt, void) = proposals_fail_all status (lp_proposal_tracker l) (lp_void l)
     in close_registry status (l\<lparr>lp_read_tracker := rt, lp_values := values, lp_proposal_tracker := pt, lp_void := void\<rparr>))"

text \<open>The deferred cleanup of \<^verbatim>\<open>run\<close>.\<close>

definition run_cleanup :: "ReplicaLoop \<Rightarrow> ReplicaLoop" where
  "run_cleanup l =
    (let l1 = l\<lparr>lp_next_task := None\<rparr> in fail_all_pending (if ho_faulted (lp_host l1) then IS_FAULTED else ERROR) l1)"

section \<open>Dispatching a task\<close>

definition finish_dispatch :: "Status \<Rightarrow> ReplicaLoop \<Rightarrow> (ReplicaLoop \<times> Status) option" where
  "finish_dispatch status l = do {
     (l1, status1) \<leftarrow>
       (if ho_faulted (lp_host l) then Some (l, status)
        else do { (h, apply_status) \<leftarrow> apply_committed_entries_inline (lp_host l);
                  Some (with_host h l, if fail apply_status \<and> ok status then apply_status else status) });
     let l2 = l1\<lparr>lp_runtime_info := runtime_info_of (ho_core (lp_host l1))\<rparr>;
     Some (l2, if ok status1 \<and> ho_faulted (lp_host l2) then IS_FAULTED else status1) }"

text \<open>A step of the core, executed.\<close>

definition loop_execute :: "RaftCore \<times> RaftEffects \<Rightarrow> Status \<Rightarrow> ReplicaLoop \<Rightarrow> ReplicaLoop \<times> Status" where
  "loop_execute step status l = (let (h, s) = host_execute (lp_host l) (fst step) (snd step) status in (with_host h l, s))"

text \<open>\<^verbatim>\<open>handle_event\<close>; the last case never occurs, the tasks there are calls.\<close>

definition handle_event :: "PendingTask \<Rightarrow> ReplicaLoop \<Rightarrow> ReplicaLoop \<times> Status" where
  "handle_event event l = (let c = ho_core (lp_host l) in case event of
      TickEvent \<Rightarrow> loop_execute (core_tick c no_effects) OK l
    | AppendResponseEvent from sent result \<Rightarrow>
        (let (c1, eff, s) = handle_append_response c from sent result no_effects in loop_execute (c1, eff) s l)
    | VoteResponseEvent from result \<Rightarrow> loop_execute (handle_vote_response c from result no_effects) OK l
    | PreVoteResponseEvent from result \<Rightarrow> loop_execute (handle_pre_vote_response c from result no_effects) OK l
    | SnapshotResponseEvent from sent result \<Rightarrow> loop_execute (handle_install_snapshot_response c from sent result no_effects) OK l
    | AppendSendFailedEvent from sent status \<Rightarrow> loop_execute (c, no_effects) OK l
    | SnapshotSendFailedEvent from sent status \<Rightarrow> loop_execute (handle_install_snapshot_send_failed c from sent, no_effects) OK l
    | FaultEvent status \<Rightarrow> (enter_fault l, OK)
    | ReadQuorumResponseEvent from read_seq response_term \<Rightarrow>
        (l\<lparr>lp_read_tracker := on_read_quorum_response from read_seq response_term (lp_values l) (lp_read_tracker l)\<rparr>, OK)
    | SnapshotDone done \<Rightarrow> (let (h, s) = on_snapshot_done done (lp_host l) in (with_host h l, s))
    | _ \<Rightarrow> (l, OK))"

fun collect_writes :: "nat \<Rightarrow> PendingTask BlockingQueue \<Rightarrow> ProposeQueued list \<times> PendingTask BlockingQueue \<times> PendingTask option" where
  "collect_writes 0 q = ([], q, None)"
| "collect_writes (Suc n) q = (let (q1, next_task) = bq_try_pop q in case next_task of
      None \<Rightarrow> ([], q1, None)
    | Some (ProposeCall call) \<Rightarrow> (let (calls, q2, other) = collect_writes n q1 in (call # calls, q2, other))
    | Some task \<Rightarrow> ([], q1, Some task))"

definition collect_write_batch :: "ProposeQueued \<Rightarrow> ReplicaLoop \<Rightarrow> ProposeQueued list \<times> ReplicaLoop" where
  "collect_write_batch first l =
    (let (calls, q, other) = collect_writes (K_REPLICA_MAX_PROPOSAL_BATCH_SIZE - 1) (lp_queue l) in
     (first # calls, l\<lparr>lp_queue := q, lp_next_task := (case other of None \<Rightarrow> lp_next_task l | Some t \<Rightarrow> Some t)\<rparr>))"

text \<open>Recovery: the stores are read, the state machine is restored from the snapshot, and the Raft core is rebuilt.\<close>

definition recover_call :: "ReplicaHost \<Rightarrow> ReplicaHost \<times> Status" where
  "recover_call h =
    (let (e, d, r) = persist_recover (fst (ho_store h)) (snd (ho_store h)); h1 = h\<lparr>ho_store := (e, d)\<rparr> in
     case r of Inl s \<Rightarrow> (h1, s)
     | Inr result \<Rightarrow>
         let rebuild = (\<lambda>g. g\<lparr>ho_core := recover_core (ho_core g) (rc_snapshot result) (rc_raft_meta result) (rc_wal_entries result)
                              (rc_need_recover result)\<rparr>) in
         case rc_snapshot result of None \<Rightarrow> (rebuild h1, OK)
         | Some header \<Rightarrow>
             let (d2, opened) = open_reader (pe_snapshot e) d in
             case opened of Inl s \<Rightarrow> (host_store_call h1 d2 s, s)
             | Inr None \<Rightarrow> (rebuild (host_store_call h1 d2 OK), OK)
             | Inr (Some reader) \<Rightarrow>
                 let h2 = host_store_call h1 d2 OK;
                     (_, sm, s) = restore map_engine (Some header) (Some sr_for_each_kv) (Some sr_for_each_request) reader (ho_sm h2);
                     h3 = h2\<lparr>ho_sm := sm, ho_faulted := (ho_faulted h2 \<or> fail s)\<rparr> in
                 if fail s then (h3, s) else (rebuild h3, OK))"

definition call_result :: "Status \<Rightarrow> 'v \<Rightarrow> 'v CompletionResult" where
  "call_result status v = (if ok status then result_ok v else result_fail status)"

text \<open>\<^verbatim>\<open>handle_call\<close>, one function for each request.\<close>

definition handle_RequestVoteCall :: "RequestVoteParam \<Rightarrow> ReplicaLoop \<Rightarrow> ReplicaLoop \<times> RequestVoteResult CompletionResult" where
  "handle_RequestVoteCall param l =
    (let (c, eff, result) = handle_request_vote (ho_core (lp_host l)) param no_effects; (l1, s) = loop_execute (c, eff) OK l in
     (l1, call_result s result))"

definition handle_PreVoteCall :: "RequestVoteParam \<Rightarrow> ReplicaLoop \<Rightarrow> ReplicaLoop \<times> RequestVoteResult CompletionResult" where
  "handle_PreVoteCall param l =
    (let c = ho_core (lp_host l); (l1, s) = loop_execute (c, no_effects) OK l in (l1, call_result s (handle_pre_vote c param)))"

definition handle_AppendEntriesCall :: "AppendEntriesParam \<Rightarrow> ReplicaLoop \<Rightarrow> ReplicaLoop \<times> AppendEntriesResult CompletionResult" where
  "handle_AppendEntriesCall param l =
    (let (c, eff, result) = handle_append_entries (ho_core (lp_host l)) param no_effects; (l1, s) = loop_execute (c, eff) OK l in
     (l1, call_result s result))"

definition handle_InstallSnapshotCall :: "InstallSnapshotParam \<Rightarrow> ReplicaLoop \<Rightarrow> ReplicaLoop \<times> unit CompletionResult" where
  "handle_InstallSnapshotCall param l =
    (let (h, st, s) = on_install_snapshot_chunk param (lp_host l) (lp_snapshot_tracker l) in
     (with_host h (l\<lparr>lp_snapshot_tracker := st\<rparr>), void_result s))"

definition handle_AddMemberCall :: "PeerMember \<Rightarrow> ReplicaLoop \<Rightarrow> ReplicaLoop \<times> unit CompletionResult" where
  "handle_AddMemberCall member l =
    (let (c, eff, s) = ensure_add_learner (ho_core (lp_host l)) member no_effects; (l1, s1) = loop_execute (c, eff) s l in
     (l1, void_result s1))"

definition handle_RemoveMemberCall :: "ReplicaID \<Rightarrow> ReplicaLoop \<Rightarrow> ReplicaLoop \<times> unit CompletionResult" where
  "handle_RemoveMemberCall rid l =
    (let (c, eff, s) = ensure_remove_member (ho_core (lp_host l)) rid no_effects; (l1, s1) = loop_execute (c, eff) s l in
     (l1, void_result s1))"

definition handle_RecoverCall :: "ReplicaLoop \<Rightarrow> ReplicaLoop \<times> unit CompletionResult" where
  "handle_RecoverCall l = (let (h, s) = recover_call (lp_host l) in (with_host h l, void_result s))"

text \<open>The template for a call: what \<^verbatim>\<open>handle_call\<close> gave, or the failure of \<^verbatim>\<open>finish_dispatch\<close>, is the result.\<close>

definition dispatch_call :: "ReplicaLoop \<times> 'v CompletionResult \<Rightarrow> (ReplicaLoop \<times> 'v CompletionResult \<times> Status) option" where
  "dispatch_call handled = do {
     (l, status) \<leftarrow> finish_dispatch (cr_status (snd handled)) (fst handled);
     Some (l, if fail status then result_fail status else snd handled, status) }"

definition dispatch_write :: "ProposeQueued \<Rightarrow> ReplicaLoop \<Rightarrow> (ReplicaLoop \<times> Status) option" where
  "dispatch_write call l =
    (let (calls, l1) = collect_write_batch call l in
     if \<not> lp_active l1 then Some (l1, OK)
     else let (h, (pt, void), s) = submit_batch (lp_host l1) calls (lp_proposal_tracker l1) (lp_void l1) in
       finish_dispatch s (with_host h (l1\<lparr>lp_proposal_tracker := pt, lp_void := void\<rparr>)))"

definition dispatch_read :: "Key \<Rightarrow> nat \<Rightarrow> ReplicaLoop \<Rightarrow> (ReplicaLoop \<times> Status) option" where
  "dispatch_read key cid l =
    (let h = lp_host l; (rt, msgs, s) = establish (ho_core h) key cid (lp_read_tracker l) (lp_values l) in do {
     (l1, status) \<leftarrow> finish_dispatch s (l\<lparr>lp_read_tracker := rt, lp_host := h\<lparr>ho_sent := ho_sent h @ msgs\<rparr>\<rparr>);
     Some (if fail status then l1\<lparr>lp_values := complete_at cid (result_fail status) (lp_values l1)\<rparr> else l1, status) })"

definition complete_void :: "nat \<Rightarrow> ReplicaLoop \<times> unit CompletionResult \<Rightarrow> (ReplicaLoop \<times> Status) option" where
  "complete_void cid handled = do {
     (l, result, status) \<leftarrow> dispatch_call handled; Some (l\<lparr>lp_void := complete_at cid result (lp_void l)\<rparr>, status) }"

definition complete_vote :: "nat \<Rightarrow> ReplicaLoop \<times> RequestVoteResult CompletionResult \<Rightarrow> (ReplicaLoop \<times> Status) option" where
  "complete_vote cid handled = do {
     (l, result, status) \<leftarrow> dispatch_call handled; Some (l\<lparr>lp_votes := complete_at cid result (lp_votes l)\<rparr>, status) }"

definition complete_append :: "nat \<Rightarrow> ReplicaLoop \<times> AppendEntriesResult CompletionResult \<Rightarrow> (ReplicaLoop \<times> Status) option" where
  "complete_append cid handled = do {
     (l, result, status) \<leftarrow> dispatch_call handled; Some (l\<lparr>lp_appends := complete_at cid result (lp_appends l)\<rparr>, status) }"

definition dispatch_event :: "PendingTask \<Rightarrow> ReplicaLoop \<Rightarrow> (ReplicaLoop \<times> Status) option" where
  "dispatch_event event l = (let (l1, s) = handle_event event l in finish_dispatch s l1)"

definition dispatch :: "PendingTask \<Rightarrow> ReplicaLoop \<Rightarrow> (ReplicaLoop \<times> Status) option" where
  "dispatch task l = (case task of
      RequestVoteCall param cid \<Rightarrow> complete_vote cid (handle_RequestVoteCall param l)
    | PreVoteCall param cid \<Rightarrow> complete_vote cid (handle_PreVoteCall param l)
    | AppendEntriesCall param cid \<Rightarrow> complete_append cid (handle_AppendEntriesCall param l)
    | ProposeCall call \<Rightarrow> dispatch_write call l
    | SubmitReadCall key cid \<Rightarrow> dispatch_read key cid l
    | InstallSnapshotCall param cid \<Rightarrow> complete_void cid (handle_InstallSnapshotCall param l)
    | AddMemberCall member cid \<Rightarrow> complete_void cid (handle_AddMemberCall member l)
    | RemoveMemberCall rid cid \<Rightarrow> complete_void cid (handle_RemoveMemberCall rid l)
    | RecoverCall cid \<Rightarrow> complete_void cid (handle_RecoverCall l)
    | event \<Rightarrow> dispatch_event event l)"

definition advance_trackers :: "(RequestRecord list \<Rightarrow> RequestRecord list) \<Rightarrow> ReplicaLoop \<Rightarrow> ReplicaLoop" where
  "advance_trackers order l =
    (let h = lp_host l;
         (pt, void) = proposals_advance (ho_core h) (ho_sm h) (lp_proposal_tracker l) (lp_void l);
         (rt, values, faulted) = reads_advance (ho_core h) (ho_sm h) (lp_read_tracker l) (lp_values l);
         l1 = l\<lparr>lp_proposal_tracker := pt, lp_void := void, lp_read_tracker := rt, lp_values := values\<rparr>;
         l2 = (if faulted then enter_fault l1 else l1) in
     if ho_faulted (lp_host l2) then l2
     else let (h', st) = snapshots_advance order (lp_host l2) (lp_snapshot_tracker l2) in with_host h' (l2\<lparr>lp_snapshot_tracker := st\<rparr>))"

text \<open>One iteration of \<^verbatim>\<open>run\<close>; the flag says whether the loop goes on.\<close>

definition run_once :: "(RequestRecord list \<Rightarrow> RequestRecord list) \<Rightarrow> ReplicaLoop \<Rightarrow> (ReplicaLoop \<times> bool) option" where
  "run_once order l =
    (if \<not> lp_active l then Some (l, False)
     else let (l1, task) = (case lp_next_task l of Some t \<Rightarrow> (l\<lparr>lp_next_task := None\<rparr>, Some t)
                | None \<Rightarrow> let (q, t) = bq_pop (lp_queue l) in (l\<lparr>lp_queue := q\<rparr>, t)) in
       case task of None \<Rightarrow> Some (l1, False)
       | Some t \<Rightarrow> do { (l2, status) \<leftarrow> dispatch t l1;
           if \<not> lp_active l2 then Some (l2, False) else Some (advance_trackers order l2, True) })"

text \<open>The body of the thread: iterations until the flag or \<^verbatim>\<open>active_\<close> ends it, then the cleanup.\<close>

definition run_step :: "(RequestRecord list \<Rightarrow> RequestRecord list) \<Rightarrow> ReplicaLoop \<Rightarrow> ReplicaLoop option" where
  "run_step order l = do {
     (l1, goes_on) \<leftarrow> run_once order l;
     Some (if goes_on \<and> lp_active l1 then l1 else run_cleanup l1) }"

section \<open>Submitting a call\<close>

text \<open>The completion a call carries; events carry none.\<close>

fun call_completion :: "PendingTask \<Rightarrow> CompletionRef option" where
  "call_completion (RequestVoteCall _ cid) = Some (VoteRef cid)"
| "call_completion (PreVoteCall _ cid) = Some (VoteRef cid)"
| "call_completion (AppendEntriesCall _ cid) = Some (AppendRef cid)"
| "call_completion (ProposeCall call) = Some (VoidRef (qp_completion call))"
| "call_completion (SubmitReadCall _ cid) = Some (ValueRef cid)"
| "call_completion (InstallSnapshotCall _ cid) = Some (VoidRef cid)"
| "call_completion (AddMemberCall _ cid) = Some (VoidRef cid)"
| "call_completion (RemoveMemberCall _ cid) = Some (VoidRef cid)"
| "call_completion (RecoverCall cid) = Some (VoidRef cid)"
| "call_completion _ = None"

fun fail_completion :: "CompletionRef \<Rightarrow> Status \<Rightarrow> ReplicaLoop \<Rightarrow> ReplicaLoop" where
  "fail_completion (VoidRef cid) status l = l\<lparr>lp_void := complete_at cid (result_fail status) (lp_void l)\<rparr>"
| "fail_completion (ValueRef cid) status l = l\<lparr>lp_values := complete_at cid (result_fail status) (lp_values l)\<rparr>"
| "fail_completion (VoteRef cid) status l = l\<lparr>lp_votes := complete_at cid (result_fail status) (lp_votes l)\<rparr>"
| "fail_completion (AppendRef cid) status l = l\<lparr>lp_appends := complete_at cid (result_fail status) (lp_appends l)\<rparr>"

text \<open>
  \<^verbatim>\<open>submit_and_wait\<close> up to the wait.  Other threads may run between entering the completion in the registry and posting
  the call, so these are two steps.  The flag is false when the function returns at once with \<^verbatim>\<open>ERROR\<close>.
\<close>

definition submit_register :: "CompletionRef \<Rightarrow> ReplicaLoop \<Rightarrow> ReplicaLoop \<times> bool" where
  "submit_register ref l =
    (let (r, added) = registry_add ref (lp_registry l) in
     if \<not> added then (fail_completion ref ERROR l, False) else (l\<lparr>lp_registry := r\<rparr>, True))"

definition submit_post :: "PendingTask \<Rightarrow> CompletionRef \<Rightarrow> ReplicaLoop \<Rightarrow> ReplicaLoop" where
  "submit_post task ref l = (let (l1, posted) = post task l in if \<not> posted then fail_completion ref ERROR l1 else l1)"

definition submit :: "PendingTask \<Rightarrow> CompletionRef \<Rightarrow> ReplicaLoop \<Rightarrow> ReplicaLoop \<times> bool" where
  "submit task ref l =
    (if \<not> lp_active l then (l, False)
     else let (l1, added) = submit_register ref l in (if added then submit_post task ref l1 else l1, True))"

text \<open>\<^verbatim>\<open>wait_for\<close> when it wakes up, and the deferred removal from the registry.\<close>

fun wake_up :: "CompletionRef \<Rightarrow> Status \<Rightarrow> ReplicaLoop \<Rightarrow> ReplicaLoop" where
  "wake_up (VoidRef cid) s l = l\<lparr>lp_void := (lp_void l)(cid := fst (wait_for s (lp_void l cid))), lp_registry := registry_remove (VoidRef cid) (lp_registry l)\<rparr>"
| "wake_up (ValueRef cid) s l = l\<lparr>lp_values := (lp_values l)(cid := fst (wait_for s (lp_values l cid))), lp_registry := registry_remove (ValueRef cid) (lp_registry l)\<rparr>"
| "wake_up (VoteRef cid) s l = l\<lparr>lp_votes := (lp_votes l)(cid := fst (wait_for s (lp_votes l cid))), lp_registry := registry_remove (VoteRef cid) (lp_registry l)\<rparr>"
| "wake_up (AppendRef cid) s l = l\<lparr>lp_appends := (lp_appends l)(cid := fst (wait_for s (lp_appends l cid))), lp_registry := registry_remove (AppendRef cid) (lp_registry l)\<rparr>"

section \<open>Applying ends\<close>

lemma advance_last_applied_sel [simp]:
  "co_commit (advance_last_applied c i) = co_commit c" "co_applied (advance_last_applied c i) = max (co_applied c) i"
  "co_log (advance_last_applied c i) = co_log c"
  by (auto simp: advance_last_applied_def apply_advance_last_applied_def)

text \<open>An entry that is applied moves the replica to its index.\<close>

lemma apply_one_entry_result:
  assumes wf: "core_wf (ho_core h)" and i: "le_index e \<le> co_commit (ho_core h)" and run: "apply_one_entry e h = (h', s)"
  shows "core_wf (ho_core h')" "co_log (ho_core h') = co_log (ho_core h)" "co_commit (ho_core h') = co_commit (ho_core h)"
    "s = OK \<Longrightarrow> co_applied (ho_core h') = max (co_applied (ho_core h)) (le_index e)"
    "\<not> is_config_change_op (le_op_type e) \<Longrightarrow> apply_entry map_engine e (ho_sm h) = (ho_sm h', s)" "ho_faulted h' = ho_faulted h"
proof -
  obtain c s1 where 1: "apply_config_entry (ho_core h) e = (c, s1)" by fastforce
  obtain sm s2 where 2: "apply_entry map_engine e (ho_sm h) = (sm, s2)" by fastforce
  have out: "(h', s) = (if is_config_change_op (le_op_type e)
      then if fail s1 then (h\<lparr>ho_core := c\<rparr>, s1) else (h\<lparr>ho_core := c, ho_sm := sm\<rparr>, if fail s2 then s2 else OK)
      else if fail s2 then (h\<lparr>ho_sm := sm\<rparr>, s2) else (h\<lparr>ho_sm := sm, ho_core := advance_last_applied (ho_core h) (le_index e)\<rparr>, OK))"
    using run by (simp add: apply_one_entry_def Let_def 1 2 split: if_splits)
  have c: "core_wf c" "co_log c = co_log (ho_core h)" "co_commit c = co_commit (ho_core h)"
    using apply_config_entry_wf [OF wf i 1] apply_config_entry_commit [of "ho_core h" e] 1 by simp_all
  have applied: "s1 = OK \<Longrightarrow> co_applied c = max (co_applied (ho_core h)) (le_index e)"
    using 1 by (cases rule: apply_config_entry_cases) simp_all
  note a = advance_last_applied_wf [OF wf i]
  show "core_wf (ho_core h')" "co_log (ho_core h') = co_log (ho_core h)" "co_commit (ho_core h') = co_commit (ho_core h)"
    "s = OK \<Longrightarrow> co_applied (ho_core h') = max (co_applied (ho_core h)) (le_index e)"
    "\<not> is_config_change_op (le_op_type e) \<Longrightarrow> apply_entry map_engine e (ho_sm h) = (ho_sm h', s)" "ho_faulted h' = ho_faulted h"
    using out c applied a wf 2 by (auto simp: fail_iff split: if_splits)
qed

lemma apply_batch_result:
  assumes "core_wf (ho_core h)" and "\<forall>e \<in> set es. le_index e \<le> co_commit (ho_core h)" and "apply_batch es h = (h', s)"
  shows "core_wf (ho_core h') \<and> co_log (ho_core h') = co_log (ho_core h) \<and> co_commit (ho_core h') = co_commit (ho_core h)
    \<and> (s = OK \<longrightarrow> co_applied (ho_core h') = fold (\<lambda>e a. max a (le_index e)) es (co_applied (ho_core h)))
    \<and> (s \<noteq> OK \<longrightarrow> ho_faulted h')
    \<and> ((\<forall>e \<in> set es. \<not> is_config_change_op (le_op_type e)) \<longrightarrow> s = OK \<longrightarrow> apply_all es (ho_sm h) = (ho_sm h', OK))"
  using assms
proof (induction es arbitrary: h)
  case (Cons e es)
  obtain h1 s1 where 1: "apply_one_entry e h = (h1, s1)" by fastforce
  note R = apply_one_entry_result [OF Cons.prems(1) _ 1]
  have i: "le_index e \<le> co_commit (ho_core h)"
    using Cons.prems(2) by simp
  show ?case
  proof (cases "fail s1")
    case True
    then show ?thesis
      using Cons.prems(3) R(1-3) [OF i] 1 by (auto simp: fail_iff)
  next
    case False
    have IH: "core_wf (ho_core h') \<and> co_log (ho_core h') = co_log (ho_core h1) \<and> co_commit (ho_core h') = co_commit (ho_core h1)
      \<and> (s = OK \<longrightarrow> co_applied (ho_core h') = fold (\<lambda>e a. max a (le_index e)) es (co_applied (ho_core h1)))
      \<and> (s \<noteq> OK \<longrightarrow> ho_faulted h')
      \<and> ((\<forall>e \<in> set es. \<not> is_config_change_op (le_op_type e)) \<longrightarrow> s = OK \<longrightarrow> apply_all es (ho_sm h1) = (ho_sm h', OK))"
      using Cons.prems(2,3) False 1 R(3) [OF i] by (intro Cons.IH R(1) [OF i]) simp_all
    then show ?thesis
      using R(2-5) [OF i] False by (auto simp: fail_iff)
  qed
qed simp

text \<open>Everything is handed out unless \<^verbatim>\<open>has_more\<close> says otherwise.\<close>

lemma extract_entries_more: "snd (extract_entries be bb es n b ex True)"
  by (induction es arbitrary: n b ex) auto

lemma extract_entries_all: "extract_entries be bb es n b False False = (xs, False) \<Longrightarrow> xs = es"
proof (induction es arbitrary: n b xs)
  case (Cons e es)
  have "\<not> n \<ge> be \<or> is_config_change_op (le_op_type e)"
    using Cons.prems extract_entries_more [of be bb es n b True] by (auto split: if_splits)
  then show ?case
    using Cons by (auto simp: apfst_def map_prod_def split: if_splits prod.splits)
qed simp

lemma extract_entries_subset: "x \<in> set (fst (extract_entries be bb es n b ex m)) \<Longrightarrow> x \<in> set es"
  by (induction es arbitrary: n b ex m) (auto split: if_splits)

text \<open>The committed entries not yet applied, one for each index.\<close>

lemma committed_unapplied_indices:
  assumes "core_wf c"
  shows "map le_index (committed_unapplied (co_log c) (co_apply c)) = [co_applied c + 1..co_commit c]"
    "committed_unapplied (co_log c) (co_apply c) = map (\<lambda>i. the (entry_at (co_log c) i)) [co_applied c + 1..co_commit c]"
proof -
  have wf: "log_wf (co_log c)" "apply_wf (co_log c) (co_apply c)"
    using assms by (simp_all add: core_wf_def)
  show idx: "map le_index (committed_unapplied (co_log c) (co_apply c)) = [co_applied c + 1..co_commit c]"
    unfolding committed_unapplied_def using wf by (intro map_filter_entry_at_indices) (auto simp: apply_wf_def)
  have "\<forall>e \<in> set (committed_unapplied (co_log c) (co_apply c)). entry_at (co_log c) (le_index e) = Some e"
    using entry_at_SomeD(1) [OF wf(1)] by (auto simp: committed_unapplied_def List.map_filter_def)
  then have "committed_unapplied (co_log c) (co_apply c) = map (\<lambda>e. the (entry_at (co_log c) (le_index e))) (committed_unapplied (co_log c) (co_apply c))"
    by (simp add: map_idI)
  also have "\<dots> = map (\<lambda>i. the (entry_at (co_log c) i)) (map le_index (committed_unapplied (co_log c) (co_apply c)))"
    by simp
  finally show "committed_unapplied (co_log c) (co_apply c) = map (\<lambda>i. the (entry_at (co_log c) i)) [co_applied c + 1..co_commit c]"
    unfolding idx .
qed

lemma fold_max_ge: "(a::int) \<le> fold (\<lambda>e a. max a (le_index e)) es a" "e \<in> set es \<Longrightarrow> le_index e \<le> fold (\<lambda>e a. max a (le_index e)) es a"
proof (induction es arbitrary: a)
  case (Cons x es)
  {
    case 1
    show ?case
      using Cons.IH(1) [of "max a (le_index x)"] by simp
  next
    case 2
    then show ?case
      using Cons.IH(1) [of "max a (le_index x)"] Cons.IH(2) [of "max a (le_index x)"] by auto
  }
qed simp_all

lemma fold_max_le: "(a::int) \<le> b \<Longrightarrow> \<forall>e \<in> set es. le_index e \<le> b \<Longrightarrow> fold (\<lambda>e a. max a (le_index e)) es a \<le> b"
  by (induction es arbitrary: a) auto

lemma fold_max_run:
  assumes "map le_index es = [a + 1..a + int (length es)]"
  shows "fold (\<lambda>e a. max a (le_index e)) es a = a + int (length es)"
proof (cases es)
  case (Cons x xs)
  have "set (map le_index es) = {a + 1..a + int (length es)}"
    unfolding assms by simp
  then have "a + int (length es) \<in> le_index ` set es" "\<forall>e \<in> set es. le_index e \<le> a + int (length es)"
    using Cons by auto
  then show ?thesis
    using fold_max_ge(2) [of _ es a] fold_max_le [of a "a + int (length es)" es] by fastforce
qed simp

lemma drop_upto: "drop n [i..j] = [i + int n..j]"
proof (induction n arbitrary: i)
  case (Suc n)
  then show ?case
    by (cases "i \<le> j") (simp_all add: upto.simps [of i j] algebra_simps)
qed simp

text \<open>One round of the loop on a well-formed replica: it is at the end, or the replica moves on.\<close>

lemma apply_round:
  assumes wf: "core_wf (ho_core h)" and ex: "extract_committed_entries (ho_core h) K_REPLICA_INLINE_APPLY_BATCH_SIZE 0 = (es, has_more)"
    and run: "apply_batch es h = (h1, s)"
  defines "c \<equiv> ho_core h" and "c1 \<equiv> ho_core h1" and "todo \<equiv> committed_unapplied (co_log (ho_core h)) (co_apply (ho_core h))"
  shows "es = [] \<Longrightarrow> co_applied c = co_commit c \<and> todo = []" "core_wf c1 \<and> co_log c1 = co_log c \<and> co_commit c1 = co_commit c"
    "es \<noteq> [] \<Longrightarrow> s = OK \<Longrightarrow> co_applied c < co_applied c1" "es \<noteq> [] \<Longrightarrow> s = OK \<Longrightarrow> \<not> has_more \<Longrightarrow> co_applied c1 = co_commit c \<and> es = todo"
    "s \<noteq> OK \<Longrightarrow> ho_faulted h1"
    "\<forall>e \<in> set todo. \<not> is_config_change_op (le_op_type e) \<Longrightarrow> s = OK \<Longrightarrow>
       apply_all es (ho_sm h) = (ho_sm h1, OK) \<and> todo = es @ committed_unapplied (co_log c1) (co_apply c1)"
proof -
  have ex': "extract_entries K_REPLICA_INLINE_APPLY_BATCH_SIZE 0 todo 0 0 False False = (es, has_more)"
    using ex by (simp add: extract_committed_entries_def apply_extract_entries todo_def)
  note idx = committed_unapplied_indices [OF wf, folded todo_def c_def]
  have le: "co_applied c \<le> co_commit c"
    using wf by (simp add: core_wf_def apply_wf_def c_def)
  have todo_Nil: "todo = [] \<Longrightarrow> co_applied c = co_commit c"
    using idx(1) le by (cases "co_applied c < co_commit c") auto
  then show "es = [] \<Longrightarrow> co_applied c = co_commit c \<and> todo = []"
    using extract_entries_progress [of K_REPLICA_INLINE_APPLY_BATCH_SIZE todo 0 0] ex'
    by (auto simp: K_REPLICA_INLINE_APPLY_BATCH_SIZE_def)
  have sub: "x \<in> set todo" if "x \<in> set es" for x
    using extract_entries_subset [of x K_REPLICA_INLINE_APPLY_BATCH_SIZE 0 todo 0 0 False False] that ex' by simp
  have bounds: "co_applied c < le_index x \<and> le_index x \<le> co_commit c" if "x \<in> set todo" for x
  proof -
    have "le_index x \<in> set [co_applied c + 1..co_commit c]"
      using that by (simp flip: idx(1))
    then show ?thesis by simp
  qed
  note B = apply_batch_result [OF wf _ run, folded c_def c1_def]
  have B': "core_wf c1 \<and> co_log c1 = co_log c \<and> co_commit c1 = co_commit c
    \<and> (s = OK \<longrightarrow> co_applied c1 = fold (\<lambda>e a. max a (le_index e)) es (co_applied c)) \<and> (s \<noteq> OK \<longrightarrow> ho_faulted h1)
    \<and> ((\<forall>e \<in> set es. \<not> is_config_change_op (le_op_type e)) \<longrightarrow> s = OK \<longrightarrow> apply_all es (ho_sm h) = (ho_sm h1, OK))"
    using sub bounds by (intro B) blast
  show 2: "core_wf c1 \<and> co_log c1 = co_log c \<and> co_commit c1 = co_commit c" and "s \<noteq> OK \<Longrightarrow> ho_faulted h1"
    using B' by blast+
  show "co_applied c < co_applied c1" if ne: "es \<noteq> []" and OK: "s = OK"
  proof -
    have "le_index (hd es) \<le> co_applied c1"
      using B' OK ne fold_max_ge(2) [of "hd es" es "co_applied c"] by simp
    then show ?thesis
      using bounds [OF sub, of "hd es"] ne by simp
  qed
  have upper: "co_applied c1 \<le> co_commit c"
    using B' by (auto simp: core_wf_def apply_wf_def)
  show "co_applied c1 = co_commit c \<and> es = todo" if ne: "es \<noteq> []" and OK: "s = OK" and last: "\<not> has_more"
  proof -
    have es: "es = todo"
      using extract_entries_all ex' last by auto
    then have "co_applied c < co_commit c"
      using ne idx(1) le by (cases "co_applied c = co_commit c") auto
    then have "co_commit c \<in> set (map le_index todo)"
      unfolding idx(1) by simp
    then show ?thesis
      using B' OK es upper fold_max_ge(2) [of _ es "co_applied c"] by fastforce
  qed
  show "apply_all es (ho_sm h) = (ho_sm h1, OK) \<and> todo = es @ committed_unapplied (co_log c1) (co_apply c1)"
    if kv: "\<forall>e \<in> set todo. \<not> is_config_change_op (le_op_type e)" and OK: "s = OK"
  proof
    show "apply_all es (ho_sm h) = (ho_sm h1, OK)"
      using B' OK kv sub by blast
    obtain rest where rest: "todo = es @ rest"
      using extract_entries_prefix [OF kv _ ex'] by auto
    have n: "length es \<le> nat (co_commit c - co_applied c)"
      using arg_cong [OF idx(1), of length] rest by simp
    have "map le_index es = take (length es) [co_applied c + 1..co_commit c]"
      using rest by (simp flip: idx(1))
    then have "map le_index es = [co_applied c + 1..co_applied c + int (length es)]"
      using n le take_upto [of "length es" "co_commit c" "co_applied c + 1"] by (simp add: algebra_simps)
    then have applied: "co_applied c1 = co_applied c + int (length es)"
      using B' OK fold_max_run by simp
    have "rest = drop (length es) todo"
      using rest by simp
    also have "\<dots> = map (\<lambda>i. the (entry_at (co_log c) i)) [co_applied c1 + 1..co_commit c1]"
      unfolding idx(2) using 2 applied by (simp add: drop_map drop_upto algebra_simps)
    finally show "todo = es @ committed_unapplied (co_log c1) (co_apply c1)"
      using rest 2 committed_unapplied_indices(2) [of c1] by simp
  qed
qed

definition applied_all :: "ReplicaHost \<Rightarrow> ReplicaHost \<Rightarrow> Status \<Rightarrow> bool" where
  "applied_all h h' s \<longleftrightarrow> core_wf (ho_core h') \<and> co_log (ho_core h') = co_log (ho_core h) \<and> co_commit (ho_core h') = co_commit (ho_core h)
     \<and> (s = OK \<longrightarrow> co_applied (ho_core h') = co_commit (ho_core h)) \<and> (s \<noteq> OK \<longrightarrow> ho_faulted h')
     \<and> ((\<forall>e \<in> set (committed_unapplied (co_log (ho_core h)) (co_apply (ho_core h))). \<not> is_config_change_op (le_op_type e)) \<longrightarrow> s = OK \<longrightarrow>
         apply_all (committed_unapplied (co_log (ho_core h)) (co_apply (ho_core h))) (ho_sm h) = (ho_sm h', OK))"

lemma apply_inline_applies:
  "core_wf (ho_core h) \<Longrightarrow> \<exists>h' s. apply_committed_entries_inline h = Some (h', s) \<and> applied_all h h' s"
proof (induction "nat (co_commit (ho_core h) - co_applied (ho_core h))" arbitrary: h rule: less_induct)
  case less
  obtain es has_more where ex: "extract_committed_entries (ho_core h) K_REPLICA_INLINE_APPLY_BATCH_SIZE 0 = (es, has_more)" by fastforce
  obtain h1 s where run: "apply_batch es h = (h1, s)" by fastforce
  let ?todo = "\<lambda>h. committed_unapplied (co_log (ho_core h)) (co_apply (ho_core h))"
  note R = apply_round [OF less.prems ex run]
  have eq: "apply_committed_entries_inline h = (if es = [] then Some (h, OK) else if fail s then Some (h1, s)
      else if \<not> has_more then Some (h1, OK) else apply_committed_entries_inline h1)"
    by (subst apply_committed_entries_inline.simps) (simp add: ex run)
  show ?case
  proof (cases "es \<noteq> [] \<and> s = OK \<and> has_more")
    case False
    then consider "es = []" | "es \<noteq> []" "s \<noteq> OK" | "es \<noteq> []" "s = OK" "\<not> has_more"
      by blast
    then show ?thesis
    proof cases
      case 1
      then show ?thesis
        using R(1) eq less.prems by (simp add: applied_all_def)
    next
      case 2
      then show ?thesis
        using R(2,5) eq by (simp add: applied_all_def fail_iff)
    next
      case 3
      then show ?thesis
        using R(2,6) R(4) [OF 3] eq by (simp add: applied_all_def fail_iff)
    qed
  next
    case True
    have "nat (co_commit (ho_core h1) - co_applied (ho_core h1)) < nat (co_commit (ho_core h) - co_applied (ho_core h))"
      using R(3) True less.prems R(2) by (auto simp: core_wf_def apply_wf_def)
    from less.hyps [OF this] R(2) obtain h' s' where IH: "apply_committed_entries_inline h1 = Some (h', s')" "applied_all h1 h' s'"
      by blast
    have "apply_all (?todo h) (ho_sm h) = (ho_sm h', OK)"
      if kv: "\<forall>e \<in> set (?todo h). \<not> is_config_change_op (le_op_type e)" and OK: "s' = OK"
    proof -
      have P: "apply_all es (ho_sm h) = (ho_sm h1, OK)" "?todo h = es @ ?todo h1"
        using R(6) kv True by blast+
      then have "apply_all (?todo h1) (ho_sm h1) = (ho_sm h', OK)"
        using IH(2) kv OK by (simp add: applied_all_def)
      then show ?thesis
        using P by (simp add: visit_all_append fail_iff)
    qed
    then have "applied_all h h' s'"
      using IH(2) R(2) by (simp add: applied_all_def)
    then show ?thesis
      using IH(1) eq True by (simp add: fail_iff)
  qed
qed



end
