(* ===== verification/Spec2Isabelle.thy ===== *)
theory Spec2Isabelle
  imports Replica_Loop
begin

text \<open>
  Verification of AdvisKV, a sharded key-value store in which every shard is replicated with Raft.

  Parts of the program and the theories that model them:

  \<^item> \<^verbatim>\<open>common/model\<close>, \<^verbatim>\<open>common/status.h\<close>, \<^verbatim>\<open>storage/model\<close>: the shared data, theory \<^verbatim>\<open>Model\<close>.
  \<^item> \<^verbatim>\<open>storage/raft/raft_log\<close>: the in-memory log behind a snapshot, theory \<^verbatim>\<open>Raft_Log\<close>.
\<close>

end
